(* ===== verification/Prelude.thy ===== *)
theory Prelude
  imports Main "HOL-Library.Sublist" "HOL-Library.List_Lexorder" "HOL-Library.Char_ord"
    "HOL-Library.Product_Lexorder"
begin

text \<open>
  Shared vocabulary of the development: the parts of Go's \<open>strings\<close>, \<open>strconv\<close> and
  \<open>time\<close> packages the program calls, and the generic list lemmas the components share.
  A Go string is a HOL \<open>string\<close>, that is a list of bytes: \<open>length\<close> is Go's \<open>len\<close>.
  Letter case, white space and letter classes are those of ASCII; a byte from 128 upwards (part
  of a longer UTF-8 sequence) is neither a space nor a letter and has no other case.
  A \<open>time.Duration\<close> and a \<open>time.Time\<close> are nanoseconds in \<open>int\<close>; where Go's 64-bit
  arithmetic can wrap, \<open>wrap64\<close> is written out.
\<close>

section \<open>Collections of facts\<close>

named_theorems tx_simps \<open>evaluation of transactions and of single driver calls\<close>
named_theorems go_simps \<open>characteristic equations of the string functions\<close>

type_synonym cid = string
type_synonym nanos = int

section \<open>Bytes\<close>

definition char_in :: "char \<Rightarrow> char \<Rightarrow> char \<Rightarrow> bool" where
  "char_in lo hi c \<longleftrightarrow> (of_char lo :: nat) \<le> of_char c \<and> (of_char c :: nat) \<le> of_char hi"

definition is_space :: "char \<Rightarrow> bool" where
  "is_space c \<longleftrightarrow> of_char c \<in> {9, 10, 11, 12, 13, 32 :: nat}"

definition is_upper :: "char \<Rightarrow> bool" where
  "is_upper c = char_in (CHR ''A'') (CHR ''Z'') c"

definition is_lower :: "char \<Rightarrow> bool" where
  "is_lower c = char_in (CHR ''a'') (CHR ''z'') c"

definition is_digit :: "char \<Rightarrow> bool" where
  "is_digit c = char_in (CHR ''0'') (CHR ''9'') c"

definition is_alnum :: "char \<Rightarrow> bool" where
  "is_alnum c \<longleftrightarrow> is_digit c \<or> is_upper c \<or> is_lower c"

definition lower_char :: "char \<Rightarrow> char" where
  "lower_char c = (if is_upper c then char_of (of_char c + 32 :: nat) else c)"

section \<open>Package strings\<close>

definition to_lower :: "string \<Rightarrow> string" where
  "to_lower s = map lower_char s"

definition trim_left_by :: "(char \<Rightarrow> bool) \<Rightarrow> string \<Rightarrow> string" where
  "trim_left_by P s = dropWhile P s"

definition trim_right_by :: "(char \<Rightarrow> bool) \<Rightarrow> string \<Rightarrow> string" where
  "trim_right_by P s = rev (dropWhile P (rev s))"

definition trim_by :: "(char \<Rightarrow> bool) \<Rightarrow> string \<Rightarrow> string" where
  "trim_by P s = trim_right_by P (trim_left_by P s)"

definition trim_space :: "string \<Rightarrow> string" where
  "trim_space s = trim_by is_space s"

definition trim_prefix :: "string \<Rightarrow> string \<Rightarrow> string" where
  "trim_prefix s p = (if prefix p s then drop (length p) s else s)"

definition trim_suffix :: "string \<Rightarrow> string \<Rightarrow> string" where
  "trim_suffix s p = (if suffix p s then take (length s - length p) s else s)"

fun contains :: "string \<Rightarrow> string \<Rightarrow> bool" where
  "contains [] t \<longleftrightarrow> t = []"
| "contains (c # s) t \<longleftrightarrow> prefix t (c # s) \<or> contains s t"

fun index_byte :: "string \<Rightarrow> char \<Rightarrow> nat option" where
  "index_byte [] b = None"
| "index_byte (c # s) b = (if c = b then Some 0 else map_option Suc (index_byte s b))"

definition last_index_byte :: "string \<Rightarrow> char \<Rightarrow> nat option" where
  "last_index_byte s b = map_option (\<lambda>i. length s - 1 - i) (index_byte (rev s) b)"

function (sequential) str_fields :: "string \<Rightarrow> string list" where
  "str_fields [] = []"
| "str_fields (c # s) = (if is_space c then str_fields s
     else (c # takeWhile (\<lambda>x. \<not> is_space x) s) # str_fields (dropWhile (\<lambda>x. \<not> is_space x) s))"
  by pat_completeness auto
termination
  by (relation "measure length") (auto simp: le_imp_less_Suc length_dropWhile_le)

fun join :: "string \<Rightarrow> string list \<Rightarrow> string" where
  "join sep [] = []"
| "join sep [x] = x"
| "join sep (x # xs) = x @ sep @ join sep xs"

fun split_byte :: "char \<Rightarrow> string \<Rightarrow> string list" where
  "split_byte b [] = [[]]"
| "split_byte b (c # s) = (if c = b then [] # split_byte b s
     else (case split_byte b s of [] \<Rightarrow> [[c]] | w # ws \<Rightarrow> (c # w) # ws))"

definition equal_fold :: "string \<Rightarrow> string \<Rightarrow> bool" where
  "equal_fold s t \<longleftrightarrow> to_lower s = to_lower t"

section \<open>Package strconv and 64-bit integers\<close>

definition low_hex :: "nat \<Rightarrow> char" where
  "low_hex n = char_of (if n < 10 then 48 + n else 87 + n)"

definition wrap64 :: "int \<Rightarrow> int" where
  "wrap64 x = signed_take_bit 63 x"

definition digit_val :: "char \<Rightarrow> int" where
  "digit_val c = of_char c - 48"

definition digits_val :: "string \<Rightarrow> int" where
  "digits_val s = foldl (\<lambda>v c. 10 * v + digit_val c) 0 s"

definition atoi :: "string \<Rightarrow> int option" where
  "atoi s = (let neg = (case s of [] \<Rightarrow> False | c # _ \<Rightarrow> c = CHR ''-'');
                 ds = (case s of [] \<Rightarrow> [] | c # r \<Rightarrow> if c = CHR ''-'' \<or> c = CHR ''+'' then r else s);
                 v = (if neg then - digits_val ds else digits_val ds)
             in if ds = [] \<or> \<not> list_all is_digit ds then None
                else if v < - (2 ^ 63) \<or> 2 ^ 63 \<le> v then None else Some v)"

section \<open>Lemmas on strings\<close>

lemma to_lower_simps [go_simps, simp]:
  "to_lower [] = []" "to_lower (c # s) = lower_char c # to_lower s"
  "to_lower (s @ t) = to_lower s @ to_lower t" "to_lower s = [] \<longleftrightarrow> s = []"
  "length (to_lower s) = length s"
  by (simp_all add: to_lower_def)

lemma lower_char_not_upper: "\<not> is_upper (lower_char c)"
  by (auto simp: lower_char_def is_upper_def char_in_def)

lemma lower_char_idem [simp]: "lower_char (lower_char c) = lower_char c"
  using lower_char_not_upper [of c] by (simp add: lower_char_def [of "lower_char c"])

lemma to_lower_idem [simp]: "to_lower (to_lower s) = to_lower s"
  by (simp add: to_lower_def)

lemma is_space_lower_char [simp]: "is_space (lower_char c) \<longleftrightarrow> is_space c"
  by (auto simp: lower_char_def is_upper_def char_in_def is_space_def)

lemma dropWhile_idem [simp]: "dropWhile P (dropWhile P xs) = dropWhile P xs"
  by (induction xs) auto

lemma rev_dropWhile_rev_suffix: "\<exists>t. xs = rev (dropWhile P (rev xs)) @ t \<and> (\<forall>x \<in> set t. P x)"
proof -
  have "rev xs = takeWhile P (rev xs) @ dropWhile P (rev xs)" by simp
  then have "xs = rev (dropWhile P (rev xs)) @ rev (takeWhile P (rev xs))"
    by (metis rev_append rev_rev_ident)
  then show ?thesis by (metis set_rev set_takeWhileD)
qed

lemma dropWhile_hd_false: "xs = [] \<or> \<not> P (hd xs) \<Longrightarrow> dropWhile P xs = xs"
  by (cases xs) auto

lemma hd_dropWhile_false: "dropWhile P xs \<noteq> [] \<Longrightarrow> \<not> P (hd (dropWhile P xs))"
  by (rule hd_dropWhile)

lemma trim_by_idem [simp]: "trim_by P (trim_by P s) = trim_by P s"
proof -
  let ?l = "dropWhile P s"
  let ?r = "rev (dropWhile P (rev ?l))"
  obtain t where t: "?l = ?r @ t" using rev_dropWhile_rev_suffix [of ?l P] by auto
  have "?r = [] \<or> \<not> P (hd ?r)"
  proof (cases "?r = []")
    case False
    then have "hd ?l = hd ?r" using t by (metis hd_append2)
    moreover from False t have "?l \<noteq> []" by (metis Nil_is_append_conv)
    ultimately show ?thesis using hd_dropWhile [of P s] by simp
  qed simp
  then have "dropWhile P ?r = ?r" by (rule dropWhile_hd_false)
  then show ?thesis by (simp add: trim_by_def trim_left_by_def trim_right_by_def)
qed

lemma trim_space_idem [simp]: "trim_space (trim_space s) = trim_space s"
  by (simp add: trim_space_def)

lemma trim_space_Nil [simp]: "trim_space [] = []"
  by (simp add: trim_space_def trim_by_def trim_left_by_def trim_right_by_def)

lemma contains_iff: "contains s t \<longleftrightarrow> (\<exists>u v. s = u @ t @ v)"
proof (induction s)
  case Nil
  then show ?case by auto
next
  case (Cons c s)
  show ?case
  proof
    assume "contains (c # s) t"
    then consider "prefix t (c # s)" | "contains s t" by auto
    then show "\<exists>u v. c # s = u @ t @ v"
    proof cases
      case 1
      then obtain v where "c # s = [] @ t @ v" by (auto simp: prefix_def)
      then show ?thesis by blast
    next
      case 2
      then obtain u v where "s = u @ t @ v" using Cons.IH by auto
      then have "c # s = (c # u) @ t @ v" by simp
      then show ?thesis by blast
    qed
  next
    assume "\<exists>u v. c # s = u @ t @ v"
    then obtain u v where uv: "c # s = u @ t @ v" by auto
    show "contains (c # s) t"
    proof (cases u)
      case Nil
      with uv have "prefix t (c # s)" by (simp add: prefix_def)
      then show ?thesis by simp
    next
      case (Cons d u')
      with uv have "s = u' @ t @ v" by simp
      then show ?thesis using Cons.IH by auto
    qed
  qed
qed

lemma contains_set: "contains s t \<Longrightarrow> set t \<subseteq> set s"
  by (auto simp: contains_iff)

lemma index_byte_Some: "index_byte s b = Some i \<Longrightarrow> i < length s \<and> s ! i = b \<and> b \<notin> set (take i s)"
  by (induction s arbitrary: i) (auto split: if_splits)

lemma index_byte_None: "index_byte s b = None \<longleftrightarrow> b \<notin> set s"
  by (induction s) (auto split: if_splits)

lemma fields_nonempty: "w \<in> set (str_fields s) \<Longrightarrow> w \<noteq> []"
  by (induction s rule: str_fields.induct) (auto split: if_splits)

lemma fields_no_space: "w \<in> set (str_fields s) \<Longrightarrow> c \<in> set w \<Longrightarrow> \<not> is_space c"
  by (induction s rule: str_fields.induct) (auto split: if_splits dest: set_takeWhileD)

lemma wrap64_id: "- (2 ^ 63) \<le> x \<Longrightarrow> x < 2 ^ 63 \<Longrightarrow> wrap64 x = x"
  by (simp add: wrap64_def signed_take_bit_int_eq_self)

section \<open>Lemmas on lists\<close>

lemma distinct_map_filter: "distinct (map f xs) \<Longrightarrow> distinct (map f (filter P xs))"
  by (induction xs) auto

lemma filter_eq_length_zero: "length (filter P xs) = 0 \<longleftrightarrow> (\<forall>x \<in> set xs. \<not> P x)"
  by (simp add: filter_empty_conv)

end
