(* ===== verification/Tables.thy ===== *)
theory Tables
  imports Prelude
begin

text \<open>
  The fragment of SQL the program's statements use, over a table as the list of its rows in
  rowid order: selection, deletion, update, \<open>INSERT\<close>, \<open>INSERT OR IGNORE\<close>,
  \<open>INSERT OR REPLACE\<close>, \<open>ON CONFLICT DO UPDATE\<close>, \<open>ORDER BY ... DESC\<close>,
  \<open>LIMIT/OFFSET\<close> and the \<open>LIKE\<close> operator. The locale \<open>pk_table\<close> states what a table
  with a primary key promises its clients; every table of the schema interprets it.
  A query without \<open>ORDER BY\<close> returns its rows in rowid order here; SQL leaves that order
  open, so no property of the development depends on it beyond the set of the rows.
\<close>

section \<open>Statements\<close>

definition sql_find :: "('r \<Rightarrow> 'k) \<Rightarrow> 'k \<Rightarrow> 'r list \<Rightarrow> 'r option" where
  "sql_find key k t = find (\<lambda>r. key r = k) t"

definition sql_exists :: "('r \<Rightarrow> 'k) \<Rightarrow> 'k \<Rightarrow> 'r list \<Rightarrow> bool" where
  "sql_exists key k t = list_ex (\<lambda>r. key r = k) t"

definition sql_delete :: "('r \<Rightarrow> bool) \<Rightarrow> 'r list \<Rightarrow> 'r list" where
  "sql_delete P t = filter (\<lambda>r. \<not> P r) t"

definition sql_update :: "('r \<Rightarrow> bool) \<Rightarrow> ('r \<Rightarrow> 'r) \<Rightarrow> 'r list \<Rightarrow> 'r list" where
  "sql_update P f t = map (\<lambda>r. if P r then f r else r) t"

definition sql_insert :: "('r \<Rightarrow> 'k) \<Rightarrow> 'r \<Rightarrow> 'r list \<Rightarrow> 'r list option" where
  "sql_insert key r t = (if sql_exists key (key r) t then None else Some (t @ [r]))"

definition sql_insert_ignore :: "('r \<Rightarrow> 'k) \<Rightarrow> 'r \<Rightarrow> 'r list \<Rightarrow> 'r list" where
  "sql_insert_ignore key r t = (if sql_exists key (key r) t then t else t @ [r])"

definition sql_replace :: "('r \<Rightarrow> 'k) \<Rightarrow> 'r \<Rightarrow> 'r list \<Rightarrow> 'r list" where
  "sql_replace key r t = filter (\<lambda>x. key x \<noteq> key r) t @ [r]"

definition sql_upsert :: "('r \<Rightarrow> 'k) \<Rightarrow> ('r \<Rightarrow> 'r \<Rightarrow> 'r) \<Rightarrow> 'r \<Rightarrow> 'r list \<Rightarrow> 'r list" where
  "sql_upsert key upd r t =
     (if sql_exists key (key r) t
      then map (\<lambda>old. if key old = key r then upd old r else old) t
      else t @ [r])"

definition order_desc :: "('r \<Rightarrow> int) \<Rightarrow> 'r list \<Rightarrow> 'r list" where
  "order_desc f t = sort_key (\<lambda>r. - f r) t"

text \<open>A negative \<open>LIMIT\<close> is no limit; a negative \<open>OFFSET\<close> counts as 0.\<close>

definition sql_limit :: "int \<Rightarrow> int \<Rightarrow> 'r list \<Rightarrow> 'r list" where
  "sql_limit lim off t =
     (let rest = drop (nat off) t in if lim < 0 then rest else take (nat lim) rest)"

text \<open>
  \<open>x LIKE p\<close>: \<open>%\<close> stands for any run of characters, \<open>_\<close> for one character, and letters
  compare without regard to ASCII case.
\<close>

fun like :: "string \<Rightarrow> string \<Rightarrow> bool" where
  "like [] [] = True"
| "like [] (x # xs) = False"
| "like (p # ps) [] = (p = CHR ''%'' \<and> like ps [])"
| "like (p # ps) (x # xs) =
     (if p = CHR ''%'' then like ps (x # xs) \<or> like (p # ps) xs
      else (p = CHR ''_'' \<or> lower_char p = lower_char x) \<and> like ps xs)"

section \<open>Elementary facts\<close>

lemma sql_exists_iff [simp]: "sql_exists key k t \<longleftrightarrow> k \<in> key ` set t"
  by (auto simp: sql_exists_def list_ex_iff)

lemma sql_find_None [simp]: "sql_find key k t = None \<longleftrightarrow> k \<notin> key ` set t"
  by (auto simp: sql_find_def find_None_iff)

lemma sql_find_notin [simp]: "k \<notin> key ` set t \<Longrightarrow> sql_find key k t = None"
  by simp

lemma sql_find_SomeD: "sql_find key k t = Some r \<Longrightarrow> r \<in> set t \<and> key r = k"
  by (auto simp: sql_find_def find_Some_iff)

lemma sql_find_append:
  "sql_find key k (xs @ ys) =
     (case sql_find key k xs of None \<Rightarrow> sql_find key k ys | Some r \<Rightarrow> Some r)"
  by (induction xs) (auto simp: sql_find_def)

lemma sql_find_Cons [simp]:
  "sql_find key k (r # t) = (if key r = k then Some r else sql_find key k t)"
  by (simp add: sql_find_def)

lemma sql_find_Nil [simp]: "sql_find key k [] = None"
  by (simp add: sql_find_def)

lemma sql_find_unique:
  "distinct (map key t) \<Longrightarrow> r \<in> set t \<Longrightarrow> sql_find key (key r) t = Some r"
  by (induction t) force+

lemma sql_find_map_other:
  "(\<And>x. key (g x) = key x) \<Longrightarrow> sql_find key k (map g t) = map_option g (sql_find key k t)"
  by (induction t) auto

lemma filter_key:
  "distinct (map key t) \<Longrightarrow> filter (\<lambda>r. key r = k) t =
     (case sql_find key k t of None \<Rightarrow> [] | Some r \<Rightarrow> [r])"
proof (induction t)
  case (Cons x t)
  show ?case
  proof (cases "key x = k")
    case True
    with Cons.prems have "k \<notin> key ` set t" by auto
    with True Cons show ?thesis by simp
  qed (use Cons in simp)
qed simp

lemma concat_map_if: "concat (map (\<lambda>r. if P r then [f r] else []) xs) = map f (filter P xs)"
  by (induction xs) auto

lemma set_sql_delete [simp]: "set (sql_delete P t) = {r \<in> set t. \<not> P r}"
  by (auto simp: sql_delete_def)

lemma sql_delete_Nil [simp]: "sql_delete P [] = []"
  by (simp add: sql_delete_def)

lemma distinct_sql_delete [intro, simp]:
  "distinct (map key t) \<Longrightarrow> distinct (map key (sql_delete P t))"
  by (simp add: sql_delete_def distinct_map_filter)

lemma sql_delete_id: "\<forall>r \<in> set t. \<not> P r \<Longrightarrow> sql_delete P t = t"
  by (simp add: sql_delete_def)

lemma sql_find_delete_same [simp]: "sql_find key k (sql_delete (\<lambda>r. key r = k) t) = None"
  by auto

lemma sql_find_delete_other:
  "k' \<noteq> k \<Longrightarrow> sql_find key k' (sql_delete (\<lambda>r. key r = k) t) = sql_find key k' t"
  by (induction t) (auto simp: sql_delete_def)

lemma map_sql_update [simp]: "(\<And>r. key (f r) = key r) \<Longrightarrow> map key (sql_update P f t) = map key t"
  by (simp add: sql_update_def)

lemma set_sql_update: "set (sql_update P f t) = (\<lambda>r. if P r then f r else r) ` set t"
  by (simp add: sql_update_def)

lemma length_sql_update [simp]: "length (sql_update P f t) = length t"
  by (simp add: sql_update_def)

lemma sql_find_update:
  "(\<And>r. key (f r) = key r) \<Longrightarrow>
     sql_find key k (sql_update P f t)
       = map_option (\<lambda>r. if P r then f r else r) (sql_find key k t)"
  by (simp add: sql_update_def sql_find_map_other)

lemma set_order_desc [simp]: "set (order_desc f t) = set t"
  by (simp add: order_desc_def)

lemma length_order_desc [simp]: "length (order_desc f t) = length t"
  by (simp add: order_desc_def)

lemma order_desc_sorted: "sorted_wrt (\<lambda>a b. f a \<ge> f b) (order_desc f t)"
proof -
  have "sorted (map (\<lambda>r. - f r) (order_desc f t))" by (simp add: order_desc_def)
  then show ?thesis by (simp add: sorted_map)
qed

lemma length_sql_limit:
  "0 \<le> lim \<Longrightarrow> length (sql_limit lim off t) = min (nat lim) (length t - nat off)"
  by (simp add: sql_limit_def)

lemma sql_limit_all [simp]: "sql_limit (- 1) 0 t = t"
  by (simp add: sql_limit_def)

lemma set_sql_limit: "set (sql_limit lim off t) \<subseteq> set t"
  by (auto simp: sql_limit_def Let_def dest: in_set_takeD in_set_dropD split: if_splits)

lemma like_percent: "like [CHR ''%''] s"
  by (induction s) auto

lemma like_append:
  "\<forall>c \<in> set p. c \<noteq> CHR ''%'' \<Longrightarrow> like (p @ [CHR ''%'']) s
     \<longleftrightarrow> length p \<le> length s \<and> like p (take (length p) s)"
proof (induction p arbitrary: s)
  case Nil
  then show ?case by (simp add: like_percent)
next
  case (Cons c p)
  then show ?case by (cases s) auto
qed

lemma like_any_prefix:
  "like (CHR ''%'' # p) s \<longleftrightarrow> (\<exists>u v. s = u @ v \<and> like p v)"
proof (induction s)
  case Nil
  then show ?case by simp
next
  case (Cons x xs)
  have "(\<exists>u v. x # xs = u @ v \<and> like p v) \<longleftrightarrow> like p (x # xs) \<or> (\<exists>u v. xs = u @ v \<and> like p v)"
    by (auto simp: Cons_eq_append_conv)
  then show ?case using Cons.IH by simp
qed

text \<open>A pattern without wildcards matches exactly the strings equal to it up to case.\<close>

lemma like_literal:
  "\<forall>c \<in> set p. c \<noteq> CHR ''%'' \<and> c \<noteq> CHR ''_'' \<Longrightarrow> like p s \<longleftrightarrow> to_lower p = to_lower s"
  by (induction p s rule: like.induct) auto

text \<open>\<open>LIKE '%lit%'\<close> is the substring test, up to case, when \<open>lit\<close> holds no wildcard.\<close>

lemma like_contains:
  assumes p: "\<forall>c \<in> set p. c \<noteq> CHR ''%'' \<and> c \<noteq> CHR ''_''"
  shows "like (CHR ''%'' # p @ [CHR ''%'']) s \<longleftrightarrow> contains (to_lower s) (to_lower p)"
proof -
  have 1: "like (p @ [CHR ''%'']) v \<longleftrightarrow> (\<exists>w z. v = w @ z \<and> to_lower p = to_lower w)" for v
  proof -
    have "like (p @ [CHR ''%'']) v
        \<longleftrightarrow> length p \<le> length v \<and> to_lower p = to_lower (take (length p) v)"
      using p by (subst like_append) (auto simp: like_literal)
    also have "\<dots> \<longleftrightarrow> (\<exists>w z. v = w @ z \<and> to_lower p = to_lower w)"
      by (metis append_eq_conv_conj append_take_drop_id length_append le_add1 to_lower_simps(5))
    finally show ?thesis .
  qed
  have "contains (to_lower s) (to_lower p)
      \<longleftrightarrow> (\<exists>u w z. s = u @ w @ z \<and> to_lower p = to_lower w)"
    unfolding contains_iff to_lower_def by (metis (no_types, lifting) map_append map_eq_append_conv)
  moreover have "like (CHR ''%'' # p @ [CHR ''%'']) s
      \<longleftrightarrow> (\<exists>u w z. s = u @ w @ z \<and> to_lower p = to_lower w)"
    unfolding like_any_prefix 1 by auto
  ultimately show ?thesis by (simp only:)
qed

section \<open>Tables with a primary key\<close>

text \<open>
  \<open>upd old new\<close> is the row \<open>ON CONFLICT(key) DO UPDATE SET ...\<close> leaves behind, \<open>old\<close>
  being the stored row and \<open>new\<close> the one \<open>excluded\<close> names. The law is that a conflict
  never changes the key.
\<close>

locale pk_table =
  fixes key :: "'r \<Rightarrow> 'k"
    and upd :: "'r \<Rightarrow> 'r \<Rightarrow> 'r"
  assumes upd_key: "key (upd old new) = key old"
begin

lemma upsert_keys:
  "map key (sql_upsert key upd r t) =
     (if key r \<in> key ` set t then map key t else map key t @ [key r])"
  by (auto simp: sql_upsert_def upd_key)

lemma upsert_distinct: "distinct (map key t) \<Longrightarrow> distinct (map key (sql_upsert key upd r t))"
  by (subst upsert_keys) auto

lemma upsert_key_set: "key ` set (sql_upsert key upd r t) = insert (key r) (key ` set t)"
proof -
  have "set (map key (sql_upsert key upd r t)) = insert (key r) (set (map key t))"
    by (subst upsert_keys) auto
  then show ?thesis by simp
qed

lemma find_upsert_same:
  "sql_find key (key r) (sql_upsert key upd r t)
     = Some (case sql_find key (key r) t of None \<Rightarrow> r | Some old \<Rightarrow> upd old r)"
proof (cases "key r \<in> key ` set t")
  case True
  then have "sql_find key (key r) (map (\<lambda>old. if key old = key r then upd old r else old) t)
      = map_option (\<lambda>old. if key old = key r then upd old r else old) (sql_find key (key r) t)"
    by (intro sql_find_map_other) (simp add: upd_key)
  moreover from True obtain old where old: "sql_find key (key r) t = Some old"
    by (cases "sql_find key (key r) t") auto
  moreover from old have "key old = key r" by (auto dest: sql_find_SomeD)
  ultimately show ?thesis using True by (simp add: sql_upsert_def)
next
  case False
  then have "sql_find key (key r) t = None" by simp
  then show ?thesis using False by (simp add: sql_upsert_def sql_find_append del: sql_find_None)
qed

lemma find_upsert_other:
  assumes "k \<noteq> key r"
  shows "sql_find key k (sql_upsert key upd r t) = sql_find key k t"
proof -
  have "sql_find key k (map (\<lambda>old. if key old = key r then upd old r else old) t)
      = sql_find key k t"
    using assms by (induction t) (auto simp: upd_key)
  moreover have "sql_find key k (t @ [r]) = sql_find key k t"
    using assms by (induction t) auto
  ultimately show ?thesis by (simp add: sql_upsert_def)
qed

lemma upsert_rows:
  "x \<in> set (sql_upsert key upd r t) \<Longrightarrow>
     x = r \<or> x \<in> set t \<or> (\<exists>old \<in> set t. key old = key r \<and> x = upd old r)"
  by (auto simp: sql_upsert_def split: if_splits)

text \<open>The rows after an upsert, for a table whose key is unique.\<close>

lemma upsert_set:
  assumes d: "distinct (map key t)"
  shows "set (sql_upsert key upd r t) = {x \<in> set t. key x \<noteq> key r} \<union>
    {case sql_find key (key r) t of None \<Rightarrow> r | Some old \<Rightarrow> upd old r}"
proof (cases "sql_find key (key r) t")
  case None
  then have "key r \<notin> key ` set t" by simp
  then have "\<forall>x \<in> set t. key x \<noteq> key r" by (metis imageI)
  then have "{x \<in> set t. key x \<noteq> key r} = set t" "\<not> sql_exists key (key r) t" by auto
  then show ?thesis using None by (simp add: sql_upsert_def del: sql_find_None sql_exists_iff)
next
  case (Some old)
  then have old: "old \<in> set t" "key old = key r" by (auto dest: sql_find_SomeD)
  have "x = old" if "x \<in> set t" "key x = key r" for x
    using that old d by (metis distinct_map inj_onD)
  then have t: "set t = insert old {x \<in> set t. key x \<noteq> key r}" using old by blast
  let ?g = "\<lambda>x. if key x = key r then upd x r else x"
  have "?g ` set t = insert (upd old r) (?g ` {x \<in> set t. key x \<noteq> key r})"
    using old(2) by (subst t, subst image_insert) (simp only: if_True refl)
  also have "?g ` {x \<in> set t. key x \<noteq> key r} = {x \<in> set t. key x \<noteq> key r}"
    by (force simp: image_def)
  finally have "?g ` set t = insert (upd old r) {x \<in> set t. key x \<noteq> key r}" .
  moreover have "key r \<in> key ` set t" using old by (metis imageI)
  ultimately show ?thesis using Some by (simp add: sql_upsert_def)
qed

lemma replace_distinct: "distinct (map key t) \<Longrightarrow> distinct (map key (sql_replace key r t))"
  by (auto simp: sql_replace_def distinct_map_filter)

lemma insert_ignore_distinct:
  "distinct (map key t) \<Longrightarrow> distinct (map key (sql_insert_ignore key r t))"
  by (auto simp: sql_insert_ignore_def)

lemma insert_distinct:
  "sql_insert key r t = Some t' \<Longrightarrow> distinct (map key t) \<Longrightarrow> distinct (map key t')"
  by (auto simp: sql_insert_def split: if_splits)

end

end
