(* ===== verification/Store_Schema.thy ===== *)
theory Store_Schema
  imports Tables "HOL-Library.Multiset"
begin

text \<open>
  \<open>src/store.go\<close>: the row types of the SQLite schema (\<open>initSchema\<close>), the \<open>Store\<close>
  record, the transaction wrapper \<open>write\<close> and the pure helpers of the file.
  Every call into the database driver (begin, statement, query, commit) may fail: \<open>drv\<close>
  holds the outcomes of the calls to come, \<open>True\<close> for an error, the empty list meaning that
  no further call fails. The two JSON columns hold the value they encode.
\<close>

section \<open>Rows\<close>

type_synonym go_time = "nanos option"  \<comment> \<open>\<open>None\<close> is the zero \<open>time.Time\<close>\<close>

record index_entry =
  e_cid :: cid
  e_title :: string
  e_broad :: string
  e_sub :: string
  e_keywords :: "string list"
  e_at :: go_time
  e_archives :: "cid list"

record field_count =
  fc_field :: string
  fc_count :: int

record archive_ref =
  ref_cid :: cid
  ref_name :: string
  ref_status :: string

datatype arch_status = Queued | Crawling | Indexing | Done | Failed

record archive =
  a_cid :: cid
  a_name :: string
  a_owner :: string
  a_status :: arch_status
  a_docs :: "cid list"
  a_count :: int
  a_indexed :: int
  a_failed :: int
  a_top :: "string list"
  a_fields :: "field_count list"
  a_error :: string
  a_submitted :: go_time
  a_at :: go_time

record failed_doc =
  fd_cid :: cid
  fd_count :: int
  fd_reason :: string
  fd_last :: go_time

datatype sub_kind = SubDocument | SubArchive

record submission =
  sb_cid :: cid
  sb_kind :: sub_kind
  sb_owner :: string
  sb_at :: go_time

record recent_search =
  rs_keyword :: string
  rs_count :: int
  rs_time :: int

record suggestion =
  sg_keyword :: string
  sg_count :: int

record store_stats =
  st_indexed :: int
  st_pending :: int
  st_failed :: int
  st_skipped :: int
  st_keywords :: int
  st_archives :: int
  st_queued :: int
  st_enabled :: bool
  st_indexing :: bool

definition maxRetries :: int where "maxRetries = 3"
definition maxRecentItems :: nat where "maxRecentItems = 30"

definition status_name :: "arch_status \<Rightarrow> string" where
  "status_name s = (case s of Queued \<Rightarrow> ''queued'' | Crawling \<Rightarrow> ''crawling''
     | Indexing \<Rightarrow> ''indexing'' | Done \<Rightarrow> ''done'' | Failed \<Rightarrow> ''failed'')"

definition kind_name :: "sub_kind \<Rightarrow> string" where
  "kind_name k = (case k of SubDocument \<Rightarrow> ''document'' | SubArchive \<Rightarrow> ''archive'')"

text \<open>The tables of \<open>initSchema\<close>; \<open>documents\<close> has SQLite's implicit rowid.\<close>

record doc_row =
  d_rowid :: nat
  d_cid :: cid
  d_title :: string
  d_broad :: string
  d_sub :: string
  d_keywords :: "string list"
  d_at :: int

record fts_row =
  x_rowid :: nat
  x_cid :: cid
  x_title :: string
  x_broad :: string
  x_sub :: string
  x_keywords :: string

type_synonym label_row = "string \<times> cid"

record arch_row =
  r_cid :: cid
  r_name :: string
  r_owner :: string
  r_status :: arch_status
  r_count :: int
  r_indexed :: int
  r_failed :: int
  r_top :: "string list"
  r_fields :: "field_count list"
  r_error :: string
  r_submitted :: int
  r_at :: int

record member_row =
  m_arch :: cid
  m_doc :: cid
  m_pos :: int

record fail_row =
  f_cid :: cid
  f_count :: int
  f_last :: int
  f_reason :: string

record sub_row =
  s_cid :: cid
  s_kind :: sub_kind
  s_owner :: string
  s_at :: int

type_synonym deny_row = "cid \<times> int"
type_synonym setting_row = "string \<times> string"

record database =
  documents :: "doc_row list"
  documents_fts :: "fts_row list"
  labels :: "label_row list"
  archives :: "arch_row list"
  archive_docs :: "member_row list"
  failures :: "fail_row list"
  submissions :: "sub_row list"
  denylist :: "deny_row list"
  settings :: "setting_row list"

definition empty_db :: database where
  "empty_db = \<lparr>documents = [], documents_fts = [], labels = [], archives = [], archive_docs = [],
     failures = [], submissions = [], denylist = [], settings = []\<rparr>"

abbreviation m_key :: "member_row \<Rightarrow> cid \<times> cid" where
  "m_key r \<equiv> (m_arch r, m_doc r)"

record store =
  db :: database
  drv :: "bool list"  \<comment> \<open>outcomes of the driver calls to come\<close>
  recent :: "recent_search list"
  skipped :: int
  pending :: int
  review_enabled :: bool

section \<open>Driver calls and transactions\<close>

datatype sql_error = DriverError | ConstraintError | NoRows

type_synonym 'a tx = "database \<times> bool list \<Rightarrow> (sql_error + 'a) \<times> (database \<times> bool list)"

fun next_call :: "bool list \<Rightarrow> bool \<times> bool list" where
  "next_call [] = (False, [])"
| "next_call (b # bs) = (b, bs)"

definition tx_return :: "'a \<Rightarrow> 'a tx" where
  "tx_return a st = (Inr a, st)"

definition tx_fail :: "sql_error \<Rightarrow> 'a tx" where
  "tx_fail e st = (Inl e, st)"

definition tx_bind :: "'a tx \<Rightarrow> ('a \<Rightarrow> 'b tx) \<Rightarrow> 'b tx" where
  "tx_bind m k st = (case m st of (Inl e, st') \<Rightarrow> (Inl e, st') | (Inr a, st') \<Rightarrow> k a st')"

definition tx_then :: "'a tx \<Rightarrow> 'b tx \<Rightarrow> 'b tx" where
  "tx_then m n = tx_bind m (\<lambda>_. n)"

text \<open>A statement without a constraint it could violate, one with, and one whose number of
  affected rows is read.\<close>

definition tx_exec :: "(database \<Rightarrow> database) \<Rightarrow> unit tx" where
  "tx_exec f st = (let (b, fl) = next_call (snd st) in
     if b then (Inl DriverError, (fst st, fl)) else (Inr (), (f (fst st), fl)))"

definition tx_exec_checked :: "(database \<Rightarrow> database option) \<Rightarrow> unit tx" where
  "tx_exec_checked f st = (let (b, fl) = next_call (snd st) in
     if b then (Inl DriverError, (fst st, fl))
     else (case f (fst st) of None \<Rightarrow> (Inl ConstraintError, (fst st, fl))
           | Some d \<Rightarrow> (Inr (), (d, fl))))"

definition tx_exec_count :: "(database \<Rightarrow> database \<times> nat) \<Rightarrow> nat tx" where
  "tx_exec_count f st = (let (b, fl) = next_call (snd st) in
     if b then (Inl DriverError, (fst st, fl))
     else (Inr (snd (f (fst st))), (fst (f (fst st)), fl)))"

text \<open>A query whose error is returned, and one whose error is ignored, so that the scanned
  variable keeps its zero value.\<close>

definition tx_query :: "(database \<Rightarrow> 'a) \<Rightarrow> 'a tx" where
  "tx_query q st = (let (b, fl) = next_call (snd st) in
     if b then (Inl DriverError, (fst st, fl)) else (Inr (q (fst st)), (fst st, fl)))"

definition tx_scan :: "'a \<Rightarrow> (database \<Rightarrow> 'a) \<Rightarrow> 'a tx" where
  "tx_scan zero q st = (let (b, fl) = next_call (snd st) in
     (Inr (if b then zero else q (fst st)), (fst st, fl)))"

text \<open>\<open>QueryRow(...).Scan(...)\<close> with its error checked: no row is an error too.\<close>

definition tx_query_row :: "(database \<Rightarrow> 'a option) \<Rightarrow> 'a tx" where
  "tx_query_row q st = (let (b, fl) = next_call (snd st) in
     if b then (Inl DriverError, (fst st, fl))
     else (case q (fst st) of None \<Rightarrow> (Inl NoRows, (fst st, fl)) | Some a \<Rightarrow> (Inr a, (fst st, fl))))"

fun tx_foreach :: "('b \<Rightarrow> unit tx) \<Rightarrow> 'b list \<Rightarrow> unit tx" where
  "tx_foreach f [] = tx_return ()"
| "tx_foreach f (x # xs) = tx_then (f x) (tx_foreach f xs)"

text \<open>
  \<open>Store.write\<close>. The variables a transaction body assigns in the enclosing function are its
  result; when the commit fails they keep their values while the changes are lost.
\<close>

datatype 'a written = Committed 'a | CommitFailed 'a | BodyFailed sql_error | BeginFailed

definition store_write :: "'a tx \<Rightarrow> store \<Rightarrow> 'a written \<times> store" where
  "store_write body s = (let (b, fl) = next_call (drv s) in
     if b then (BeginFailed, s\<lparr>drv := fl\<rparr>)
     else (case body (db s, fl) of
         (Inl e, (_, fl')) \<Rightarrow> (BodyFailed e, s\<lparr>drv := snd (next_call fl')\<rparr>)
       | (Inr a, (d, fl')) \<Rightarrow> (let (b', fl'') = next_call fl' in
           if b' then (CommitFailed a, s\<lparr>drv := fl''\<rparr>)
           else (Committed a, s\<lparr>db := d, drv := fl''\<rparr>))))"

text \<open>A query outside a transaction: \<open>None\<close> when the driver reports an error.\<close>

definition db_query :: "(database \<Rightarrow> 'a) \<Rightarrow> store \<Rightarrow> 'a option \<times> store" where
  "db_query q s = (let (b, fl) = next_call (drv s) in
     (if b then None else Some (q (db s)), s\<lparr>drv := fl\<rparr>))"

definition db_scan :: "'a \<Rightarrow> (database \<Rightarrow> 'a) \<Rightarrow> store \<Rightarrow> 'a \<times> store" where
  "db_scan zero q s = (case db_query q s of (r, s') \<Rightarrow> (case r of None \<Rightarrow> zero | Some a \<Rightarrow> a, s'))"

text \<open>\<open>SaveAll\<close> checkpoints the log; its error is only logged.\<close>

definition SaveAll :: "store \<Rightarrow> store" where
  "SaveAll s = s\<lparr>drv := snd (next_call (drv s))\<rparr>"

lemma next_call_Nil [tx_simps]: "next_call [] = (False, [])"
  by simp

lemma tx_run [tx_simps]:
  "tx_exec f (d, []) = (Inr (), (f d, []))"
  "tx_exec_checked g (d, []) =
     (case g d of None \<Rightarrow> (Inl ConstraintError, (d, [])) | Some d' \<Rightarrow> (Inr (), (d', [])))"
  "tx_exec_count h (d, []) = (Inr (snd (h d)), (fst (h d), []))"
  "tx_query q (d, []) = (Inr (q d), (d, []))"
  "tx_scan z q (d, []) = (Inr (q d), (d, []))"
  "tx_query_row p (d, []) =
     (case p d of None \<Rightarrow> (Inl NoRows, (d, [])) | Some a \<Rightarrow> (Inr a, (d, [])))"
  by (simp_all add: tx_exec_def tx_exec_checked_def tx_exec_count_def tx_query_def tx_scan_def tx_query_row_def
      split: option.splits)

lemma tx_struct [tx_simps]:
  "tx_return a st = (Inr a, st)"
  "tx_fail e st = (Inl e, st)"
  "tx_bind m k st = (case m st of (Inl e, st') \<Rightarrow> (Inl e, st') | (Inr a, st') \<Rightarrow> k a st')"
  "tx_then m n st = (case m st of (Inl e, st') \<Rightarrow> (Inl e, st') | (Inr a, st') \<Rightarrow> n st')"
  by (simp_all add: tx_return_def tx_fail_def tx_bind_def tx_then_def split: prod.splits sum.splits)

text \<open>A loop of statements that cannot fail is a fold of their effects.\<close>

lemma tx_foreach_run [tx_simps]:
  "tx_foreach (\<lambda>x. tx_exec (f x)) xs (d, []) = (Inr (), (fold f xs d, []))"
  by (induction xs arbitrary: d) (simp_all add: tx_simps)

lemma store_drv_id [tx_simps]:
  "drv s = [] \<Longrightarrow> s\<lparr>drv := []\<rparr> = s"
  "drv s = [] \<Longrightarrow> s\<lparr>db := d, drv := []\<rparr> = s\<lparr>db := d\<rparr>"
  by (cases s; simp)+

lemma store_write_run [tx_simps]:
  assumes "drv s = []"
  shows "store_write body s = (case body (db s, []) of
     (Inl e, (_, fl)) \<Rightarrow> (BodyFailed e, s\<lparr>drv := snd (next_call fl)\<rparr>)
   | (Inr a, (d, fl)) \<Rightarrow> (if fst (next_call fl) then (CommitFailed a, s\<lparr>drv := snd (next_call fl)\<rparr>)
        else (Committed a, s\<lparr>db := d, drv := snd (next_call fl)\<rparr>)))"
  using assms by (simp add: store_write_def split: prod.splits sum.splits)

lemma db_query_run [tx_simps]:
  "drv s = [] \<Longrightarrow> db_query q s = (Some (q (db s)), s)"
  "drv s = [] \<Longrightarrow> db_scan z q s = (q (db s), s)"
  by (simp_all add: db_query_def db_scan_def)

lemma SaveAll_run [tx_simps]: "drv s = [] \<Longrightarrow> SaveAll s = s"
  by (simp add: SaveAll_def)

lemma SaveAll_db [simp]: "db (SaveAll s) = db s"
  by (simp add: SaveAll_def)

lemma db_query_db [simp]: "db (snd (db_query q s)) = db s" "db (snd (db_scan z q s)) = db s"
  by (simp_all add: db_query_def db_scan_def split: prod.splits)

text \<open>A read leaves everything but the driver's outcomes as it was.\<close>

lemma db_query_frame [simp]:
  "recent (snd (db_query q s)) = recent s" "skipped (snd (db_query q s)) = skipped s"
  "pending (snd (db_query q s)) = pending s"
  "review_enabled (snd (db_query q s)) = review_enabled s"
  by (simp_all add: db_query_def split: prod.splits)

lemma db_scan_frame [simp]:
  "recent (snd (db_scan z q s)) = recent s" "skipped (snd (db_scan z q s)) = skipped s"
  "pending (snd (db_scan z q s)) = pending s"
  "review_enabled (snd (db_scan z q s)) = review_enabled s"
  by (simp_all add: db_scan_def db_query_def split: prod.splits)

lemma store_write_frame [simp]:
  "recent (snd (store_write b s)) = recent s" "skipped (snd (store_write b s)) = skipped s"
  "pending (snd (store_write b s)) = pending s"
  "review_enabled (snd (store_write b s)) = review_enabled s"
  by (simp_all add: store_write_def Let_def split: prod.splits sum.splits)

section \<open>Atomicity of a transaction\<close>

text \<open>
  A body is strict when it succeeds under driver errors only with the effect and the result it
  has without them: every error it meets is returned. Bodies built from statements and checked
  queries are strict; a body that ignores the error of a query need not be.
\<close>

definition strict :: "'a tx \<Rightarrow> bool" where
  "strict m \<longleftrightarrow> (\<forall>d fl a d' fl'. m (d, fl) = (Inr a, (d', fl')) \<longrightarrow> m (d, []) = (Inr a, (d', [])))"

lemma strictI:
  "(\<And>d fl a d' fl'. m (d, fl) = (Inr a, (d', fl')) \<Longrightarrow> m (d, []) = (Inr a, (d', []))) \<Longrightarrow> strict m"
  by (auto simp: strict_def)

lemma strictD: "strict m \<Longrightarrow> m (d, fl) = (Inr a, (d', fl')) \<Longrightarrow> m (d, []) = (Inr a, (d', []))"
  unfolding strict_def by blast

lemma strict_return [intro]: "strict (tx_return a)"
  by (rule strictI) (auto simp: tx_return_def)

lemma strict_exec [intro]: "strict (tx_exec f)"
  by (rule strictI) (auto simp: tx_exec_def split: prod.splits if_splits)

lemma strict_exec_checked [intro]: "strict (tx_exec_checked f)"
  by (rule strictI) (auto simp: tx_exec_checked_def split: prod.splits if_splits option.splits)

lemma strict_exec_count [intro]: "strict (tx_exec_count f)"
  by (rule strictI) (auto simp: tx_exec_count_def split: prod.splits if_splits)

lemma strict_query [intro]: "strict (tx_query q)"
  by (rule strictI) (auto simp: tx_query_def split: prod.splits if_splits)

lemma strict_query_row [intro]: "strict (tx_query_row q)"
  by (rule strictI) (auto simp: tx_query_row_def split: prod.splits if_splits option.splits)

lemma strict_bind [intro]:
  assumes m: "strict m" and k: "\<And>a. strict (k a)"
  shows "strict (tx_bind m k)"
proof (rule strictI)
  fix d fl a d' fl'
  assume "tx_bind m k (d, fl) = (Inr a, (d', fl'))"
  then obtain b d1 fl1 where 1: "m (d, fl) = (Inr b, (d1, fl1))"
    and 2: "k b (d1, fl1) = (Inr a, (d', fl'))"
    by (auto simp: tx_bind_def split: prod.splits sum.splits)
  show "tx_bind m k (d, []) = (Inr a, (d', []))"
    using strictD [OF m 1] strictD [OF k 2] by (simp add: tx_bind_def)
qed

lemma strict_then [intro]: "strict m \<Longrightarrow> strict n \<Longrightarrow> strict (tx_then m n)"
  unfolding tx_then_def by (rule strict_bind)

lemma strict_foreach [intro]: "(\<And>x. strict (f x)) \<Longrightarrow> strict (tx_foreach f xs)"
  by (induction xs) auto

text \<open>All or nothing: whatever the driver does, the database is the old one or the one the
  transaction leaves without a fault.\<close>

lemma store_write_atomic:
  assumes "strict body"
  shows "db (snd (store_write body s)) = db s \<or>
    (\<exists>a d'. body (db s, []) = (Inr a, (d', [])) \<and> fst (store_write body s) = Committed a
       \<and> db (snd (store_write body s)) = d')"
proof -
  obtain b fl where b: "next_call (drv s) = (b, fl)" by fastforce
  obtain r d' fl' where r: "body (db s, fl) = (r, (d', fl'))" using prod_cases3 by blast
  show ?thesis
  proof (cases r)
    case (Inl e)
    then show ?thesis using b r by (simp add: store_write_def)
  next
    case (Inr a)
    with r assms have "body (db s, []) = (Inr a, (d', []))" by (metis strictD)
    then show ?thesis using b r Inr
      by (cases "next_call fl'") (simp add: store_write_def)
  qed
qed

lemma store_write_uncommitted:
  "\<forall>a. fst (store_write body s) \<noteq> Committed a \<Longrightarrow> db (snd (store_write body s)) = db s"
  by (auto simp: store_write_def Let_def split: prod.splits sum.splits if_splits)

section \<open>Times\<close>

definition nano :: "go_time \<Rightarrow> int" where
  "nano t = (case t of None \<Rightarrow> 0 | Some n \<Rightarrow> n)"

definition fromNano :: "int \<Rightarrow> go_time" where
  "fromNano n = (if n = 0 then None else Some n)"

lemma fromNano_nano: "t \<noteq> Some 0 \<Longrightarrow> fromNano (nano t) = t"
  by (auto simp: nano_def fromNano_def split: option.splits)

lemma nano_fromNano [simp]: "nano (fromNano n) = n"
  by (simp add: nano_def fromNano_def)

end
