(* ===== verification/Ranking.thy ===== *)
theory Ranking
  imports Store_Schema
begin

text \<open>
  The pure helpers of \<open>src/store.go\<close>: the FTS5 query builder \<open>ftsMatch\<close>, the
  placeholder list of an \<open>IN\<close> clause, and the frequency ranking behind an archive's top
  keywords and research fields. The lemmas say that the ranking does not depend on the order
  in which a Go map is traversed nor on the sorting algorithm.
\<close>

section \<open>Helpers of store.go\<close>

text \<open>
  \<open>ftsMatch\<close> reads the query word by word: what is no letter or digit is dropped from a word,
  and each word with something left becomes a prefix term.
\<close>

definition fts_term :: "string \<Rightarrow> string \<Rightarrow> string" where
  "fts_term b term = (let tok = filter is_alnum term in
     if tok = [] then b else (if b = [] then b else b @ '' '') @ tok @ ''*'')"

definition ftsMatch :: "string \<Rightarrow> string" where
  "ftsMatch query = foldl fts_term [] (str_fields query)"

definition placeholders :: "int \<Rightarrow> string" where
  "placeholders n = (if n \<le> 0 then [] else drop 1 (concat (replicate (nat n) '',?'')))"

text \<open>
  A Go \<open>map[string]int\<close> used as a counter is an association list; the order of the keys
  stands for the unspecified order in which \<open>range\<close> visits them.
\<close>

type_synonym counter = "(string \<times> int) list"

fun bump :: "string \<Rightarrow> counter \<Rightarrow> counter" where
  "bump k [] = [(k, 1)]"
| "bump k ((x, n) # m) = (if x = k then (x, n + 1) # m else (x, n) # bump k m)"

definition count_of :: "counter \<Rightarrow> string \<Rightarrow> int" where
  "count_of m k = (case map_of m k of None \<Rightarrow> 0 | Some n \<Rightarrow> n)"

definition ranks_before :: "counter \<Rightarrow> string \<Rightarrow> string \<Rightarrow> bool" where
  "ranks_before counts a b =
     (if count_of counts a \<noteq> count_of counts b then count_of counts a > count_of counts b
      else a < b)"

definition rank_key :: "counter \<Rightarrow> string \<Rightarrow> int \<times> string" where
  "rank_key counts k = (- count_of counts k, k)"

definition sortByCountThenKey :: "string list \<Rightarrow> counter \<Rightarrow> string list" where
  "sortByCountThenKey keys counts = sort_key (rank_key counts) keys"

definition topCounted :: "counter \<Rightarrow> nat \<Rightarrow> string list" where
  "topCounted counts n = (let keys = sortByCountThenKey (map fst counts) counts in
     if length keys > n then take n keys else keys)"

definition topFields :: "counter \<Rightarrow> field_count list" where
  "topFields counts = map (\<lambda>k. \<lparr>fc_field = k, fc_count = count_of counts k\<rparr>)
     (sortByCountThenKey (map fst counts) counts)"

section \<open>Counters\<close>

lemma map_of_bump: "map_of (bump k m) = (map_of m)(k \<mapsto> count_of m k + 1)"
  by (induction m) (auto simp: count_of_def fun_eq_iff split: option.splits)

lemma count_of_bump: "count_of (bump k m) x = count_of m x + (if x = k then 1 else 0)"
  by (simp add: count_of_def map_of_bump)

lemma keys_bump: "map fst (bump k m) = (if k \<in> fst ` set m then map fst m else map fst m @ [k])"
  by (induction m) (auto split: if_splits)

lemma distinct_bump: "distinct (map fst m) \<Longrightarrow> distinct (map fst (bump k m))"
  by (subst keys_bump) auto

lemma set_keys_bump: "fst ` set (bump k m) = insert k (fst ` set m)"
proof -
  have "set (map fst (bump k m)) = insert k (set (map fst m))" by (subst keys_bump) auto
  then show ?thesis by simp
qed

lemma count_of_fold_bump: "count_of (fold bump ks m) x = count_of m x + int (count_list ks x)"
  by (induction ks arbitrary: m) (auto simp: count_of_bump)

lemma keys_fold_bump:
  "fst ` set (fold bump ks m) = fst ` set m \<union> set ks"
  "distinct (map fst m) \<Longrightarrow> distinct (map fst (fold bump ks m))"
  by (induction ks arbitrary: m) (auto simp: set_keys_bump distinct_bump simp del: distinct_map)

lemma bump_all:
  "count_of (fold bump ks []) x = int (count_list ks x)"
  "set (map fst (fold bump ks [])) = set ks"
  "distinct (map fst (fold bump ks []))"
  using count_of_fold_bump [of ks "[]" x] keys_fold_bump [where ks = ks and m = "[]"]
  by (simp_all add: count_of_def)

section \<open>The ranking\<close>

lemma ranks_before_alt: "ranks_before c a b \<longleftrightarrow> rank_key c a < rank_key c b"
  by (auto simp: ranks_before_def rank_key_def)

lemma ranks_before_fun: "ranks_before c = (\<lambda>a b. rank_key c a < rank_key c b)"
  by (intro ext) (rule ranks_before_alt)

lemma inj_rank_key: "inj_on (rank_key c) A"
  by (auto simp: rank_key_def inj_on_def)

lemma ranks_before_trans: "ranks_before c x y \<Longrightarrow> ranks_before c y z \<Longrightarrow> ranks_before c x z"
  unfolding ranks_before_alt by (rule less_trans)

lemma ranks_before_total: "x \<noteq> y \<Longrightarrow> ranks_before c x y \<or> ranks_before c y x"
  unfolding ranks_before_alt by (metis inj_on_eq_iff inj_rank_key linorder_neqE UNIV_I)

lemma ranks_before_asym: "ranks_before c x y \<Longrightarrow> \<not> ranks_before c y x"
  unfolding ranks_before_alt by (rule less_not_sym)

lemma sortBCK_simps [simp]:
  "mset (sortByCountThenKey keys c) = mset keys"
  "set (sortByCountThenKey keys c) = set keys"
  "length (sortByCountThenKey keys c) = length keys"
  "distinct (sortByCountThenKey keys c) = distinct keys"
  by (simp_all add: sortByCountThenKey_def)

lemma sortBCK_sorted:
  assumes "distinct keys"
  shows "sorted_wrt (ranks_before c) (sortByCountThenKey keys c)"
proof -
  let ?zs = "sortByCountThenKey keys c"
  have "sorted (map (rank_key c) ?zs)" by (simp add: sortByCountThenKey_def)
  moreover have "distinct (map (rank_key c) ?zs)"
    using assms by (simp add: distinct_map inj_rank_key)
  ultimately have "sorted_wrt (<) (map (rank_key c) ?zs)" by (simp only: strict_sorted_iff)
  then show ?thesis by (simp add: sorted_wrt_map ranks_before_fun)
qed

text \<open>Any list of the same keys in ranking order is the result, whatever the algorithm.\<close>

lemma sortBCK_unique:
  assumes "mset zs = mset keys" and "sorted_wrt (ranks_before c) zs"
  shows "sortByCountThenKey keys c = zs"
proof -
  have "sorted_wrt (<) (map (rank_key c) zs)"
    using assms(2) by (simp add: sorted_wrt_map ranks_before_fun)
  then have "sorted (map (rank_key c) zs)" by (simp only: strict_sorted_iff)
  then show ?thesis unfolding sortByCountThenKey_def
    using assms(1) by (intro sort_key_inj_key_eq) (auto simp: inj_rank_key)
qed

lemma topCounted_alt: "topCounted m n = take n (sortByCountThenKey (map fst m) m)"
  by (simp add: topCounted_def Let_def)

lemma count_of_map_of: "map_of m = map_of m' \<Longrightarrow> count_of m = count_of m'"
  by (simp add: count_of_def fun_eq_iff)

lemma ranks_before_cong: "count_of m = count_of m' \<Longrightarrow> ranks_before m = ranks_before m'"
  by (simp add: ranks_before_def fun_eq_iff)

text \<open>Two traversals of the same map give the same ranking.\<close>

lemma sortBCK_perm:
  assumes "mset m = mset m'" and "distinct (map fst m)"
  shows "sortByCountThenKey (map fst m) m = sortByCountThenKey (map fst m') m'"
proof (rule sortBCK_unique)
  have d: "distinct (map fst m')"
    using assms by (metis mset_eq_imp_distinct_iff mset_map)
  have "set m = set m'" using assms(1) by (rule mset_eq_setD)
  with assms(2) d have "map_of m = map_of m'" by (simp add: map_of_inject_set)
  then have c: "ranks_before m = ranks_before m'"
    by (intro ranks_before_cong count_of_map_of)
  show "mset (sortByCountThenKey (map fst m') m') = mset (map fst m)"
    using assms(1) by simp
  show "sorted_wrt (ranks_before m) (sortByCountThenKey (map fst m') m')"
    unfolding c using d by (rule sortBCK_sorted)
qed

section \<open>Query terms\<close>

lemma ftsMatch_join:
  "ftsMatch q = join '' '' (map (\<lambda>t. t @ ''*'') (filter (\<lambda>t. t \<noteq> []) (map (filter is_alnum) (str_fields q))))"
proof -
  have snoc: "xs \<noteq> [] \<Longrightarrow> join sep (xs @ [y]) = join sep xs @ sep @ y" for sep y :: string and xs
    by (induction sep xs rule: join.induct) auto
  have ne: "join '' '' xs = [] \<longleftrightarrow> xs = []" if "\<forall>x \<in> set xs. x \<noteq> []" for xs
    using that by (cases xs rule: remdups_adj.cases) auto
  have "foldl fts_term (join '' '' (map (\<lambda>t. t @ ''*'') as)) ws
      = join '' '' (map (\<lambda>t. t @ ''*'') (as @ filter (\<lambda>t. t \<noteq> []) (map (filter is_alnum) ws)))" for as ws
  proof (induction ws arbitrary: as)
    case (Cons w ws)
    let ?t = "filter is_alnum w"
    show ?case
    proof (cases "?t = []")
      case True
      then show ?thesis using Cons.IH by (simp add: fts_term_def)
    next
      case False
      have "fts_term (join '' '' (map (\<lambda>t. t @ ''*'') as)) w
          = join '' '' (map (\<lambda>t. t @ ''*'') (as @ [?t]))"
        using False snoc [of "map (\<lambda>t. t @ ''*'') as" "'' ''" "?t @ ''*''"] ne [of "map (\<lambda>t. t @ ''*'') as"]
        by (cases as) (auto simp: fts_term_def)
      then show ?thesis using Cons.IH [of "as @ [?t]"] False by simp
    qed
  qed simp
  from this [of "[]" "str_fields q"] show ?thesis by (simp add: ftsMatch_def)
qed

lemma set_join: "set (join sep xs) \<subseteq> set sep \<union> (\<Union>x \<in> set xs. set x)"
  by (induction sep xs rule: join.induct) auto

end
