(* ===== verification/Store_Docs.thy ===== *)
theory Store_Docs
  imports Ranking
begin

text \<open>
  \<open>src/store_docs.go\<close>: documents, their full-text rows and labels, and the failure
  records. Each operation is the transaction the code runs followed by the update of the
  in-memory fields; the current time is an argument \<open>now\<close> (nanoseconds).
  The full-text engine is not part of the program: \<open>fts_engine\<close> holds which MATCH
  expressions it accepts, which rows match, and their rank.
\<close>

section \<open>Labels of an entry\<close>

definition label_add :: "string \<Rightarrow> string list \<Rightarrow> string list" where
  "label_add s out = (let s = to_lower (trim_space s) in
     if s = [] then out else if s \<in> set out then out else out @ [s])"

definition label_list :: "string list \<Rightarrow> string \<Rightarrow> string \<Rightarrow> string list" where
  "label_list kws broad sub = label_add sub (label_add broad (fold label_add kws []))"

definition labelSet :: "index_entry \<Rightarrow> string list" where
  "labelSet e = label_list (e_keywords e) (e_broad e) (e_sub e)"

section \<open>Adding a document\<close>

definition next_rowid :: "doc_row list \<Rightarrow> nat" where
  "next_rowid t = Suc (fold max (map d_rowid t) 0)"

definition doc_upd :: "doc_row \<Rightarrow> doc_row \<Rightarrow> doc_row" where
  "doc_upd old new = old\<lparr>d_title := d_title new, d_broad := d_broad new, d_sub := d_sub new,
     d_keywords := d_keywords new, d_at := d_at new\<rparr>"

definition doc_of_entry :: "index_entry \<Rightarrow> nat \<Rightarrow> doc_row" where
  "doc_of_entry e rowid = \<lparr>d_rowid = rowid, d_cid = e_cid e, d_title = e_title e,
     d_broad = e_broad e, d_sub = e_sub e, d_keywords = e_keywords e, d_at = nano (e_at e)\<rparr>"

definition fts_of_entry :: "index_entry \<Rightarrow> nat \<Rightarrow> fts_row" where
  "fts_of_entry e rowid = \<lparr>x_rowid = rowid, x_cid = e_cid e, x_title = e_title e,
     x_broad = e_broad e, x_sub = e_sub e, x_keywords = join '' '' (e_keywords e)\<rparr>"

definition upsert_doc :: "index_entry \<Rightarrow> database \<Rightarrow> database" where
  "upsert_doc e d = d\<lparr>documents := sql_upsert d_cid doc_upd
     (doc_of_entry e (next_rowid (documents d))) (documents d)\<rparr>"

definition delete_fts :: "nat \<Rightarrow> database \<Rightarrow> database" where
  "delete_fts rowid d = d\<lparr>documents_fts := sql_delete (\<lambda>x. x_rowid x = rowid) (documents_fts d)\<rparr>"

definition insert_fts :: "fts_row \<Rightarrow> database \<Rightarrow> database option" where
  "insert_fts x d = map_option (\<lambda>t. d\<lparr>documents_fts := t\<rparr>) (sql_insert x_rowid x (documents_fts d))"

definition delete_labels :: "cid \<Rightarrow> database \<Rightarrow> database" where
  "delete_labels c d = d\<lparr>labels := sql_delete (\<lambda>l. snd l = c) (labels d)\<rparr>"

definition insert_label :: "cid \<Rightarrow> string \<Rightarrow> database \<Rightarrow> database" where
  "insert_label c l d = d\<lparr>labels := sql_insert_ignore id (l, c) (labels d)\<rparr>"

definition delete_failure :: "cid \<Rightarrow> database \<Rightarrow> database" where
  "delete_failure c d = d\<lparr>failures := sql_delete (\<lambda>f. f_cid f = c) (failures d)\<rparr>"

definition doc_rowid :: "cid \<Rightarrow> database \<Rightarrow> nat option" where
  "doc_rowid c d = map_option d_rowid (sql_find d_cid c (documents d))"

definition add_tx :: "index_entry \<Rightarrow> unit tx" where
  "add_tx e =
     tx_then (tx_exec (upsert_doc e))
    (tx_bind (tx_query_row (doc_rowid (e_cid e))) (\<lambda>rowid.
     tx_then (tx_exec (delete_fts rowid))
    (tx_then (tx_exec_checked (insert_fts (fts_of_entry e rowid)))
    (tx_then (tx_exec (delete_labels (e_cid e)))
    (tx_then (tx_foreach (\<lambda>l. tx_exec (insert_label (e_cid e) l)) (labelSet e))
             (tx_exec (delete_failure (e_cid e))))))))"

definition dec_pending :: "store \<Rightarrow> store" where
  "dec_pending s = (if pending s > 0 then s\<lparr>pending := pending s - 1\<rparr> else s)"

definition Add :: "index_entry \<Rightarrow> store \<Rightarrow> store" where
  "Add e s = (case store_write (add_tx e) s of
      (Committed _, s') \<Rightarrow> dec_pending s'
    | (_, s') \<Rightarrow> s')"

section \<open>Pending documents\<close>

definition cidSet :: "(database \<Rightarrow> cid list) \<Rightarrow> store \<Rightarrow> cid set \<times> store" where
  "cidSet q s = (case db_query q s of (None, s') \<Rightarrow> ({}, s') | (Some cs, s') \<Rightarrow> (set cs, s'))"

definition indexed_cids :: "database \<Rightarrow> cid list" where
  "indexed_cids d = map d_cid (documents d)"

definition perm_failed_cids :: "database \<Rightarrow> cid list" where
  "perm_failed_cids d = map f_cid (filter (\<lambda>f. f_count f \<ge> maxRetries) (failures d))"

definition Pending :: "cid list \<Rightarrow> store \<Rightarrow> cid list \<times> store" where
  "Pending cids s =
     (let (indexed, s1) = cidSet indexed_cids s;
          (failed, s2) = cidSet perm_failed_cids s1;
          pend = filter (\<lambda>c. c \<notin> indexed \<and> c \<notin> failed) cids
      in (pend, s2\<lparr>pending := int (length pend)\<rparr>))"

section \<open>Failure records\<close>

definition fail_bump :: "fail_row \<Rightarrow> fail_row \<Rightarrow> fail_row" where
  "fail_bump old new = old\<lparr>f_count := f_count old + 1, f_last := f_last new, f_reason := f_reason new\<rparr>"

definition fail_touch :: "fail_row \<Rightarrow> fail_row \<Rightarrow> fail_row" where
  "fail_touch old new = old\<lparr>f_last := f_last new, f_reason := f_reason new\<rparr>"

definition fail_set :: "fail_row \<Rightarrow> fail_row \<Rightarrow> fail_row" where
  "fail_set old new = old\<lparr>f_count := f_count new, f_last := f_last new, f_reason := f_reason new\<rparr>"

definition upsert_failure ::
  "(fail_row \<Rightarrow> fail_row \<Rightarrow> fail_row) \<Rightarrow> fail_row \<Rightarrow> database \<Rightarrow> database" where
  "upsert_failure upd f d = d\<lparr>failures := sql_upsert f_cid upd f (failures d)\<rparr>"

definition failure_count :: "cid \<Rightarrow> database \<Rightarrow> int option" where
  "failure_count c d = map_option f_count (sql_find f_cid c (failures d))"

definition RecordFailure :: "int \<Rightarrow> cid \<Rightarrow> string \<Rightarrow> store \<Rightarrow> store" where
  "RecordFailure now c reason s =
     (case store_write
        (tx_then (tx_exec (upsert_failure fail_bump
                    \<lparr>f_cid = c, f_count = 1, f_last = now, f_reason = reason\<rparr>))
                 (tx_query_row (failure_count c))) s of
        (Committed n, s') \<Rightarrow> if n \<ge> maxRetries then dec_pending s' else s'
      | (_, s') \<Rightarrow> s')"

definition RecordRateLimited :: "int \<Rightarrow> cid \<Rightarrow> string \<Rightarrow> store \<Rightarrow> store" where
  "RecordRateLimited now c reason s = snd (store_write (tx_exec (upsert_failure fail_touch
     \<lparr>f_cid = c, f_count = 0, f_last = now, f_reason = reason\<rparr>)) s)"

definition RequeueRateLimited :: "store \<Rightarrow> int \<times> store" where
  "RequeueRateLimited s =
     (case store_write (tx_exec_count (\<lambda>d.
          (d\<lparr>failures := sql_delete (\<lambda>f. like ''%rate limited%'' (f_reason f)) (failures d)\<rparr>,
           length (filter (\<lambda>f. like ''%rate limited%'' (f_reason f)) (failures d))))) s of
        (Committed n, s') \<Rightarrow> (int n, s')
      | (_, s') \<Rightarrow> (0, s'))"

definition scanFailures :: "fail_row list \<Rightarrow> failed_doc list" where
  "scanFailures rows = map (\<lambda>f. \<lparr>fd_cid = f_cid f, fd_count = f_count f, fd_reason = f_reason f,
     fd_last = fromNano (f_last f)\<rparr>) rows"

definition Failures :: "store \<Rightarrow> failed_doc list \<times> store" where
  "Failures s = (case db_query (\<lambda>d. order_desc f_last
       (filter (\<lambda>f. f_count f \<ge> maxRetries) (failures d))) s of
      (None, s') \<Rightarrow> ([], s')
    | (Some rows, s') \<Rightarrow> (scanFailures rows, s'))"

definition RetryFailure :: "cid \<Rightarrow> store \<Rightarrow> bool \<times> store" where
  "RetryFailure c s =
     (case store_write (tx_exec_count (\<lambda>d. (delete_failure c d,
          length (filter (\<lambda>f. f_cid f = c) (failures d))))) s of
        (Committed n, s') \<Rightarrow> (n > 0, s')
      | (_, s') \<Rightarrow> (False, s'))"

definition RecordSkip :: "int \<Rightarrow> cid \<Rightarrow> store \<Rightarrow> store" where
  "RecordSkip now c s =
     (let (_, s') = store_write (tx_exec (upsert_failure fail_set
            \<lparr>f_cid = c, f_count = maxRetries, f_last = now, f_reason = ''skipped: not a PDF''\<rparr>)) s
      in dec_pending (s'\<lparr>skipped := skipped s' + 1\<rparr>))"

definition Stats :: "store \<Rightarrow> store_stats \<times> store" where
  "Stats s =
     (let (indexed, s1) = db_scan 0 (\<lambda>d. int (length (documents d))) s;
          (failed, s2) = db_scan 0 (\<lambda>d. int (length (perm_failed_cids d))) s1;
          (kws, s3) = db_scan 0 (\<lambda>d. int (card (fst ` set (labels d)))) s2;
          (archs, s4) = db_scan 0 (\<lambda>d. int (length (archives d))) s3
      in (\<lparr>st_indexed = indexed, st_pending = pending s4, st_failed = failed,
           st_skipped = skipped s4, st_keywords = kws, st_archives = archs, st_queued = 0,
           st_enabled = indexed > 0, st_indexing = False\<rparr>, s4))"

section \<open>Search\<close>

record fts_engine =
  fts_ok :: "string \<Rightarrow> bool"
  fts_hit :: "string \<Rightarrow> fts_row \<Rightarrow> bool"
  fts_rank :: "string \<Rightarrow> fts_row \<Rightarrow> int"

definition archivesForDocs :: "cid list \<Rightarrow> store \<Rightarrow> (cid \<Rightarrow> cid list) \<times> store" where
  "archivesForDocs cids s =
     (if cids = [] then (\<lambda>_. [], s)
      else (case db_query (\<lambda>d. filter (\<lambda>m. m_doc m \<in> set cids) (archive_docs d)) s of
          (None, s') \<Rightarrow> (\<lambda>_. [], s')
        | (Some rows, s') \<Rightarrow>
            (\<lambda>c. sort (map m_arch (filter (\<lambda>m. m_doc m = c) rows)), s')))"

definition entry_of_row :: "doc_row \<Rightarrow> index_entry" where
  "entry_of_row r = \<lparr>e_cid = d_cid r, e_title = d_title r, e_broad = d_broad r, e_sub = d_sub r,
     e_keywords = d_keywords r, e_at = fromNano (d_at r), e_archives = []\<rparr>"

definition scanEntries :: "doc_row list \<Rightarrow> store \<Rightarrow> index_entry list \<times> store" where
  "scanEntries rows s =
     (let entries = map entry_of_row rows in
      if entries = [] then ([], s)
      else (let (membership, s') = archivesForDocs (map e_cid entries) s
            in (map (\<lambda>e. e\<lparr>e_archives := membership (e_cid e)\<rparr>) entries, s')))"

definition search_join :: "fts_engine \<Rightarrow> string \<Rightarrow> database \<Rightarrow> (fts_row \<times> doc_row) list" where
  "search_join eng match d =
     [(f, r). f \<leftarrow> documents_fts d, fts_hit eng match f, r \<leftarrow> documents d, d_cid r = x_cid f]"

definition search_order :: "fts_engine \<Rightarrow> string \<Rightarrow> (fts_row \<times> doc_row) list \<Rightarrow> doc_row list" where
  "search_order eng match hits =
     map snd (sort_key (\<lambda>(f, r). (fts_rank eng match f, - d_at r)) hits)"

definition SearchPage ::
  "fts_engine \<Rightarrow> string \<Rightarrow> int \<Rightarrow> int \<Rightarrow> store \<Rightarrow> (index_entry list \<times> int) \<times> store" where
  "SearchPage eng query offset limit s =
     (let match = ftsMatch query in
      if match = [] then (([], 0), s)
      else (case db_query (\<lambda>d. if fts_ok eng match
                 then Some (int (length (filter (fts_hit eng match) (documents_fts d)))) else None) s of
          (None, s1) \<Rightarrow> (([], 0), s1)
        | (Some None, s1) \<Rightarrow> (([], 0), s1)
        | (Some (Some tot), s1) \<Rightarrow>
            if tot = 0 then (([], 0), s1)
            else (case db_query (\<lambda>d. sql_limit limit offset
                       (search_order eng match (search_join eng match d))) s1 of
                (None, s2) \<Rightarrow> (([], tot), s2)
              | (Some rows, s2) \<Rightarrow>
                  (let (results, s3) = scanEntries rows s2 in ((results, tot), s3)))))"

definition Search :: "fts_engine \<Rightarrow> string \<Rightarrow> store \<Rightarrow> index_entry list \<times> store" where
  "Search eng query s = (let ((results, _), s') = SearchPage eng query 0 (- 1) s in (results, s'))"

definition label_docs :: "label_row list \<Rightarrow> string \<Rightarrow> int" where
  "label_docs rows l = int (length (remdups (map snd (filter (\<lambda>r. fst r = l) rows))))"

definition Suggest :: "string \<Rightarrow> store \<Rightarrow> suggestion list \<times> store" where
  "Suggest q s =
     (let pre = to_lower (trim_space q);
          pat = ''%'' @ pre @ ''%'' in
      case db_query (\<lambda>d.
          let rows = filter (\<lambda>r. pre = [] \<or> like pat (fst r)) (labels d)
          in take 20 (map (\<lambda>l. \<lparr>sg_keyword = l, sg_count = label_docs rows l\<rparr>)
               (sort_key (\<lambda>l. (- label_docs rows l, l)) (remdups (map fst rows))))) s of
        (None, s') \<Rightarrow> ([], s')
      | (Some out, s') \<Rightarrow> (out, s'))"

section \<open>Recent searches\<close>

fun drop_first :: "('a \<Rightarrow> bool) \<Rightarrow> 'a list \<Rightarrow> 'a list" where
  "drop_first P [] = []"
| "drop_first P (x # xs) = (if P x then xs else x # drop_first P xs)"

definition RecordSearch :: "int \<Rightarrow> string \<Rightarrow> int \<Rightarrow> store \<Rightarrow> store" where
  "RecordSearch now keyword resultCount s =
     (if resultCount = 0 then s
      else (let r1 = drop_first (\<lambda>sr. equal_fold (rs_keyword sr) keyword) (recent s);
                r2 = r1 @ [\<lparr>rs_keyword = to_lower keyword, rs_count = resultCount, rs_time = now\<rparr>];
                r3 = (if length r2 > maxRecentItems then drop (length r2 - maxRecentItems) r2 else r2)
            in s\<lparr>recent := r3\<rparr>))"

definition GetRecentSearches :: "store \<Rightarrow> recent_search list" where
  "GetRecentSearches s = rev (recent s)"

section \<open>The tables of this file\<close>

interpretation doc_tbl: pk_table d_cid doc_upd
  by unfold_locales (simp add: doc_upd_def)

interpretation fail_bump_tbl: pk_table f_cid fail_bump
  by unfold_locales (simp add: fail_bump_def)

interpretation fail_touch_tbl: pk_table f_cid fail_touch
  by unfold_locales (simp add: fail_touch_def)

interpretation fail_set_tbl: pk_table f_cid fail_set
  by unfold_locales (simp add: fail_set_def)

section \<open>Label lists\<close>

lemma set_label_add:
  "set (label_add s out) = set out \<union> ({to_lower (trim_space s)} - {[]})"
  by (auto simp: label_add_def Let_def)

lemma distinct_label_add: "distinct out \<Longrightarrow> distinct (label_add s out)"
  by (auto simp: label_add_def Let_def)

lemma set_fold_label_add:
  "set (fold label_add ss out) = set out \<union> ((\<lambda>s. to_lower (trim_space s)) ` set ss - {[]})"
  by (induction ss arbitrary: out) (auto simp: set_label_add)

lemma distinct_fold_label_add: "distinct out \<Longrightarrow> distinct (fold label_add ss out)"
  by (induction ss arbitrary: out) (auto intro: distinct_label_add)

lemma distinct_label_list [simp]: "distinct (label_list kws broad sub)"
  unfolding label_list_def by (intro distinct_label_add distinct_fold_label_add) simp

lemma set_label_list:
  "set (label_list kws broad sub)
     = (\<lambda>s. to_lower (trim_space s)) ` ({broad, sub} \<union> set kws) - {[]}"
  unfolding label_list_def by (auto simp: set_label_add set_fold_label_add)

section \<open>The effect of Add\<close>

definition stored_rowid :: "cid \<Rightarrow> database \<Rightarrow> nat" where
  "stored_rowid c d = (case sql_find d_cid c (documents d) of
     None \<Rightarrow> next_rowid (documents d) | Some r \<Rightarrow> d_rowid r)"

definition add_db :: "index_entry \<Rightarrow> database \<Rightarrow> database" where
  "add_db e d = (let rowid = stored_rowid (e_cid e) d in
     d\<lparr>documents := documents (upsert_doc e d),
       documents_fts := sql_delete (\<lambda>x. x_rowid x = rowid) (documents_fts d) @ [fts_of_entry e rowid],
       labels := sql_delete (\<lambda>l. snd l = e_cid e) (labels d) @ map (\<lambda>l. (l, e_cid e)) (labelSet e),
       failures := sql_delete (\<lambda>f. f_cid f = e_cid e) (failures d)\<rparr>)"

lemma next_rowid_fresh: "r \<in> set t \<Longrightarrow> d_rowid r < next_rowid t"
proof -
  assume "r \<in> set t"
  then have "d_rowid r \<le> Max (set (0 # map d_rowid t))" by (intro Max_ge) auto
  then show ?thesis by (simp only: next_rowid_def Max.set_eq_fold less_Suc_eq_le)
qed

lemma doc_of_entry_simps [simp]:
  "d_cid (doc_of_entry e i) = e_cid e" "d_rowid (doc_of_entry e i) = i"
  "d_keywords (doc_of_entry e i) = e_keywords e" "d_broad (doc_of_entry e i) = e_broad e"
  "d_sub (doc_of_entry e i) = e_sub e"
  by (simp_all add: doc_of_entry_def)

lemma doc_upd_entry: "d_cid r = e_cid e \<Longrightarrow> doc_upd r (doc_of_entry e i) = doc_of_entry e (d_rowid r)"
  by (simp add: doc_upd_def doc_of_entry_def)

lemma doc_rowid_upsert: "doc_rowid (e_cid e) (upsert_doc e d) = Some (stored_rowid (e_cid e) d)"
proof -
  have "doc_rowid (e_cid e) (upsert_doc e d) =
      Some (d_rowid (case sql_find d_cid (e_cid e) (documents d) of
        None \<Rightarrow> doc_of_entry e (next_rowid (documents d))
      | Some old \<Rightarrow> doc_upd old (doc_of_entry e (next_rowid (documents d)))))"
    using doc_tbl.find_upsert_same [of "doc_of_entry e (next_rowid (documents d))" "documents d"]
    by (simp add: doc_rowid_def upsert_doc_def del: sql_find_None)
  then show ?thesis
    by (auto simp: stored_rowid_def doc_upd_def split: option.splits simp del: sql_find_None)
qed

lemma fold_insert_label:
  "distinct ls \<Longrightarrow> \<forall>l \<in> set ls. (l, c) \<notin> set (labels d) \<Longrightarrow>
     fold (insert_label c) ls d = d\<lparr>labels := labels d @ map (\<lambda>l. (l, c)) ls\<rparr>"
proof (induction ls arbitrary: d)
  case (Cons l ls)
  have "insert_label c l d = d\<lparr>labels := labels d @ [(l, c)]\<rparr>"
    using Cons.prems by (simp add: insert_label_def sql_insert_ignore_def)
  moreover have "fold (insert_label c) ls (d\<lparr>labels := labels d @ [(l, c)]\<rparr>)
      = d\<lparr>labels := labels d @ [(l, c)] @ map (\<lambda>l. (l, c)) ls\<rparr>"
    using Cons.prems Cons.IH [of "d\<lparr>labels := labels d @ [(l, c)]\<rparr>"] by auto
  ultimately show ?case by simp
qed simp

lemma add_tx_run: "add_tx e (d, []) = (Inr (), (add_db e d, []))"
proof -
  let ?i = "stored_rowid (e_cid e) d"
  have ins: "insert_fts (fts_of_entry e ?i) (delete_fts ?i (upsert_doc e d))
      = Some ((delete_fts ?i (upsert_doc e d))\<lparr>documents_fts :=
          sql_delete (\<lambda>x. x_rowid x = ?i) (documents_fts d) @ [fts_of_entry e ?i]\<rparr>)"
    by (auto simp: insert_fts_def sql_insert_def delete_fts_def upsert_doc_def fts_of_entry_def)
  have "fold (insert_label (e_cid e)) (labelSet e) (delete_labels (e_cid e) d')
      = (delete_labels (e_cid e) d')\<lparr>labels := labels (delete_labels (e_cid e) d')
          @ map (\<lambda>l. (l, e_cid e)) (labelSet e)\<rparr>" for d'
    by (rule fold_insert_label) (auto simp: labelSet_def delete_labels_def)
  then have "add_tx e (d, []) = (Inr (), (delete_failure (e_cid e)
      (let d' = delete_labels (e_cid e) ((delete_fts ?i (upsert_doc e d))\<lparr>documents_fts :=
          sql_delete (\<lambda>x. x_rowid x = ?i) (documents_fts d) @ [fts_of_entry e ?i]\<rparr>)
       in d'\<lparr>labels := labels d' @ map (\<lambda>l. (l, e_cid e)) (labelSet e)\<rparr>), []))"
    by (simp add: add_tx_def tx_simps doc_rowid_upsert ins Let_def)
  then show ?thesis
    by (simp add: delete_labels_def delete_failure_def add_db_def Let_def delete_fts_def
        upsert_doc_def)
qed

lemma strict_add_tx: "strict (add_tx e)"
  unfolding add_tx_def by (intro strict_then strict_bind strict_foreach strict_exec
      strict_exec_checked strict_query_row)

lemma dec_pending_simps [simp]:
  "db (dec_pending s) = db s" "drv (dec_pending s) = drv s" "recent (dec_pending s) = recent s"
  "skipped (dec_pending s) = skipped s" "review_enabled (dec_pending s) = review_enabled s"
  by (simp_all add: dec_pending_def)

lemma Add_run: "drv s = [] \<Longrightarrow> Add e s = dec_pending (s\<lparr>db := add_db e (db s)\<rparr>)"
  by (simp add: Add_def tx_simps add_tx_run)

section \<open>The index stays consistent\<close>

definition fts_of_row :: "doc_row \<Rightarrow> fts_row" where
  "fts_of_row r = \<lparr>x_rowid = d_rowid r, x_cid = d_cid r, x_title = d_title r, x_broad = d_broad r,
     x_sub = d_sub r, x_keywords = join '' '' (d_keywords r)\<rparr>"

text \<open>
  The full-text table holds one row per document, under the document's rowid and with its
  current text; the label table holds exactly the labels of the documents.
\<close>

definition docs_ok :: "database \<Rightarrow> bool" where
  "docs_ok d \<longleftrightarrow> distinct (map d_cid (documents d)) \<and> distinct (map d_rowid (documents d))
     \<and> distinct (map x_rowid (documents_fts d))
     \<and> set (documents_fts d) = fts_of_row ` set (documents d)"

definition labels_of_docs :: "doc_row set \<Rightarrow> label_row set" where
  "labels_of_docs R =
     (\<Union>r \<in> R. (\<lambda>l. (l, d_cid r)) ` set (label_list (d_keywords r) (d_broad r) (d_sub r)))"

definition labels_ok :: "database \<Rightarrow> bool" where
  "labels_ok d \<longleftrightarrow> distinct (labels d) \<and> set (labels d) = labels_of_docs (set (documents d))"

definition failures_ok :: "database \<Rightarrow> bool" where
  "failures_ok d \<longleftrightarrow> distinct (map f_cid (failures d)) \<and> (\<forall>f \<in> set (failures d). 0 \<le> f_count f)"

lemma docs_add:
  assumes "distinct (map d_cid (documents d))"
  shows "set (documents (add_db e d)) = {r \<in> set (documents d). d_cid r \<noteq> e_cid e}
    \<union> {doc_of_entry e (stored_rowid (e_cid e) d)}"
proof -
  let ?n = "doc_of_entry e (next_rowid (documents d))"
  have "(case sql_find d_cid (e_cid e) (documents d) of None \<Rightarrow> ?n | Some old \<Rightarrow> doc_upd old ?n)
      = doc_of_entry e (stored_rowid (e_cid e) d)"
    by (auto simp: stored_rowid_def doc_upd_entry split: option.splits
        dest: sql_find_SomeD simp del: sql_find_None)
  then show ?thesis
    using doc_tbl.upsert_set [OF assms, of ?n] by (simp add: add_db_def upsert_doc_def Let_def)
qed

lemma find_doc_add:
  "sql_find d_cid c (documents (add_db e d)) =
     (if c = e_cid e then Some (doc_of_entry e (stored_rowid (e_cid e) d))
      else sql_find d_cid c (documents d))"
proof -
  let ?n = "doc_of_entry e (next_rowid (documents d))"
  have "(case sql_find d_cid (e_cid e) (documents d) of None \<Rightarrow> ?n | Some old \<Rightarrow> doc_upd old ?n)
      = doc_of_entry e (stored_rowid (e_cid e) d)"
    by (auto simp: stored_rowid_def doc_upd_entry split: option.splits
        dest: sql_find_SomeD simp del: sql_find_None)
  then show ?thesis
    using doc_tbl.find_upsert_same [of ?n "documents d"]
      doc_tbl.find_upsert_other [of c ?n "documents d"]
    by (simp add: add_db_def upsert_doc_def Let_def)
qed

lemma rowid_iff_cid:
  assumes "docs_ok d" and "r \<in> set (documents d)"
  shows "d_rowid r = stored_rowid c d \<longleftrightarrow> d_cid r = c"
proof (cases "sql_find d_cid c (documents d)")
  case None
  then show ?thesis using assms next_rowid_fresh [OF assms(2)] by (auto simp: stored_rowid_def)
next
  case (Some q)
  then have q: "q \<in> set (documents d)" "d_cid q = c" by (auto dest: sql_find_SomeD)
  have "d_rowid r = d_rowid q \<longleftrightarrow> r = q" "d_cid r = d_cid q \<longleftrightarrow> r = q"
    using assms q by (auto simp: docs_ok_def distinct_map inj_on_def)
  then show ?thesis using Some q by (auto simp: stored_rowid_def)
qed

lemma fts_of_doc_of_entry: "fts_of_row (doc_of_entry e i) = fts_of_entry e i"
  by (simp add: fts_of_row_def fts_of_entry_def doc_of_entry_def)

lemma x_rowid_fts_of_row [simp]: "x_rowid (fts_of_row r) = d_rowid r" "x_cid (fts_of_row r) = d_cid r"
  by (simp_all add: fts_of_row_def)

lemma docs_ok_add:
  assumes ok: "docs_ok d"
  shows "docs_ok (add_db e d)"
proof -
  let ?c = "e_cid e" and ?i = "stored_rowid (e_cid e) d" and ?D = "documents (add_db e d)"
  have dc: "distinct (map d_cid (documents d))" using ok by (simp add: docs_ok_def)
  note D = docs_add [OF dc, of e]
  have 1: "distinct (map d_cid ?D)"
    using doc_tbl.upsert_distinct [OF dc] by (simp add: add_db_def upsert_doc_def Let_def)
  have 2: "distinct (map d_rowid ?D)"
  proof -
    have "inj_on d_rowid {r \<in> set (documents d). d_cid r \<noteq> ?c}"
      using ok by (auto simp: docs_ok_def distinct_map intro: inj_on_subset)
    moreover have "?i \<notin> d_rowid ` {r \<in> set (documents d). d_cid r \<noteq> ?c}"
      using rowid_iff_cid [OF ok, of _ ?c] by (metis (mono_tags, lifting) imageE mem_Collect_eq)
    ultimately have "inj_on d_rowid (set ?D)" unfolding D by (auto simp: inj_on_insert)
    then show ?thesis using 1 by (simp add: distinct_map)
  qed
  have 3: "distinct (map x_rowid (documents_fts (add_db e d)))"
    using ok by (auto simp: docs_ok_def add_db_def Let_def fts_of_entry_def)
  have "set (documents_fts (add_db e d))
      = fts_of_row ` {r \<in> set (documents d). d_rowid r \<noteq> ?i} \<union> {fts_of_entry e ?i}"
    using ok by (auto simp: docs_ok_def add_db_def Let_def)
  also have "{r \<in> set (documents d). d_rowid r \<noteq> ?i} = {r \<in> set (documents d). d_cid r \<noteq> ?c}"
    using rowid_iff_cid [OF ok] by auto
  finally have 4: "set (documents_fts (add_db e d)) = fts_of_row ` set ?D"
    by (simp add: D fts_of_doc_of_entry)
  from 1 2 3 4 show ?thesis by (simp add: docs_ok_def)
qed

lemma labels_of_docs_other:
  "labels_of_docs {r \<in> R. d_cid r \<noteq> c} = {l \<in> labels_of_docs R. snd l \<noteq> c}"
  by (auto simp: labels_of_docs_def)

lemma labels_ok_add:
  assumes "docs_ok d" and "labels_ok d"
  shows "labels_ok (add_db e d)"
proof -
  have dc: "distinct (map d_cid (documents d))" using assms(1) by (simp add: docs_ok_def)
  have "labels_of_docs (set (documents (add_db e d)))
      = labels_of_docs {r \<in> set (documents d). d_cid r \<noteq> e_cid e}
        \<union> (\<lambda>l. (l, e_cid e)) ` set (labelSet e)"
    unfolding docs_add [OF dc] by (auto simp: labels_of_docs_def labelSet_def)
  moreover have "set (labels (add_db e d)) = {l \<in> set (labels d). snd l \<noteq> e_cid e}
        \<union> (\<lambda>l. (l, e_cid e)) ` set (labelSet e)"
    by (auto simp: add_db_def Let_def)
  moreover have "distinct (labels (add_db e d))"
    using assms(2) by (auto simp: labels_ok_def add_db_def Let_def sql_delete_def distinct_map
        inj_on_def labelSet_def)
  ultimately show ?thesis using assms(2) by (simp add: labels_ok_def labels_of_docs_other)
qed

section \<open>Views of the index\<close>

type_synonym meta = "string \<times> string \<times> string \<times> string list \<times> int"

definition doc_view :: "database \<Rightarrow> cid \<Rightarrow> meta option" where
  "doc_view d c = map_option (\<lambda>r. (d_title r, d_broad r, d_sub r, d_keywords r, d_at r))
     (sql_find d_cid c (documents d))"

definition entry_meta :: "index_entry \<Rightarrow> meta" where
  "entry_meta e = (e_title e, e_broad e, e_sub e, e_keywords e, nano (e_at e))"

definition is_indexed :: "database \<Rightarrow> cid \<Rightarrow> bool" where
  "is_indexed d c \<longleftrightarrow> c \<in> d_cid ` set (documents d)"

definition attempts :: "database \<Rightarrow> cid \<Rightarrow> int" where
  "attempts d c = (case failure_count c d of None \<Rightarrow> 0 | Some n \<Rightarrow> n)"

definition is_failed :: "database \<Rightarrow> cid \<Rightarrow> bool" where
  "is_failed d c \<longleftrightarrow> attempts d c \<ge> maxRetries"

text \<open>How many more failures a document can take before it settles; 0 once it is settled.\<close>

definition budget :: "database \<Rightarrow> cid \<Rightarrow> nat" where
  "budget d c = (if is_indexed d c then 0 else nat (maxRetries - attempts d c))"

lemma is_indexed_view: "is_indexed d c \<longleftrightarrow> doc_view d c \<noteq> None"
  by (auto simp: is_indexed_def doc_view_def)

lemma budget_pos: "budget d c > 0 \<longleftrightarrow> \<not> is_indexed d c \<and> \<not> is_failed d c"
  by (auto simp: budget_def is_failed_def)

lemma perm_failed_iff:
  "c \<in> set (perm_failed_cids d) \<longleftrightarrow> (\<exists>f \<in> set (failures d). f_cid f = c \<and> f_count f \<ge> maxRetries)"
  by (auto simp: perm_failed_cids_def)

lemma is_failed_iff:
  assumes "failures_ok d"
  shows "is_failed d c \<longleftrightarrow> c \<in> set (perm_failed_cids d)"
proof (cases "sql_find f_cid c (failures d)")
  case None
  then have "\<forall>f \<in> set (failures d). f_cid f \<noteq> c" by auto
  moreover from None have "\<not> is_failed d c"
    by (simp add: is_failed_def attempts_def failure_count_def maxRetries_def del: sql_find_None)
  ultimately show ?thesis by (simp add: perm_failed_iff)
next
  case (Some f)
  then have f: "f \<in> set (failures d)" "f_cid f = c" by (auto dest: sql_find_SomeD)
  have "g = f" if "g \<in> set (failures d)" "f_cid g = c" for g
    using that f assms by (metis failures_ok_def distinct_map inj_onD)
  then have "c \<in> set (perm_failed_cids d) \<longleftrightarrow> f_count f \<ge> maxRetries"
    unfolding perm_failed_iff using f by metis
  then show ?thesis using Some by (simp add: is_failed_def attempts_def failure_count_def)
qed

lemma Pending_run:
  assumes "drv s = []" and "failures_ok (db s)"
  shows "Pending cids s = (filter (\<lambda>c. budget (db s) c > 0) cids,
    s\<lparr>pending := int (length (filter (\<lambda>c. budget (db s) c > 0) cids))\<rparr>)"
  using assms is_failed_iff [OF assms(2)]
  by (simp add: Pending_def cidSet_def tx_simps budget_pos is_indexed_def indexed_cids_def)

lemma doc_view_add:
  "doc_view (add_db e d) = (doc_view d)(e_cid e \<mapsto> entry_meta e)"
  by (auto simp: fun_eq_iff doc_view_def find_doc_add entry_meta_def doc_of_entry_def)

lemma find_failure_delete:
  "sql_find f_cid c (sql_delete (\<lambda>f. f_cid f = c') t) = (if c = c' then None else sql_find f_cid c t)"
  by (simp add: sql_find_delete_other)

lemma is_indexed_add: "is_indexed (add_db e d) c \<longleftrightarrow> c = e_cid e \<or> is_indexed d c"
  unfolding is_indexed_view doc_view_add by (auto simp: entry_meta_def)

lemma failure_count_add:
  "failure_count c (add_db e d) = (if c = e_cid e then None else failure_count c d)"
  by (auto simp: failure_count_def add_db_def Let_def sql_find_delete_other)

lemma budget_add:
  "budget (add_db e d) c = (if c = e_cid e then 0 else budget d c)"
  by (auto simp: budget_def is_indexed_add attempts_def failure_count_add)

lemma failures_ok_add: "failures_ok d \<Longrightarrow> failures_ok (add_db e d)"
  by (simp add: failures_ok_def add_db_def Let_def)

lemma failures_ok_upsert:
  assumes "pk_table f_cid upd" and "failures_ok d" and "0 \<le> f_count f"
    and "\<And>old. 0 \<le> f_count old \<Longrightarrow> 0 \<le> f_count (upd old f)"
  shows "failures_ok (upsert_failure upd f d)"
proof -
  have "distinct (map f_cid (failures (upsert_failure upd f d)))"
    using pk_table.upsert_distinct [OF assms(1)] assms(2) by (simp add: failures_ok_def upsert_failure_def)
  moreover have "0 \<le> f_count x" if "x \<in> set (failures (upsert_failure upd f d))" for x
    using pk_table.upsert_rows [OF assms(1)] that assms(2-4)
    by (fastforce simp: failures_ok_def upsert_failure_def)
  ultimately show ?thesis by (simp add: failures_ok_def)
qed

lemma attempts_nonneg: "failures_ok d \<Longrightarrow> 0 \<le> attempts d c"
  by (auto simp: attempts_def failure_count_def failures_ok_def split: option.splits
      dest: sql_find_SomeD)

lemma budget_le: "failures_ok d \<Longrightarrow> budget d c \<le> 3"
  using attempts_nonneg [of d c] by (simp add: budget_def maxRetries_def nat_le_iff)

lemma upsert_failure_frame [simp]:
  "documents (upsert_failure u f d) = documents d"
  "documents_fts (upsert_failure u f d) = documents_fts d"
  "labels (upsert_failure u f d) = labels d" "archives (upsert_failure u f d) = archives d"
  "archive_docs (upsert_failure u f d) = archive_docs d"
  "submissions (upsert_failure u f d) = submissions d"
  "denylist (upsert_failure u f d) = denylist d" "settings (upsert_failure u f d) = settings d"
  by (simp_all add: upsert_failure_def)

lemma delete_failure_frame [simp]:
  "documents (delete_failure c d) = documents d"
  "documents_fts (delete_failure c d) = documents_fts d"
  "labels (delete_failure c d) = labels d" "archives (delete_failure c d) = archives d"
  "archive_docs (delete_failure c d) = archive_docs d"
  "submissions (delete_failure c d) = submissions d"
  "denylist (delete_failure c d) = denylist d" "settings (delete_failure c d) = settings d"
  by (simp_all add: delete_failure_def)

lemma add_db_frame [simp]:
  "archives (add_db e d) = archives d" "archive_docs (add_db e d) = archive_docs d"
  "submissions (add_db e d) = submissions d" "denylist (add_db e d) = denylist d"
  "settings (add_db e d) = settings d"
  by (simp_all add: add_db_def Let_def)

section \<open>Failures\<close>

definition fail_row_of :: "cid \<Rightarrow> int \<Rightarrow> int \<Rightarrow> string \<Rightarrow> fail_row" where
  "fail_row_of c n now reason = \<lparr>f_cid = c, f_count = n, f_last = now, f_reason = reason\<rparr>"

lemma failure_count_bump:
  "failure_count c' (upsert_failure fail_bump (fail_row_of c 1 now r) d) =
     (if c' = c then Some (attempts d c + 1) else failure_count c' d)"
  using fail_bump_tbl.find_upsert_same [of "fail_row_of c 1 now r" "failures d"]
    fail_bump_tbl.find_upsert_other [of c' "fail_row_of c 1 now r" "failures d"]
  by (auto simp: failure_count_def upsert_failure_def attempts_def fail_row_of_def fail_bump_def
      split: option.splits simp del: sql_find_None)

lemma failure_count_set:
  "failure_count c' (upsert_failure fail_set (fail_row_of c n now r) d) =
     (if c' = c then Some n else failure_count c' d)"
  using fail_set_tbl.find_upsert_same [of "fail_row_of c n now r" "failures d"]
    fail_set_tbl.find_upsert_other [of c' "fail_row_of c n now r" "failures d"]
  by (auto simp: failure_count_def upsert_failure_def fail_row_of_def fail_set_def
      split: option.splits simp del: sql_find_None)

lemma failure_count_touch:
  "failure_count c' (upsert_failure fail_touch (fail_row_of c 0 now r) d) =
     (if c' = c then Some (attempts d c) else failure_count c' d)"
  using fail_touch_tbl.find_upsert_same [of "fail_row_of c 0 now r" "failures d"]
    fail_touch_tbl.find_upsert_other [of c' "fail_row_of c 0 now r" "failures d"]
  by (auto simp: failure_count_def upsert_failure_def attempts_def fail_row_of_def fail_touch_def
      split: option.splits simp del: sql_find_None)

lemma RecordFailure_run:
  assumes "drv s = []"
  shows "RecordFailure now c reason s =
    (let s' = s\<lparr>db := upsert_failure fail_bump (fail_row_of c 1 now reason) (db s)\<rparr>
     in if attempts (db s) c + 1 \<ge> maxRetries then dec_pending s' else s')"
proof -
  have "failure_count c (upsert_failure fail_bump (fail_row_of c 1 now reason) (db s))
      = Some (attempts (db s) c + 1)" by (simp add: failure_count_bump)
  then show ?thesis using assms
    by (simp add: RecordFailure_def tx_simps Let_def flip: fail_row_of_def)
qed

lemma RecordSkip_run:
  assumes "drv s = []"
  shows "RecordSkip now c s = dec_pending (s\<lparr>db := upsert_failure fail_set
    (fail_row_of c maxRetries now ''skipped: not a PDF'') (db s), skipped := skipped s + 1\<rparr>)"
  using assms by (simp add: RecordSkip_def tx_simps fail_row_of_def)

lemma RetryFailure_run:
  assumes "drv s = []"
  shows "RetryFailure c s = (c \<in> f_cid ` set (failures (db s)), s\<lparr>db := delete_failure c (db s)\<rparr>)"
  using assms by (auto simp: RetryFailure_def tx_simps filter_empty_conv)

lemma budget_bump:
  "budget (upsert_failure fail_bump (fail_row_of c 1 now r) d) c' =
     (if c' = c then budget d c - 1 else budget d c')"
  by (auto simp: budget_def is_indexed_def attempts_def [of "upsert_failure _ _ _"] failure_count_bump)
    (simp_all add: attempts_def)

lemma budget_skip:
  "budget (upsert_failure fail_set (fail_row_of c maxRetries now r) d) c' =
     (if c' = c then 0 else budget d c')"
  by (auto simp: budget_def is_indexed_def attempts_def failure_count_set)

lemma failure_count_delete:
  "failure_count c' (delete_failure c d) = (if c' = c then None else failure_count c' d)"
  by (simp add: failure_count_def delete_failure_def sql_find_delete_other)

end
