(* ===== verification/Store_Archives.thy ===== *)
theory Store_Archives
  imports Store_Docs
begin

text \<open>
  \<open>src/store_archives.go\<close>: archives, their membership table and the aggregation of the
  members' labels. \<open>INSERT\<close> into \<open>archives\<close> and the membership table go through their
  primary keys, as the schema declares them.
\<close>

section \<open>Reading archive rows\<close>

definition scanArchive :: "arch_row \<Rightarrow> archive" where
  "scanArchive r = \<lparr>a_cid = r_cid r, a_name = r_name r, a_owner = r_owner r,
     a_status = r_status r, a_docs = [], a_count = r_count r, a_indexed = r_indexed r,
     a_failed = r_failed r, a_top = r_top r, a_fields = r_fields r, a_error = r_error r,
     a_submitted = fromNano (r_submitted r), a_at = fromNano (r_at r)\<rparr>"

definition member_rows :: "cid \<Rightarrow> database \<Rightarrow> member_row list" where
  "member_rows a d = filter (\<lambda>m. m_arch m = a) (archive_docs d)"

definition indexed_members :: "cid \<Rightarrow> database \<Rightarrow> (member_row \<times> doc_row) list" where
  "indexed_members a d =
     [(m, r). m \<leftarrow> member_rows a d, r \<leftarrow> documents d, d_cid r = m_doc m]"

definition failed_members :: "cid \<Rightarrow> database \<Rightarrow> (member_row \<times> fail_row) list" where
  "failed_members a d =
     [(m, f). m \<leftarrow> member_rows a d, f \<leftarrow> failures d, f_cid f = m_doc m \<and> f_count f \<ge> maxRetries]"

definition pending_members :: "cid \<Rightarrow> database \<Rightarrow> member_row list" where
  "pending_members a d = filter (\<lambda>m.
     \<not> list_ex (\<lambda>r. d_cid r = m_doc m) (documents d) \<and>
     \<not> list_ex (\<lambda>f. f_cid f = m_doc m \<and> f_count f \<ge> maxRetries) (failures d)) (member_rows a d)"

definition fillArchiveProgress :: "archive \<Rightarrow> store \<Rightarrow> archive \<times> store" where
  "fillArchiveProgress a s =
     (if a_cid a = [] then (a, s)
      else (let (indexed, s1) = db_scan 0 (\<lambda>d. int (length (indexed_members (a_cid a) d))) s;
                (failed, s2) = db_scan 0 (\<lambda>d. int (length (failed_members (a_cid a) d))) s1
            in (a\<lparr>a_indexed := indexed, a_failed := failed\<rparr>, s2)))"

section \<open>Registering an archive and its state\<close>

definition new_arch_row :: "int \<Rightarrow> cid \<Rightarrow> string \<Rightarrow> arch_row" where
  "new_arch_row now c owner = \<lparr>r_cid = c, r_name = [], r_owner = owner, r_status = Queued,
     r_count = 0, r_indexed = 0, r_failed = 0, r_top = [], r_fields = [], r_error = [],
     r_submitted = now, r_at = 0\<rparr>"

definition archive_exists :: "cid \<Rightarrow> database \<Rightarrow> bool" where
  "archive_exists c d = sql_exists r_cid c (archives d)"

definition update_arch :: "cid \<Rightarrow> (arch_row \<Rightarrow> arch_row) \<Rightarrow> database \<Rightarrow> database" where
  "update_arch c f d = d\<lparr>archives := sql_update (\<lambda>r. r_cid r = c) f (archives d)\<rparr>"

definition insert_arch :: "arch_row \<Rightarrow> database \<Rightarrow> database option" where
  "insert_arch r d = map_option (\<lambda>t. d\<lparr>archives := t\<rparr>) (sql_insert r_cid r (archives d))"

definition add_archive_tx :: "int \<Rightarrow> cid \<Rightarrow> string \<Rightarrow> bool tx" where
  "add_archive_tx now c owner =
     tx_bind (tx_scan False (archive_exists c)) (\<lambda>ex.
       if \<not> ex then tx_then (tx_exec_checked (insert_arch (new_arch_row now c owner))) (tx_return True)
       else if owner \<noteq> []
       then tx_then (tx_exec (update_arch c (\<lambda>r. r\<lparr>r_owner := owner\<rparr>))) (tx_return False)
       else tx_return False)"

definition AddArchive :: "int \<Rightarrow> cid \<Rightarrow> string \<Rightarrow> store \<Rightarrow> bool \<times> store" where
  "AddArchive now c owner s =
     (case store_write (add_archive_tx now c (trim_space owner)) s of
        (Committed created, s') \<Rightarrow> (created, s')
      | (CommitFailed created, s') \<Rightarrow> (created, s')
      | (_, s') \<Rightarrow> (False, s'))"

definition updateArchive :: "(database \<Rightarrow> database) \<Rightarrow> store \<Rightarrow> store" where
  "updateArchive f s = snd (store_write (tx_exec f) s)"

definition MarkArchiveCrawling :: "cid \<Rightarrow> store \<Rightarrow> store" where
  "MarkArchiveCrawling c s = updateArchive (update_arch c (\<lambda>r. r\<lparr>r_status := Crawling\<rparr>)) s"

definition MarkArchiveFailed :: "cid \<Rightarrow> string \<Rightarrow> store \<Rightarrow> store" where
  "MarkArchiveFailed c reason s =
     updateArchive (update_arch c (\<lambda>r. r\<lparr>r_status := Failed, r_error := reason\<rparr>)) s"

definition IndexedCID :: "cid \<Rightarrow> store \<Rightarrow> bool \<times> store" where
  "IndexedCID c s =
     (case db_query (\<lambda>d. sql_exists d_cid c (documents d) \<or> sql_exists r_cid c (archives d)
          \<or> sql_exists m_doc c (archive_docs d)) s of
        (None, s') \<Rightarrow> (False, s')
      | (Some b, s') \<Rightarrow> (b, s'))"

section \<open>Membership\<close>

definition delete_members :: "cid \<Rightarrow> database \<Rightarrow> database" where
  "delete_members a d = d\<lparr>archive_docs := sql_delete (\<lambda>m. m_arch m = a) (archive_docs d)\<rparr>"

definition insert_member :: "cid \<Rightarrow> nat \<times> cid \<Rightarrow> database \<Rightarrow> database" where
  "insert_member a ic d = d\<lparr>archive_docs := sql_insert_ignore m_key
     \<lparr>m_arch = a, m_doc = snd ic, m_pos = int (fst ic)\<rparr> (archive_docs d)\<rparr>"

definition SetArchiveDocs :: "cid \<Rightarrow> cid list \<Rightarrow> store \<Rightarrow> store" where
  "SetArchiveDocs a docs s = snd (store_write
     (tx_then (tx_exec (update_arch a (\<lambda>r. r\<lparr>r_count := int (length docs), r_status := Indexing\<rparr>)))
     (tx_then (tx_exec (delete_members a))
              (tx_foreach (\<lambda>ic. tx_exec (insert_member a ic)) (enumerate 0 docs)))) s)"

definition ArchivesContaining :: "cid \<Rightarrow> store \<Rightarrow> cid list \<times> store" where
  "ArchivesContaining c s =
     (case db_query (\<lambda>d. map m_arch (filter (\<lambda>m. m_doc m = c) (archive_docs d))) s of
        (None, s') \<Rightarrow> ([], s') | (Some out, s') \<Rightarrow> (out, s'))"

definition doc_list :: "cid \<Rightarrow> database \<Rightarrow> cid list" where
  "doc_list a d = map m_doc (sort_key m_pos (member_rows a d))"

definition ArchiveDocCIDs :: "cid \<Rightarrow> store \<Rightarrow> cid list \<times> store" where
  "ArchiveDocCIDs a s =
     (case db_query (doc_list a) s of (None, s') \<Rightarrow> ([], s') | (Some out, s') \<Rightarrow> (out, s'))"

definition ResumableArchives :: "store \<Rightarrow> cid list \<times> store" where
  "ResumableArchives s =
     (case db_query (\<lambda>d. map r_cid (filter (\<lambda>r. r_status r \<in> {Queued, Crawling, Indexing})
          (archives d))) s of
        (None, s') \<Rightarrow> ([], s') | (Some out, s') \<Rightarrow> (out, s'))"

section \<open>Finalizing an archive\<close>

definition bump_keyword :: "string \<Rightarrow> counter \<Rightarrow> counter" where
  "bump_keyword kw m = (let kw = to_lower (trim_space kw) in if kw = [] then m else bump kw m)"

definition bump_field :: "string \<Rightarrow> counter \<Rightarrow> counter" where
  "bump_field bf m = (let bf = trim_space bf in if bf = [] then m else bump bf m)"

definition aggregate :: "(string list \<times> string) list \<Rightarrow> counter \<times> counter \<times> int" where
  "aggregate rows = fold (\<lambda>(kws, bf) (kw_count, field_count, indexed).
      (fold bump_keyword kws kw_count, bump_field bf field_count, indexed + 1)) rows ([], [], 0)"

definition finalize_tx ::
  "int \<Rightarrow> cid \<Rightarrow> int \<Rightarrow> int \<Rightarrow> string list \<Rightarrow> field_count list \<Rightarrow> arch_status \<Rightarrow> unit tx" where
  "finalize_tx now c indexed failed topKeywords broadFields status =
     tx_bind (tx_scan [] (\<lambda>d. case sql_find r_cid c (archives d) of None \<Rightarrow> [] | Some r \<Rightarrow> r_name r))
       (\<lambda>name.
         let name = (if name = [] then (case broadFields of f # _ \<Rightarrow> fc_field f | [] \<Rightarrow> c) else name)
         in tx_exec (update_arch c (\<lambda>r. r\<lparr>r_indexed := indexed, r_failed := failed,
              r_top := topKeywords, r_fields := broadFields, r_status := status,
              r_at := now, r_name := name\<rparr>)))"

definition FinalizeArchive :: "int \<Rightarrow> cid \<Rightarrow> store \<Rightarrow> store" where
  "FinalizeArchive now c s =
     (let (ex, s1) = db_scan False (archive_exists c) s in
      if \<not> ex then s1
      else (case db_query (\<lambda>d. map (\<lambda>(m, r). (d_keywords r, d_broad r)) (indexed_members c d)) s1 of
          (None, s2) \<Rightarrow> s2
        | (Some rows, s2) \<Rightarrow>
            (let (kw_count, field_count, indexed) = aggregate rows;
                 (failed, s3) = db_scan 0 (\<lambda>d. int (length (failed_members c d))) s2;
                 (pend, s4) = db_scan 0 (\<lambda>d. int (length (pending_members c d))) s3;
                 topKeywords = topCounted kw_count 12;
                 broadFields = topFields field_count;
                 status = (if pend > 0 then Indexing else Done)
             in snd (store_write
                  (finalize_tx now c indexed failed topKeywords broadFields status) s4))))"

section \<open>Listing and searching archives\<close>

fun fill_all :: "archive list \<Rightarrow> store \<Rightarrow> archive list \<times> store" where
  "fill_all [] s = ([], s)"
| "fill_all (a # as) s =
     (let (a', s1) = fillArchiveProgress a s; (as', s2) = fill_all as s1 in (a' # as', s2))"

definition Archives :: "store \<Rightarrow> archive list \<times> store" where
  "Archives s = (case db_query (\<lambda>d. order_desc r_submitted (archives d)) s of
      (None, s') \<Rightarrow> ([], s')
    | (Some rows, s') \<Rightarrow> fill_all (map scanArchive rows) s')"

definition archive_haystack :: "archive \<Rightarrow> string" where
  "archive_haystack a =
     fold (\<lambda>f hay. hay @ '' '' @ to_lower (fc_field f)) (a_fields a)
       (to_lower (a_name a @ '' '' @ a_owner a @ '' '' @ join '' '' (a_top a)))"

definition SearchArchives :: "string \<Rightarrow> store \<Rightarrow> archive list \<times> store" where
  "SearchArchives query s =
     (let query = to_lower (trim_space query);
          (all, s') = Archives s
      in if query = [] then (all, s')
         else (filter (\<lambda>a. list_all (\<lambda>t. contains (archive_haystack a) t) (str_fields query)) all, s'))"

definition ArchiveRefs :: "cid list \<Rightarrow> store \<Rightarrow> archive_ref list \<times> store" where
  "ArchiveRefs cids s =
     (if cids = [] then ([], s)
      else (case db_query (\<lambda>d. filter (\<lambda>r. r_cid r \<in> set cids) (archives d)) s of
          (None, s') \<Rightarrow> ([], s')
        | (Some rows, s') \<Rightarrow>
            (map (\<lambda>c. case sql_find r_cid c rows of
                 Some r \<Rightarrow> \<lparr>ref_cid = r_cid r, ref_name = r_name r, ref_status = status_name (r_status r)\<rparr>
               | None \<Rightarrow> \<lparr>ref_cid = c, ref_name = [], ref_status = []\<rparr>) cids, s')))"

definition GetArchive :: "cid \<Rightarrow> store \<Rightarrow> (archive \<times> index_entry list) option \<times> store" where
  "GetArchive c s =
     (case db_query (\<lambda>d. sql_find r_cid c (archives d)) s of
        (None, s1) \<Rightarrow> (None, s1)
      | (Some None, s1) \<Rightarrow> (None, s1)
      | (Some (Some row), s1) \<Rightarrow>
          (let (docs, s2) = ArchiveDocCIDs c s1;
               (a, s3) = fillArchiveProgress ((scanArchive row)\<lparr>a_docs := docs\<rparr>) s2
           in case db_query (\<lambda>d. map snd (sort_key (\<lambda>(m, r). m_pos m) (indexed_members c d))) s3 of
               (None, s4) \<Rightarrow> (Some (a, []), s4)
             | (Some rows, s4) \<Rightarrow> (let (es, s5) = scanEntries rows s4 in (Some (a, es), s5))))"

definition ArchiveFailures :: "cid \<Rightarrow> store \<Rightarrow> failed_doc list \<times> store" where
  "ArchiveFailures c s =
     (case db_query (\<lambda>d. order_desc f_last (map snd (failed_members c d))) s of
        (None, s') \<Rightarrow> ([], s')
      | (Some rows, s') \<Rightarrow> (scanFailures rows, s'))"

section \<open>Counting members\<close>

text \<open>The joins of the queries, read member by member.\<close>

lemma indexed_members_alt:
  "indexed_members a d =
     concat (map (\<lambda>m. map (Pair m) (filter (\<lambda>r. d_cid r = m_doc m) (documents d))) (member_rows a d))"
  by (simp add: indexed_members_def concat_map_if)

lemma failed_members_alt:
  "failed_members a d = concat (map (\<lambda>m. map (Pair m)
     (filter (\<lambda>f. f_cid f = m_doc m \<and> f_count f \<ge> maxRetries) (failures d))) (member_rows a d))"
  by (simp add: failed_members_def concat_map_if)

lemma length_concat_01:
  "(\<And>x. x \<in> set xs \<Longrightarrow> length (f x) = (if P x then 1 else 0)) \<Longrightarrow>
     length (concat (map f xs)) = length (filter P xs)"
  by (induction xs) auto

lemma length_indexed_members:
  assumes "distinct (map d_cid (documents d))"
  shows "length (indexed_members a d) = length (filter (\<lambda>m. is_indexed d (m_doc m)) (member_rows a d))"
  unfolding indexed_members_alt
proof (rule length_concat_01)
  fix m
  show "length (map (Pair m) (filter (\<lambda>r. d_cid r = m_doc m) (documents d)))
      = (if is_indexed d (m_doc m) then 1 else 0)"
    using filter_key [OF assms, of "m_doc m"] by (auto simp: is_indexed_def split: option.splits)
qed

lemma failed_filter:
  assumes "failures_ok d"
  shows "length (filter (\<lambda>f. f_cid f = c \<and> f_count f \<ge> maxRetries) (failures d))
    = (if is_failed d c then 1 else 0)"
proof -
  have "filter (\<lambda>f. f_cid f = c \<and> f_count f \<ge> maxRetries) (failures d)
      = filter (\<lambda>f. f_count f \<ge> maxRetries) (filter (\<lambda>f. f_cid f = c) (failures d))"
    by (simp add: conj_commute)
  also have "filter (\<lambda>f. f_cid f = c) (failures d)
      = (case sql_find f_cid c (failures d) of None \<Rightarrow> [] | Some r \<Rightarrow> [r])"
    using assms by (intro filter_key) (simp add: failures_ok_def)
  finally show ?thesis
    by (auto simp: is_failed_def attempts_def failure_count_def maxRetries_def
        split: option.splits simp del: sql_find_None)
qed

lemma length_failed_members:
  assumes "failures_ok d"
  shows "length (failed_members a d) = length (filter (\<lambda>m. is_failed d (m_doc m)) (member_rows a d))"
  unfolding failed_members_alt by (rule length_concat_01) (simp add: failed_filter [OF assms])

lemma pending_members_alt:
  assumes "failures_ok d"
  shows "pending_members a d = filter (\<lambda>m. budget d (m_doc m) > 0) (member_rows a d)"
proof -
  have "list_ex (\<lambda>f. f_cid f = c \<and> f_count f \<ge> maxRetries) (failures d) \<longleftrightarrow> is_failed d c" for c
    using is_failed_iff [OF assms, of c] by (simp add: perm_failed_iff list_ex_iff)
  then show ?thesis
    by (simp add: pending_members_def budget_pos is_indexed_def list_ex_iff image_iff eq_commute)
qed

text \<open>A document is settled once: it is not both in the index and permanently failed.\<close>

definition settled_once :: "database \<Rightarrow> bool" where
  "settled_once d \<longleftrightarrow> (\<forall>r \<in> set (documents d). \<not> is_failed d (d_cid r))"

lemma settled_once_iff: "settled_once d \<longleftrightarrow> (\<forall>c. \<not> (is_indexed d c \<and> is_failed d c))"
  by (auto simp: settled_once_def is_indexed_def)

lemma members_account:
  assumes "distinct (map d_cid (documents d))" and "failures_ok d" and "settled_once d"
  shows "length (indexed_members a d) + length (failed_members a d) + length (pending_members a d)
    = length (member_rows a d)"
proof -
  have "length (filter P xs) + length (filter Q xs) + length (filter R xs) = length xs"
    if "\<And>x. P x \<or> Q x \<or> R x" "\<And>x. \<not> (P x \<and> Q x)" "\<And>x. R x \<longleftrightarrow> \<not> P x \<and> \<not> Q x"
    for P Q R and xs :: "member_row list"
  proof (induction xs)
    case (Cons x xs)
    then show ?case using that(2)[of x] that(3)[of x] by auto
  qed simp
  from this [of "\<lambda>m. is_indexed d (m_doc m)" "\<lambda>m. is_failed d (m_doc m)" "\<lambda>m. budget d (m_doc m) > 0"]
  show ?thesis
    unfolding length_indexed_members [OF assms(1)] length_failed_members [OF assms(2)]
      pending_members_alt [OF assms(2)]
    using assms(3) by (auto simp: budget_pos settled_once_iff)
qed

section \<open>Effects without driver errors\<close>

definition add_archive_db :: "int \<Rightarrow> cid \<Rightarrow> string \<Rightarrow> database \<Rightarrow> database" where
  "add_archive_db now c owner d =
     (if \<not> archive_exists c d then d\<lparr>archives := archives d @ [new_arch_row now c owner]\<rparr>
      else if owner \<noteq> [] then update_arch c (\<lambda>r. r\<lparr>r_owner := owner\<rparr>) d else d)"

lemma AddArchive_run:
  assumes "drv s = []"
  shows "AddArchive now c owner s = (\<not> archive_exists c (db s),
    s\<lparr>db := add_archive_db now c (trim_space owner) (db s)\<rparr>)"
  using assms
  by (auto simp: AddArchive_def add_archive_tx_def tx_simps add_archive_db_def insert_arch_def
      sql_insert_def archive_exists_def new_arch_row_def)

lemma updateArchive_run: "drv s = [] \<Longrightarrow> updateArchive f s = s\<lparr>db := f (db s)\<rparr>"
  by (simp add: updateArchive_def tx_simps)

definition member_row_of :: "cid \<Rightarrow> nat \<times> cid \<Rightarrow> member_row" where
  "member_row_of a ic = \<lparr>m_arch = a, m_doc = snd ic, m_pos = int (fst ic)\<rparr>"

definition set_docs_db :: "cid \<Rightarrow> cid list \<Rightarrow> database \<Rightarrow> database" where
  "set_docs_db a docs d = fold (insert_member a) (enumerate 0 docs)
     (delete_members a (update_arch a (\<lambda>r. r\<lparr>r_count := int (length docs), r_status := Indexing\<rparr>) d))"

lemma SetArchiveDocs_run: "drv s = [] \<Longrightarrow> SetArchiveDocs a docs s = s\<lparr>db := set_docs_db a docs (db s)\<rparr>"
  by (simp add: SetArchiveDocs_def tx_simps set_docs_db_def)

lemma fold_insert_member:
  "distinct (map snd ics) \<Longrightarrow> \<forall>ic \<in> set ics. (a, snd ic) \<notin> m_key ` set (archive_docs d) \<Longrightarrow>
     fold (insert_member a) ics d = d\<lparr>archive_docs := archive_docs d @ map (member_row_of a) ics\<rparr>"
proof (induction ics arbitrary: d)
  case (Cons ic ics)
  let ?d = "d\<lparr>archive_docs := archive_docs d @ [member_row_of a ic]\<rparr>"
  have "insert_member a ic d = ?d"
    using Cons.prems by (auto simp: insert_member_def sql_insert_ignore_def member_row_of_def)
  moreover have "(a, snd ic') \<notin> m_key ` set (archive_docs ?d)" if "ic' \<in> set ics" for ic'
  proof -
    have "snd ic' \<noteq> snd ic" using Cons.prems(1) that by (metis distinct.simps(2) image_eqI list.simps(9) set_map)
    moreover have "(a, snd ic') \<notin> m_key ` set (archive_docs d)" using Cons.prems(2) that by simp
    ultimately show ?thesis by (simp add: member_row_of_def)
  qed
  then have "fold (insert_member a) ics ?d
      = ?d\<lparr>archive_docs := archive_docs ?d @ map (member_row_of a) ics\<rparr>"
    using Cons.prems(1) by (intro Cons.IH) simp_all
  ultimately show ?case by simp
qed simp

lemma set_docs_distinct:
  assumes "distinct docs"
  shows "set_docs_db a docs d = (update_arch a (\<lambda>r. r\<lparr>r_count := int (length docs),
      r_status := Indexing\<rparr>) d)\<lparr>archive_docs := sql_delete (\<lambda>m. m_arch m = a) (archive_docs d)
        @ map (member_row_of a) (enumerate 0 docs)\<rparr>"
proof -
  have "fold (insert_member a) (enumerate 0 docs) d'
      = d'\<lparr>archive_docs := archive_docs d' @ map (member_row_of a) (enumerate 0 docs)\<rparr>"
    if "\<forall>m \<in> set (archive_docs d'). m_arch m \<noteq> a" for d'
    using assms that by (intro fold_insert_member) auto
  then show ?thesis
    by (subst set_docs_db_def) (simp add: delete_members_def update_arch_def)
qed

lemma update_arch_frame [simp]:
  "documents (update_arch c f d) = documents d" "documents_fts (update_arch c f d) = documents_fts d"
  "labels (update_arch c f d) = labels d" "failures (update_arch c f d) = failures d"
  "archive_docs (update_arch c f d) = archive_docs d"
  "submissions (update_arch c f d) = submissions d" "denylist (update_arch c f d) = denylist d"
  "settings (update_arch c f d) = settings d"
  by (simp_all add: update_arch_def)

lemma archive_exists_update:
  assumes "\<And>r. r_cid (f r) = r_cid r"
  shows "archive_exists c (update_arch c' f d) = archive_exists c d"
proof -
  have "map r_cid (archives (update_arch c' f d)) = map r_cid (archives d)"
    by (simp add: update_arch_def assms)
  then have "r_cid ` set (archives (update_arch c' f d)) = r_cid ` set (archives d)" by (metis set_map)
  then show ?thesis by (simp add: archive_exists_def)
qed

lemma archive_exists_set_docs:
  assumes "distinct docs"
  shows "archive_exists c (set_docs_db a docs d) = archive_exists c d"
proof -
  have "archive_exists c (set_docs_db a docs d) = archive_exists c
      (update_arch a (\<lambda>r. r\<lparr>r_count := int (length docs), r_status := Indexing\<rparr>) d)"
    by (simp add: archive_exists_def set_docs_distinct [OF assms])
  then show ?thesis by (simp add: archive_exists_update)
qed

lemma member_rows_set_docs:
  assumes "distinct docs"
  shows "member_rows b (set_docs_db a docs d) =
    (if b = a then map (member_row_of a) (enumerate 0 docs) else member_rows b d)"
proof -
  have "filter (\<lambda>m. m_arch m = b) (map (member_row_of a) xs)
      = (if b = a then map (member_row_of a) xs else [])" for xs
    by (induction xs) (auto simp: member_row_of_def)
  moreover have "filter (\<lambda>m. m_arch m = b) (sql_delete (\<lambda>m. m_arch m = a) t)
      = (if b = a then [] else filter (\<lambda>m. m_arch m = b) t)" for t :: "member_row list"
    by (induction t) (auto simp: sql_delete_def)
  ultimately show ?thesis by (simp add: member_rows_def set_docs_distinct [OF assms])
qed

lemma doc_list_set_docs:
  assumes "distinct docs"
  shows "doc_list b (set_docs_db a docs d) = (if b = a then docs else doc_list b d)"
proof -
  have "sorted (map m_pos (map (member_row_of a) (enumerate 0 docs)))"
    by (simp add: member_row_of_def comp_def enumerate_eq_zip sorted_iff_nth_mono)
  then have "sort_key m_pos (map (member_row_of a) (enumerate 0 docs))
      = map (member_row_of a) (enumerate 0 docs)" by (rule sort_key_id_if_sorted)
  moreover have "map m_doc (map (member_row_of a) (enumerate 0 docs)) = docs"
    by (simp add: member_row_of_def comp_def)
  ultimately show ?thesis by (simp add: doc_list_def member_rows_set_docs [OF assms])
qed

end
