(* ===== verification/Store_Admin.thy ===== *)
theory Store_Admin
  imports Store_Archives
begin

text \<open>
  \<open>src/store_admin.go\<close>: review mode, the review queue, the denylist, and the removal of
  documents and archives. A \<open>QueryRow(...).Scan(...)\<close> whose error the code drops is
  \<open>tx_scan\<close>: under a driver error the variable keeps its zero value.
\<close>

section \<open>Review mode\<close>

definition settingReviewEnabled :: string where "settingReviewEnabled = ''review_enabled''"

definition setting_upd :: "setting_row \<Rightarrow> setting_row \<Rightarrow> setting_row" where
  "setting_upd old new = (fst old, snd new)"

definition loadReviewEnabled :: "store \<Rightarrow> bool \<times> store" where
  "loadReviewEnabled s =
     (let (v, s') = db_scan [] (\<lambda>d. case sql_find fst settingReviewEnabled (settings d) of
          None \<Rightarrow> [] | Some kv \<Rightarrow> snd kv) s
      in (v = ''1'', s'))"

definition SetReviewEnabled :: "bool \<Rightarrow> store \<Rightarrow> store" where
  "SetReviewEnabled enabled s =
     (let v = (if enabled then ''1'' else ''0'') in
      case store_write (tx_exec (\<lambda>d. d\<lparr>settings :=
             sql_upsert fst setting_upd (settingReviewEnabled, v) (settings d)\<rparr>)) s of
        (Committed _, s') \<Rightarrow> s'\<lparr>review_enabled := enabled\<rparr>
      | (_, s') \<Rightarrow> s')"

section \<open>The denylist and the review queue\<close>

definition IsDenied :: "cid \<Rightarrow> store \<Rightarrow> bool \<times> store" where
  "IsDenied c s = db_scan False (\<lambda>d. sql_exists fst c (denylist d)) s"

definition delete_submission :: "cid \<Rightarrow> database \<Rightarrow> database" where
  "delete_submission c d = d\<lparr>submissions := sql_delete (\<lambda>r. s_cid r = c) (submissions d)\<rparr>"

definition Deny :: "int \<Rightarrow> cid \<Rightarrow> store \<Rightarrow> store" where
  "Deny now c s = snd (store_write
     (tx_then (tx_exec (\<lambda>d. d\<lparr>denylist := sql_replace fst (c, now) (denylist d)\<rparr>))
              (tx_exec (delete_submission c))) s)"

definition sub_upd :: "sub_row \<Rightarrow> sub_row \<Rightarrow> sub_row" where
  "sub_upd old new = old\<lparr>s_kind := s_kind new, s_owner := s_owner new, s_at := s_at new\<rparr>"

definition AddSubmission :: "int \<Rightarrow> cid \<Rightarrow> sub_kind \<Rightarrow> string \<Rightarrow> store \<Rightarrow> store" where
  "AddSubmission now c kind owner s = snd (store_write
     (tx_exec (\<lambda>d. d\<lparr>submissions := sql_upsert s_cid sub_upd
        \<lparr>s_cid = c, s_kind = kind, s_owner = trim_space owner, s_at = now\<rparr> (submissions d)\<rparr>)) s)"

definition submission_of :: "sub_row \<Rightarrow> submission" where
  "submission_of r = \<lparr>sb_cid = s_cid r, sb_kind = s_kind r, sb_owner = s_owner r,
     sb_at = fromNano (s_at r)\<rparr>"

definition Submissions :: "store \<Rightarrow> submission list \<times> store" where
  "Submissions s = (case db_query (\<lambda>d. order_desc s_at (submissions d)) s of
      (None, s') \<Rightarrow> ([], s')
    | (Some rows, s') \<Rightarrow> (map submission_of rows, s'))"

definition take_submission_tx :: "cid \<Rightarrow> sub_row option tx" where
  "take_submission_tx c =
     tx_bind (tx_query (\<lambda>d. sql_find s_cid c (submissions d))) (\<lambda>row.
       case row of None \<Rightarrow> tx_return None
       | Some r \<Rightarrow> tx_then (tx_exec (delete_submission c)) (tx_return (Some r)))"

definition TakeSubmission :: "cid \<Rightarrow> store \<Rightarrow> submission option \<times> store" where
  "TakeSubmission c s = (case store_write (take_submission_tx c) s of
      (Committed r, s') \<Rightarrow> (map_option submission_of r, s')
    | (_, s') \<Rightarrow> (None, s'))"

section \<open>Removing a document\<close>

definition lower_counts :: "cid \<Rightarrow> bool \<Rightarrow> bool \<Rightarrow> database \<Rightarrow> database" where
  "lower_counts c idx fail d = d\<lparr>archives := sql_update
     (\<lambda>r. list_ex (\<lambda>m. m_arch m = r_cid r \<and> m_doc m = c) (archive_docs d))
     (\<lambda>r. r\<lparr>r_count := (if r_count r > 0 then r_count r - 1 else 0),
            r_indexed := (if idx \<and> r_indexed r > 0 then r_indexed r - 1 else r_indexed r),
            r_failed := (if fail \<and> r_failed r > 0 then r_failed r - 1 else r_failed r)\<rparr>)
     (archives d)\<rparr>"

definition delete_doc :: "cid \<Rightarrow> database \<Rightarrow> database" where
  "delete_doc c d = d\<lparr>documents := sql_delete (\<lambda>r. d_cid r = c) (documents d)\<rparr>"

definition delete_doc_members :: "cid \<Rightarrow> database \<Rightarrow> database" where
  "delete_doc_members c d = d\<lparr>archive_docs := sql_delete (\<lambda>m. m_doc m = c) (archive_docs d)\<rparr>"

definition deleteDocumentTx :: "cid \<Rightarrow> unit tx" where
  "deleteDocumentTx c =
     tx_bind (tx_scan None (doc_rowid c)) (\<lambda>rowid.
     tx_bind (tx_scan 0 (\<lambda>d. case failure_count c d of None \<Rightarrow> 0 | Some n \<Rightarrow> n)) (\<lambda>failCount.
     tx_then (tx_exec (lower_counts c (rowid \<noteq> None) (failCount \<ge> maxRetries)))
    (tx_then (case rowid of None \<Rightarrow> tx_return () | Some i \<Rightarrow> tx_exec (delete_fts i))
    (tx_then (tx_exec (delete_doc c))
    (tx_then (tx_exec (delete_labels c))
    (tx_then (tx_exec (delete_failure c))
             (tx_exec (delete_doc_members c))))))))"

definition delete_document_tx :: "cid \<Rightarrow> bool tx" where
  "delete_document_tx c =
     tx_bind (tx_scan False (\<lambda>d. sql_exists d_cid c (documents d))) (\<lambda>hasEntry.
     tx_bind (tx_scan False (\<lambda>d. sql_exists f_cid c (failures d))) (\<lambda>hasFailure.
       if \<not> hasEntry \<and> \<not> hasFailure then tx_return False
       else tx_then (deleteDocumentTx c) (tx_return True)))"

definition DeleteDocument :: "cid \<Rightarrow> store \<Rightarrow> bool \<times> store" where
  "DeleteDocument c s = (case store_write (delete_document_tx c) s of
      (Committed found, s') \<Rightarrow> (found, s') | (_, s') \<Rightarrow> (False, s'))"

section \<open>Removing an archive\<close>

definition other_members :: "cid \<Rightarrow> cid \<Rightarrow> database \<Rightarrow> nat" where
  "other_members a c d = length (filter (\<lambda>m. m_doc m = c \<and> m_arch m \<noteq> a) (archive_docs d))"

definition remove_member_doc :: "cid \<Rightarrow> cid \<Rightarrow> unit tx" where
  "remove_member_doc a c =
     tx_bind (tx_scan 0 (other_members a c)) (\<lambda>others.
       if others > 0 then tx_return () else deleteDocumentTx c)"

definition delete_archive_row :: "cid \<Rightarrow> database \<Rightarrow> database" where
  "delete_archive_row a d = d\<lparr>archives := sql_delete (\<lambda>r. r_cid r = a) (archives d)\<rparr>"

definition delete_archive_tx :: "cid \<Rightarrow> bool tx" where
  "delete_archive_tx a =
     tx_bind (tx_scan False (archive_exists a)) (\<lambda>ex.
       if \<not> ex then tx_return False
       else tx_bind (tx_query (\<lambda>d. map m_doc (member_rows a d))) (\<lambda>docs.
            tx_then (tx_foreach (remove_member_doc a) docs)
           (tx_then (tx_exec (delete_members a))
           (tx_then (tx_exec (delete_archive_row a))
                    (tx_return True)))))"

definition DeleteArchive :: "cid \<Rightarrow> store \<Rightarrow> bool \<times> store" where
  "DeleteArchive a s = (case store_write (delete_archive_tx a) s of
      (Committed found, s') \<Rightarrow> (found, s') | (_, s') \<Rightarrow> (False, s'))"

section \<open>The tables of this file\<close>

interpretation setting_tbl: pk_table fst setting_upd
  by unfold_locales (simp add: setting_upd_def)

interpretation sub_tbl: pk_table s_cid sub_upd
  by unfold_locales (simp add: sub_upd_def)

section \<open>Effects without driver errors\<close>

definition delete_doc_db :: "cid \<Rightarrow> database \<Rightarrow> database" where
  "delete_doc_db c d = delete_doc_members c (delete_failure c (delete_labels c (delete_doc c
     (case doc_rowid c d of None \<Rightarrow> lower_counts c False (is_failed d c) d
      | Some i \<Rightarrow> delete_fts i (lower_counts c True (is_failed d c) d)))))"

lemma deleteDocumentTx_run: "deleteDocumentTx c (d, []) = (Inr (), (delete_doc_db c d, []))"
  by (simp add: deleteDocumentTx_def tx_simps delete_doc_db_def is_failed_def attempts_def
      split: option.splits)

lemma DeleteDocument_run:
  assumes "drv s = []"
  shows "DeleteDocument c s =
    (let found = (is_indexed (db s) c \<or> c \<in> f_cid ` set (failures (db s)))
     in (found, if found then s\<lparr>db := delete_doc_db c (db s)\<rparr> else s))"
  using assms
  by (auto simp: DeleteDocument_def delete_document_tx_def tx_simps deleteDocumentTx_run
      is_indexed_def Let_def)

definition remove_member_db :: "cid \<Rightarrow> cid \<Rightarrow> database \<Rightarrow> database" where
  "remove_member_db a c d = (if other_members a c d > 0 then d else delete_doc_db c d)"

definition delete_archive_db :: "cid \<Rightarrow> database \<Rightarrow> database" where
  "delete_archive_db a d = delete_archive_row a (delete_members a
     (fold (remove_member_db a) (map m_doc (member_rows a d)) d))"

lemma remove_members_run:
  "tx_foreach (remove_member_doc a) cs (d, []) = (Inr (), (fold (remove_member_db a) cs d, []))"
proof (induction cs arbitrary: d)
  case (Cons c cs)
  have "remove_member_doc a c (d, []) = (Inr (), (remove_member_db a c d, []))"
    by (simp add: remove_member_doc_def tx_simps deleteDocumentTx_run remove_member_db_def)
  then show ?case using Cons.IH by (simp add: tx_simps)
qed (simp add: tx_simps)

lemma DeleteArchive_run:
  assumes "drv s = []"
  shows "DeleteArchive a s = (archive_exists a (db s),
    if archive_exists a (db s) then s\<lparr>db := delete_archive_db a (db s)\<rparr> else s)"
  using assms
  by (auto simp: DeleteArchive_def delete_archive_tx_def tx_simps remove_members_run
      delete_archive_db_def)

end
