(* ===== verification/Store_Invariant.thy ===== *)
theory Store_Invariant
  imports Store_Admin
begin

text \<open>
  What the tables keep true together. \<open>store_ok\<close> says that primary keys are unique, the
  full-text and label tables mirror the documents, no document is both indexed and permanently
  failed, every membership row names an existing archive, and the stored document count of an
  archive is its number of membership rows. Every operation of the store keeps it; the two
  lookups the callers make first (a document that is recorded as failed or skipped was pending,
  the archive whose documents are set exists) are premises of the step relation.
\<close>

section \<open>Archives and their members\<close>

definition members_ok :: "database \<Rightarrow> bool" where
  "members_ok d \<longleftrightarrow> distinct (map r_cid (archives d)) \<and> distinct (map m_key (archive_docs d))
     \<and> m_arch ` set (archive_docs d) \<subseteq> r_cid ` set (archives d)
     \<and> (\<forall>r \<in> set (archives d). r_count r = int (length (member_rows (r_cid r) d)))"

definition store_ok :: "database \<Rightarrow> bool" where
  "store_ok d \<longleftrightarrow> docs_ok d \<and> labels_ok d \<and> failures_ok d \<and> settled_once d \<and> members_ok d"

lemma store_ok_empty: "store_ok empty_db"
  by (simp add: store_ok_def empty_db_def docs_ok_def labels_ok_def failures_ok_def
      settled_once_def members_ok_def labels_of_docs_def)

lemma store_ok_cong:
  assumes "documents d' = documents d" "documents_fts d' = documents_fts d" "labels d' = labels d"
    "failures d' = failures d" "archives d' = archives d" "archive_docs d' = archive_docs d"
  shows "store_ok d' = store_ok d"
  using assms by (simp add: store_ok_def docs_ok_def labels_ok_def failures_ok_def settled_once_def
      members_ok_def is_failed_def attempts_def failure_count_def member_rows_def)

lemma members_ok_cong:
  "archives d' = archives d \<Longrightarrow> archive_docs d' = archive_docs d \<Longrightarrow> members_ok d' = members_ok d"
  by (simp add: members_ok_def member_rows_def)

lemma docs_labels_cong:
  "documents d' = documents d \<Longrightarrow> documents_fts d' = documents_fts d \<Longrightarrow> docs_ok d' = docs_ok d"
  "documents d' = documents d \<Longrightarrow> labels d' = labels d \<Longrightarrow> labels_ok d' = labels_ok d"
  by (simp_all add: docs_ok_def labels_ok_def)

lemma settled_once_cong:
  "documents d' = documents d \<Longrightarrow> failures d' = failures d \<Longrightarrow> settled_once d' = settled_once d"
  by (simp add: settled_once_def is_failed_def attempts_def failure_count_def)

section \<open>Documents and failures\<close>

lemma is_failed_add: "is_failed (add_db e d) c \<longleftrightarrow> c \<noteq> e_cid e \<and> is_failed d c"
  by (auto simp: is_failed_def attempts_def failure_count_add maxRetries_def)

lemma store_ok_add: "store_ok d \<Longrightarrow> store_ok (add_db e d)"
  using members_ok_cong [of "add_db e d" d]
  by (auto simp: store_ok_def docs_ok_add labels_ok_add failures_ok_add settled_once_iff
      is_indexed_add is_failed_add)

lemma is_indexed_upsert [simp]: "is_indexed (upsert_failure u f d) c = is_indexed d c"
  by (simp add: is_indexed_def)

lemma store_ok_upsert:
  assumes "store_ok d" and "pk_table f_cid u" and "0 \<le> f_count f"
    and "\<And>old. 0 \<le> f_count old \<Longrightarrow> 0 \<le> f_count (u old f)"
    and "settled_once (upsert_failure u f d)"
  shows "store_ok (upsert_failure u f d)"
  using assms failures_ok_upsert [of u d f] members_ok_cong [of "upsert_failure u f d" d]
    docs_labels_cong [of "upsert_failure u f d" d]
  by (simp add: store_ok_def)

lemma store_ok_bump:
  assumes "store_ok d" and "\<not> is_indexed d c"
  shows "store_ok (upsert_failure fail_bump (fail_row_of c 1 now r) d)"
proof (rule store_ok_upsert [OF assms(1)])
  show "settled_once (upsert_failure fail_bump (fail_row_of c 1 now r) d)"
    using assms by (auto simp: store_ok_def settled_once_iff is_failed_def
        attempts_def [of "upsert_failure _ _ _"] failure_count_bump)
      (auto simp: attempts_def)
qed (use fail_bump_tbl.pk_table_axioms in \<open>auto simp: fail_bump_def fail_row_of_def\<close>)

lemma store_ok_skip:
  assumes "store_ok d" and "\<not> is_indexed d c" and "0 \<le> n"
  shows "store_ok (upsert_failure fail_set (fail_row_of c n now r) d)"
proof (rule store_ok_upsert [OF assms(1)])
  show "settled_once (upsert_failure fail_set (fail_row_of c n now r) d)"
    using assms by (auto simp: store_ok_def settled_once_iff is_failed_def attempts_def
        failure_count_set)
qed (use assms(3) fail_set_tbl.pk_table_axioms in \<open>auto simp: fail_set_def fail_row_of_def\<close>)

lemma store_ok_delete_failures:
  assumes "store_ok d"
  shows "store_ok (d\<lparr>failures := sql_delete P (failures d)\<rparr>)"
proof -
  let ?d = "d\<lparr>failures := sql_delete P (failures d)\<rparr>"
  have ok: "failures_ok d" "failures_ok ?d" using assms by (auto simp: store_ok_def failures_ok_def)
  have "is_failed ?d c \<Longrightarrow> is_failed d c" for c
    unfolding is_failed_iff [OF ok(1)] is_failed_iff [OF ok(2)] perm_failed_iff by auto
  moreover have "is_indexed ?d = is_indexed d" by (simp add: is_indexed_def fun_eq_iff)
  ultimately have "settled_once ?d" using assms by (auto simp: store_ok_def settled_once_iff)
  then show ?thesis
    using assms ok members_ok_cong [of ?d d] docs_labels_cong [of ?d d] by (simp add: store_ok_def)
qed

section \<open>Archive rows\<close>

lemma members_ok_update:
  assumes "members_ok d" and f: "\<And>r. r_cid (f r) = r_cid r" "\<And>r. r_count (f r) = r_count r"
  shows "members_ok (update_arch c f d)"
proof -
  have "map r_cid (archives (update_arch c f d)) = map r_cid (archives d)"
    by (simp add: update_arch_def f)
  moreover from this have "r_cid ` set (archives (update_arch c f d)) = r_cid ` set (archives d)"
    by (metis set_map)
  moreover have "r_count r = int (length (member_rows (r_cid r) d))"
    if "r \<in> set (archives (update_arch c f d))" for r
    using that assms(1) by (auto simp: members_ok_def update_arch_def set_sql_update f split: if_splits)
  moreover have "member_rows x (update_arch c f d) = member_rows x d" for x
    by (simp add: member_rows_def)
  ultimately show ?thesis using assms(1) by (simp add: members_ok_def)
qed

lemma store_ok_update:
  assumes "store_ok d" and "\<And>r. r_cid (f r) = r_cid r" "\<And>r. r_count (f r) = r_count r"
  shows "store_ok (update_arch c f d)"
  using assms members_ok_update [of d f c] docs_labels_cong [of "update_arch c f d" d]
    settled_once_cong [of "update_arch c f d" d]
  by (simp add: store_ok_def failures_ok_def)

lemma member_rows_none:
  "members_ok d \<Longrightarrow> c \<notin> r_cid ` set (archives d) \<Longrightarrow> member_rows c d = []"
  by (auto simp: members_ok_def member_rows_def filter_empty_conv)

lemma members_ok_add_archive: "members_ok d \<Longrightarrow> members_ok (add_archive_db now c owner d)"
proof -
  assume ok: "members_ok d"
  show ?thesis
  proof (cases "archive_exists c d")
    case True
    then show ?thesis using ok members_ok_update [OF ok, of "\<lambda>r. r\<lparr>r_owner := owner\<rparr>" c]
      by (simp add: add_archive_db_def)
  next
    case False
    then have c: "c \<notin> r_cid ` set (archives d)" by (simp add: archive_exists_def)
    have "member_rows x (add_archive_db now c owner d) = member_rows x d" for x
      by (simp add: member_rows_def add_archive_db_def update_arch_def)
    then show ?thesis using ok c member_rows_none [OF ok c] False
      by (auto simp: members_ok_def add_archive_db_def new_arch_row_def)
  qed
qed

lemma store_ok_add_archive: "store_ok d \<Longrightarrow> store_ok (add_archive_db now c owner d)"
  using members_ok_add_archive [of d now c owner] docs_labels_cong [of "add_archive_db now c owner d" d]
    settled_once_cong [of "add_archive_db now c owner d" d]
  by (simp add: store_ok_def failures_ok_def add_archive_db_def update_arch_def)

lemma new_members_distinct:
  assumes "distinct docs"
  shows "distinct (map m_key (map (member_row_of a) (enumerate 0 docs)))"
proof -
  have "map m_key (map (member_row_of a) xs) = map (Pair a) (map snd xs)" for xs
    by (simp add: member_row_of_def)
  then show ?thesis using assms by (simp only: map_snd_enumerate) (simp add: distinct_map inj_on_def)
qed

lemma members_ok_set_docs:
  assumes ok: "members_ok d" and "archive_exists a d" and dist: "distinct docs"
  shows "members_ok (set_docs_db a docs d)"
proof -
  let ?d = "set_docs_db a docs d"
  let ?f = "\<lambda>r. r\<lparr>r_count := int (length docs), r_status := Indexing\<rparr>"
  have A: "archives ?d = sql_update (\<lambda>r. r_cid r = a) ?f (archives d)"
    by (simp add: set_docs_distinct [OF dist] update_arch_def)
  have keys: "map r_cid (archives ?d) = map r_cid (archives d)" by (simp add: A)
  then have keyset: "r_cid ` set (archives ?d) = r_cid ` set (archives d)" by (metis set_map)
  have M: "archive_docs ?d = sql_delete (\<lambda>m. m_arch m = a) (archive_docs d)
      @ map (member_row_of a) (enumerate 0 docs)"
    by (simp add: set_docs_distinct [OF dist])
  have "distinct (map m_key (map (member_row_of a) (enumerate 0 docs)))"
    using dist by (rule new_members_distinct)
  moreover have "distinct (map m_key (sql_delete (\<lambda>m. m_arch m = a) (archive_docs d)))"
    using ok by (intro distinct_sql_delete) (simp add: members_ok_def)
  ultimately have 2: "distinct (map m_key (archive_docs ?d))"
    by (auto simp: M member_row_of_def)
  have 3: "m_arch ` set (archive_docs ?d) \<subseteq> r_cid ` set (archives ?d)"
    unfolding keyset using ok assms(2) by (auto simp: M members_ok_def member_row_of_def archive_exists_def)
  have 4: "r_count r = int (length (member_rows (r_cid r) ?d))" if "r \<in> set (archives ?d)" for r
    using that ok by (auto simp: A set_sql_update member_rows_set_docs [OF dist] members_ok_def
        split: if_splits)
  show ?thesis unfolding members_ok_def using 2 3 4 ok keys by (simp add: members_ok_def)
qed

lemma set_docs_frame:
  assumes "distinct docs"
  shows "documents (set_docs_db a docs d) = documents d" "labels (set_docs_db a docs d) = labels d"
    "documents_fts (set_docs_db a docs d) = documents_fts d"
    "failures (set_docs_db a docs d) = failures d"
  by (simp_all add: set_docs_distinct [OF assms] update_arch_def)

lemma store_ok_set_docs:
  assumes "store_ok d" and "archive_exists a d" and "distinct docs"
  shows "store_ok (set_docs_db a docs d)"
  using assms members_ok_set_docs [of d a docs] docs_labels_cong [of "set_docs_db a docs d" d]
    settled_once_cong [of "set_docs_db a docs d" d]
  by (simp add: store_ok_def failures_ok_def set_docs_frame)

section \<open>Removing documents\<close>

lemma lower_counts_frame [simp]:
  "documents (lower_counts c i f d) = documents d"
  "documents_fts (lower_counts c i f d) = documents_fts d"
  "labels (lower_counts c i f d) = labels d" "failures (lower_counts c i f d) = failures d"
  "archive_docs (lower_counts c i f d) = archive_docs d"
  "submissions (lower_counts c i f d) = submissions d" "denylist (lower_counts c i f d) = denylist d"
  "settings (lower_counts c i f d) = settings d"
  by (simp_all add: lower_counts_def)

lemma delete_doc_db_tables [simp]:
  "documents (delete_doc_db c d) = sql_delete (\<lambda>r. d_cid r = c) (documents d)"
  "labels (delete_doc_db c d) = sql_delete (\<lambda>l. snd l = c) (labels d)"
  "failures (delete_doc_db c d) = sql_delete (\<lambda>f. f_cid f = c) (failures d)"
  "archive_docs (delete_doc_db c d) = sql_delete (\<lambda>m. m_doc m = c) (archive_docs d)"
  "documents_fts (delete_doc_db c d) = (case doc_rowid c d of None \<Rightarrow> documents_fts d
     | Some i \<Rightarrow> sql_delete (\<lambda>x. x_rowid x = i) (documents_fts d))"
  "archives (delete_doc_db c d) = archives (lower_counts c (doc_rowid c d \<noteq> None) (is_failed d c) d)"
  "submissions (delete_doc_db c d) = submissions d" "denylist (delete_doc_db c d) = denylist d"
  "settings (delete_doc_db c d) = settings d"
  by (auto simp: delete_doc_db_def delete_doc_members_def delete_failure_def delete_labels_def
      delete_doc_def delete_fts_def split: option.splits)

lemma docs_ok_delete:
  assumes ok: "docs_ok d"
  shows "docs_ok (delete_doc_db c d)"
proof (cases "sql_find d_cid c (documents d)")
  case None
  then have "sql_delete (\<lambda>r. d_cid r = c) (documents d) = documents d"
    by (intro sql_delete_id) auto
  then show ?thesis using ok None by (simp add: docs_ok_def doc_rowid_def)
next
  case (Some q)
  then have "stored_rowid c d = d_rowid q" by (simp add: stored_rowid_def)
  then have "\<And>r. r \<in> set (documents d) \<Longrightarrow> d_rowid r = d_rowid q \<longleftrightarrow> d_cid r = c"
    using rowid_iff_cid [OF ok, of _ c] by simp
  then have "set (documents_fts (delete_doc_db c d)) = fts_of_row ` {r \<in> set (documents d). d_cid r \<noteq> c}"
    using ok Some by (auto simp: doc_rowid_def docs_ok_def)
  moreover have "distinct (map x_rowid (documents_fts (delete_doc_db c d)))"
    using ok Some by (simp add: doc_rowid_def docs_ok_def)
  ultimately show ?thesis using ok by (simp add: docs_ok_def)
qed

lemma labels_ok_delete: "labels_ok d \<Longrightarrow> labels_ok (delete_doc_db c d)"
  using labels_of_docs_other [of "set (documents d)" c]
  by (auto simp: labels_ok_def sql_delete_def)

lemma member_rows_delete:
  "member_rows a (delete_doc_db c d) = filter (\<lambda>m. m_doc m \<noteq> c) (member_rows a d)"
  by (simp add: member_rows_def sql_delete_def conj_commute)

lemma length_filter_key_other:
  assumes "distinct (map key xs)"
  shows "length (filter (\<lambda>x. key x \<noteq> k) xs) =
    (if k \<in> key ` set xs then length xs - 1 else length xs)"
proof -
  have "length (filter (\<lambda>x. key x = k) xs) + length (filter (\<lambda>x. key x \<noteq> k) xs) = length xs"
    by (rule sum_length_filter_compl)
  moreover have "length (filter (\<lambda>x. key x = k) xs) = (if k \<in> key ` set xs then 1 else 0)"
    unfolding filter_key [OF assms] by (cases "sql_find key k xs") (auto dest: sql_find_SomeD)
  ultimately show ?thesis by auto
qed

lemma distinct_member_keys:
  assumes "distinct (map m_key (archive_docs d))"
  shows "distinct (map m_doc (member_rows a d))"
proof -
  have keys: "distinct (map m_key (member_rows a d))"
    using assms unfolding member_rows_def by (intro distinct_map_filter) simp
  have "inj_on m_doc (set (member_rows a d))"
  proof (rule inj_onI)
    fix x y
    assume xy: "x \<in> set (member_rows a d)" "y \<in> set (member_rows a d)" "m_doc x = m_doc y"
    then have k: "m_key x = m_key y" by (simp add: member_rows_def)
    have "inj_on m_key (set (member_rows a d))" using keys by (simp add: distinct_map)
    from this k xy(1,2) show "x = y" by (rule inj_onD)
  qed
  with keys show ?thesis by (simp add: distinct_map)
qed

lemma distinct_member_docs: "members_ok d \<Longrightarrow> distinct (map m_doc (member_rows a d))"
  by (rule distinct_member_keys) (simp add: members_ok_def)

lemma member_exists_iff:
  "list_ex (\<lambda>m. m_arch m = a \<and> m_doc m = c) (archive_docs d) \<longleftrightarrow> c \<in> m_doc ` set (member_rows a d)"
  by (auto simp: list_ex_iff member_rows_def)

lemma int_length_pred: "xs \<noteq> [] \<Longrightarrow> int (length xs) - 1 = int (length xs - Suc 0)"
  by (cases xs) simp_all

lemma members_ok_delete:
  assumes ok: "members_ok d"
  shows "members_ok (delete_doc_db c d)"
proof -
  let ?d = "delete_doc_db c d"
  have keys: "map r_cid (archives ?d) = map r_cid (archives d)"
    by (simp add: lower_counts_def)
  then have keyset: "r_cid ` set (archives ?d) = r_cid ` set (archives d)" by (metis set_map)
  have "r_count r = int (length (member_rows (r_cid r) ?d))" if "r \<in> set (archives ?d)" for r
  proof -
    from that obtain q where q: "q \<in> set (archives d)" and rc: "r_cid r = r_cid q"
      and cnt: "r_count r = (if c \<in> m_doc ` set (member_rows (r_cid q) d)
        then (if r_count q > 0 then r_count q - 1 else 0) else r_count q)"
      by (auto simp: lower_counts_def set_sql_update member_exists_iff)
    from ok q have n: "r_count q = int (length (member_rows (r_cid q) d))"
      by (simp add: members_ok_def)
    have "c \<in> m_doc ` set (member_rows (r_cid q) d) \<Longrightarrow> length (member_rows (r_cid q) d) > 0" by auto
    then show ?thesis
      using length_filter_key_other [OF distinct_member_docs [OF ok, of "r_cid q"], of c]
      by (cases "c \<in> m_doc ` set (member_rows (r_cid q) d)") (simp_all add: rc cnt n member_rows_delete int_length_pred)
  qed
  moreover have "m_arch ` set (archive_docs ?d) \<subseteq> r_cid ` set (archives d)"
    using ok by (auto simp: members_ok_def)
  moreover have "distinct (map m_key (archive_docs ?d))"
    using ok by (simp add: members_ok_def)
  ultimately show ?thesis using ok keys keyset by (simp add: members_ok_def)
qed

lemma is_indexed_delete: "is_indexed (delete_doc_db c d) x \<longleftrightarrow> x \<noteq> c \<and> is_indexed d x"
  by (auto simp: is_indexed_def)

lemma failure_count_delete_doc:
  "failure_count x (delete_doc_db c d) = (if x = c then None else failure_count x d)"
  by (simp add: failure_count_def sql_find_delete_other)

lemma is_failed_delete: "is_failed (delete_doc_db c d) x \<longleftrightarrow> x \<noteq> c \<and> is_failed d x"
  by (auto simp: is_failed_def attempts_def failure_count_delete_doc maxRetries_def)

lemma store_ok_delete: "store_ok d \<Longrightarrow> store_ok (delete_doc_db c d)"
  by (auto simp: store_ok_def docs_ok_delete labels_ok_delete members_ok_delete settled_once_iff
      is_indexed_delete is_failed_delete failures_ok_def)

section \<open>Removing an archive\<close>

definition orphans :: "cid \<Rightarrow> cid list \<Rightarrow> database \<Rightarrow> cid set" where
  "orphans a cs d = {c \<in> set cs. other_members a c d = 0}"

lemma other_members_remove [simp]: "other_members a x (remove_member_db a c d) = other_members a x d"
  by (auto simp: remove_member_db_def other_members_def sql_delete_def filter_empty_conv
      intro!: arg_cong [where f = length] filter_cong)

lemma remove_members_docs:
  "documents (fold (remove_member_db a) cs d) = filter (\<lambda>r. d_cid r \<notin> orphans a cs d) (documents d)"
proof (induction cs arbitrary: d)
  case (Cons c cs)
  then show ?case
    by (auto simp: orphans_def remove_member_db_def sql_delete_def other_members_def filter_empty_conv
        intro!: filter_cong)
qed (simp add: orphans_def)

lemma remove_members_rows:
  "archive_docs (fold (remove_member_db a) cs d) = filter (\<lambda>m. m_doc m \<notin> orphans a cs d) (archive_docs d)"
proof (induction cs arbitrary: d)
  case (Cons c cs)
  have "orphans a (c # cs) d = (if other_members a c d = 0 then {c} else {}) \<union> orphans a cs d"
    by (auto simp: orphans_def)
  moreover have "orphans a cs (remove_member_db a c d) = orphans a cs d"
    by (simp add: orphans_def)
  moreover have "archive_docs (remove_member_db a c d)
      = filter (\<lambda>m. \<not> (other_members a c d = 0 \<and> m_doc m = c)) (archive_docs d)"
    by (simp add: remove_member_db_def sql_delete_def)
  ultimately show ?case using Cons.IH [of "remove_member_db a c d"]
    by (auto intro!: filter_cong)
qed (simp add: orphans_def)

lemma store_ok_remove_members: "store_ok d \<Longrightarrow> store_ok (fold (remove_member_db a) cs d)"
  by (induction cs arbitrary: d) (simp_all add: remove_member_db_def store_ok_delete)

lemma store_ok_drop_archive:
  assumes ok: "store_ok d"
  shows "store_ok (delete_archive_row a (delete_members a d))"
proof -
  let ?d = "delete_archive_row a (delete_members a d)"
  have rows: "member_rows x ?d = (if x = a then [] else member_rows x d)" for x
    by (auto simp: member_rows_def delete_archive_row_def delete_members_def sql_delete_def
        filter_empty_conv intro!: filter_cong)
  have m: "members_ok d" using ok by (simp add: store_ok_def)
  have "distinct (map r_cid (archives ?d))" "distinct (map m_key (archive_docs ?d))"
    using m by (simp_all add: members_ok_def delete_archive_row_def delete_members_def)
  moreover have "m_arch ` set (archive_docs ?d) \<subseteq> r_cid ` set (archives ?d)"
    using m by (force simp: members_ok_def delete_archive_row_def delete_members_def)
  moreover have "\<forall>r \<in> set (archives ?d). r_count r = int (length (member_rows (r_cid r) ?d))"
    unfolding rows using m by (auto simp: members_ok_def delete_archive_row_def delete_members_def)
  ultimately have "members_ok ?d" by (simp add: members_ok_def)
  then show ?thesis
    using ok docs_labels_cong [of ?d d] settled_once_cong [of ?d d]
    by (simp add: store_ok_def failures_ok_def delete_archive_row_def delete_members_def)
qed

lemma store_ok_delete_archive: "store_ok d \<Longrightarrow> store_ok (delete_archive_db a d)"
  unfolding delete_archive_db_def by (intro store_ok_drop_archive store_ok_remove_members)

lemma delete_archive_indexed:
  "is_indexed (delete_archive_db a d) c \<longleftrightarrow>
     is_indexed d c \<and> \<not> (c \<in> m_doc ` set (member_rows a d) \<and> other_members a c d = 0)"
proof -
  have "documents (delete_archive_db a d)
      = documents (fold (remove_member_db a) (map m_doc (member_rows a d)) d)"
    by (simp add: delete_archive_db_def delete_archive_row_def delete_members_def)
  then show ?thesis by (auto simp: is_indexed_def remove_members_docs orphans_def)
qed

lemma delete_archive_rows:
  "b \<noteq> a \<Longrightarrow> member_rows b (delete_archive_db a d) = member_rows b d"
proof -
  assume ba: "b \<noteq> a"
  have "m_doc m \<notin> orphans a (map m_doc (member_rows a d)) d" if "m \<in> set (archive_docs d)" "m_arch m = b" for m
    using that ba by (auto simp: orphans_def other_members_def filter_empty_conv)
  then show ?thesis using ba
    by (auto simp: member_rows_def delete_archive_db_def delete_archive_row_def delete_members_def
        sql_delete_def remove_members_rows intro!: filter_cong)
qed

lemma delete_archive_gone:
  "\<not> archive_exists a (delete_archive_db a d)" "member_rows a (delete_archive_db a d) = []"
  by (auto simp: archive_exists_def delete_archive_db_def delete_archive_row_def delete_members_def
      member_rows_def filter_empty_conv)

end
