(* ===== verification/Interfaces.thy ===== *)
theory Interfaces
  imports Store_Schema
begin

text \<open>
  What the background indexer relies on. \<open>processor\<close> is the contract of
  \<open>Pipeline.Process\<close>, \<open>settling_store\<close> that of the store operations a worker calls.
  The indexer's lemmas are proved from these laws; the store and the pipeline provide them.
\<close>

section \<open>Processing one document\<close>

text \<open>The result of \<open>Process\<close>: an error (rate limited or not), \<open>nil, nil\<close>, or an entry.\<close>

datatype proc_result = RateLimited string | ProcError string | NoEntry | Entry index_entry

locale processor =
  fixes prc :: "'w \<Rightarrow> cid \<Rightarrow> (proc_result \<times> 'w) option"
  assumes entry_cid: "prc w c = Some (Entry e, w') \<Longrightarrow> e_cid e = c"
    and never_limited: "prc w c \<noteq> Some (RateLimited x, w')"

section \<open>Settling documents\<close>

text \<open>
  \<open>bud s c\<close> is how many more failures document \<open>c\<close> can take; a document with no budget
  left is settled (indexed or given up) and is no longer pending.
\<close>

datatype outcome = OFail string | OSkip | OAdd index_entry

definition fits :: "outcome \<Rightarrow> cid \<Rightarrow> bool" where
  "fits out c = (case out of OAdd e \<Rightarrow> e_cid e = c | _ \<Rightarrow> True)"

locale settling_store =
  fixes ok :: "'s \<Rightarrow> bool"
    and bud :: "'s \<Rightarrow> cid \<Rightarrow> nat"
    and rec_fail :: "int \<Rightarrow> cid \<Rightarrow> string \<Rightarrow> 's \<Rightarrow> 's"
    and rec_skip :: "int \<Rightarrow> cid \<Rightarrow> 's \<Rightarrow> 's"
    and rec_add :: "index_entry \<Rightarrow> 's \<Rightarrow> 's"
    and pend :: "cid list \<Rightarrow> 's \<Rightarrow> cid list \<times> 's"
  assumes fail_law: "ok s \<Longrightarrow> bud s c > 0 \<Longrightarrow>
        ok (rec_fail now c e s) \<and> bud (rec_fail now c e s) = (bud s)(c := bud s c - 1)"
    and skip_law: "ok s \<Longrightarrow> bud s c > 0 \<Longrightarrow>
        ok (rec_skip now c s) \<and> bud (rec_skip now c s) = (bud s)(c := 0)"
    and add_law: "ok s \<Longrightarrow> ok (rec_add ent s) \<and> bud (rec_add ent s) = (bud s)(e_cid ent := 0)"
    and pend_law: "ok s \<Longrightarrow> fst (pend cs s) = filter (\<lambda>c. bud s c > 0) cs
        \<and> ok (snd (pend cs s)) \<and> bud (snd (pend cs s)) = bud s"
    and bud_le: "ok s \<Longrightarrow> bud s c \<le> 3"
begin

lemma act_step:
  assumes "ok s" and "bud s c > 0" and "fits out c"
    and "s' = (case out of OFail e \<Rightarrow> rec_fail now c e s | OSkip \<Rightarrow> rec_skip now c s | OAdd e \<Rightarrow> rec_add e s)"
  shows "ok s' \<and> bud s' c < bud s c \<and> (\<forall>c'. c' \<noteq> c \<longrightarrow> bud s' c' = bud s c')"
  using assms fail_law [of s c] skip_law [of s c] add_law [of s]
  by (cases out) (auto simp: fits_def)

text \<open>A round over distinct pending documents, in any order and with any outcomes.\<close>

lemma round_budget:
  assumes "\<And>x s. act x s = (case fst (snd x) of OFail e \<Rightarrow> rec_fail (fst x) (snd (snd x)) e s
      | OSkip \<Rightarrow> rec_skip (fst x) (snd (snd x)) s | OAdd e \<Rightarrow> rec_add e s)"
  shows "ok s \<Longrightarrow> distinct (map (snd \<circ> snd) xs) \<Longrightarrow>
     \<forall>x \<in> set xs. bud s (snd (snd x)) > 0 \<and> fits (fst (snd x)) (snd (snd x)) \<Longrightarrow>
     ok (fold act xs s) \<and> (\<forall>x \<in> set xs. bud (fold act xs s) (snd (snd x)) < bud s (snd (snd x)))
       \<and> (\<forall>c. c \<notin> (snd \<circ> snd) ` set xs \<longrightarrow> bud (fold act xs s) c = bud s c)"
proof (induction xs arbitrary: s)
  case (Cons x xs)
  let ?c = "snd (snd x)" and ?s = "act x s"
  have step: "ok ?s" "bud ?s ?c < bud s ?c" "\<And>c'. c' \<noteq> ?c \<Longrightarrow> bud ?s c' = bud s c'"
    using act_step [where s = s and c = ?c and out = "fst (snd x)" and now = "fst x" and s' = ?s] Cons.prems by (simp_all add: assms)
  have other: "snd (snd y) \<noteq> ?c" if "y \<in> set xs" for y
    using that Cons.prems(2) by (auto simp: image_iff)
  have "\<forall>y \<in> set xs. bud ?s (snd (snd y)) > 0 \<and> fits (fst (snd y)) (snd (snd y))"
    using Cons.prems(3) step(3) other by simp
  from Cons.IH [OF step(1) _ this] Cons.prems(2) step other
  show ?case by (auto simp: image_iff)
qed simp

end

end
