(* ===== verification/Store_Steps.thy ===== *)
theory Store_Steps
  imports Store_Invariant Interfaces
begin

text \<open>
  The store as a state machine: one rule per exported operation that writes, run without driver
  errors, and the stores reachable from an empty database. The premises of a rule are what its
  callers have checked: \<open>indexPending\<close> only processes documents \<open>Pending\<close> returned, and
  \<open>indexArchive\<close> sets the documents of the archive it has just registered to the crawler's
  list, which has no duplicates.
\<close>

section \<open>The effect of FinalizeArchive\<close>

definition finalize_row :: "int \<Rightarrow> cid \<Rightarrow> database \<Rightarrow> arch_row \<Rightarrow> arch_row" where
  "finalize_row now c d =
     (let (kw_count, field_count, indexed) =
            aggregate (map (\<lambda>(m, r). (d_keywords r, d_broad r)) (indexed_members c d));
          broadFields = topFields field_count;
          old = (case sql_find r_cid c (archives d) of None \<Rightarrow> [] | Some r \<Rightarrow> r_name r);
          name = (if old = [] then (case broadFields of f # _ \<Rightarrow> fc_field f | [] \<Rightarrow> c) else old)
      in (\<lambda>r. r\<lparr>r_indexed := indexed, r_failed := int (length (failed_members c d)),
           r_top := topCounted kw_count 12, r_fields := broadFields,
           r_status := (if length (pending_members c d) > 0 then Indexing else Done), r_at := now,
           r_name := name\<rparr>))"

lemma FinalizeArchive_run:
  assumes "drv s = []"
  shows "FinalizeArchive now c s =
    (if archive_exists c (db s) then s\<lparr>db := update_arch c (finalize_row now c (db s)) (db s)\<rparr> else s)"
proof -
  obtain kc fc n where agg: "aggregate (map (\<lambda>(m, r). (d_keywords r, d_broad r))
      (indexed_members c (db s))) = (kc, fc, n)" by (metis prod_cases3)
  have "(int (length xs) > 0) = (length xs > 0)" for xs :: "member_row list" by simp
  then show ?thesis using assms
    by (simp add: FinalizeArchive_def finalize_tx_def tx_simps finalize_row_def agg Let_def)
qed

lemma finalize_row_keeps [simp]:
  "r_cid (finalize_row now c d r) = r_cid r" "r_count (finalize_row now c d r) = r_count r"
  "r_owner (finalize_row now c d r) = r_owner r" "r_error (finalize_row now c d r) = r_error r"
  "r_submitted (finalize_row now c d r) = r_submitted r"
  by (simp_all add: finalize_row_def Let_def split: prod.splits)

section \<open>Steps\<close>

inductive store_step :: "store \<Rightarrow> store \<Rightarrow> bool" where
  add: "store_step s (Add e s)"
| pend: "store_step s (snd (Pending cids s))"
| fail: "\<not> is_indexed (db s) c \<Longrightarrow> store_step s (RecordFailure now c reason s)"
| rate: "store_step s (RecordRateLimited now c reason s)"
| skip: "\<not> is_indexed (db s) c \<Longrightarrow> store_step s (RecordSkip now c s)"
| requeue: "store_step s (snd (RequeueRateLimited s))"
| retry: "store_step s (snd (RetryFailure c s))"
| search: "store_step s (RecordSearch now kw n s)"
| add_archive: "store_step s (snd (AddArchive now c owner s))"
| crawling: "store_step s (MarkArchiveCrawling c s)"
| mark_failed: "store_step s (MarkArchiveFailed c reason s)"
| set_docs: "archive_exists c (db s) \<Longrightarrow> distinct docs \<Longrightarrow> store_step s (SetArchiveDocs c docs s)"
| finalize: "store_step s (FinalizeArchive now c s)"
| review: "store_step s (SetReviewEnabled b s)"
| deny: "store_step s (Deny now c s)"
| submit: "store_step s (AddSubmission now c k owner s)"
| take: "store_step s (snd (TakeSubmission c s))"
| delete_doc: "store_step s (snd (DeleteDocument c s))"
| delete_arch: "store_step s (snd (DeleteArchive c s))"

inductive store_reach :: "store \<Rightarrow> bool" where
  init: "db s = empty_db \<Longrightarrow> drv s = [] \<Longrightarrow> store_reach s"
| step: "store_reach s \<Longrightarrow> store_step s s' \<Longrightarrow> store_reach s'"

lemmas run_facts = Add_run RecordFailure_run RecordSkip_run RetryFailure_run AddArchive_run
  updateArchive_run SetArchiveDocs_run FinalizeArchive_run DeleteDocument_run DeleteArchive_run

lemma Pending_frame:
  "drv s = [] \<Longrightarrow> db (snd (Pending cids s)) = db s" "drv s = [] \<Longrightarrow> drv (snd (Pending cids s)) = []"
  by (simp_all add: Pending_def cidSet_def tx_simps Let_def)

lemma RateLimited_run:
  "drv s = [] \<Longrightarrow> RecordRateLimited now c reason s =
     s\<lparr>db := upsert_failure fail_touch (fail_row_of c 0 now reason) (db s)\<rparr>"
  by (simp add: RecordRateLimited_def tx_simps fail_row_of_def)

lemma Requeue_run:
  "drv s = [] \<Longrightarrow> snd (RequeueRateLimited s) = s\<lparr>db := (db s)\<lparr>failures :=
     sql_delete (\<lambda>f. like ''%rate limited%'' (f_reason f)) (failures (db s))\<rparr>\<rparr>"
  by (simp add: RequeueRateLimited_def tx_simps)

lemma Review_run:
  "drv s = [] \<Longrightarrow> SetReviewEnabled b s = s\<lparr>db := (db s)\<lparr>settings := sql_upsert fst setting_upd
     (settingReviewEnabled, if b then ''1'' else ''0'') (settings (db s))\<rparr>, review_enabled := b\<rparr>"
  by (simp add: SetReviewEnabled_def tx_simps)

lemma Deny_run:
  "drv s = [] \<Longrightarrow> Deny now c s = s\<lparr>db := delete_submission c
     ((db s)\<lparr>denylist := sql_replace fst (c, now) (denylist (db s))\<rparr>)\<rparr>"
  by (simp add: Deny_def tx_simps)

lemma AddSubmission_run:
  "drv s = [] \<Longrightarrow> AddSubmission now c k owner s = s\<lparr>db := (db s)\<lparr>submissions :=
     sql_upsert s_cid sub_upd \<lparr>s_cid = c, s_kind = k, s_owner = trim_space owner, s_at = now\<rparr>
       (submissions (db s))\<rparr>\<rparr>"
  by (simp add: AddSubmission_def tx_simps)

lemma TakeSubmission_run:
  "drv s = [] \<Longrightarrow> TakeSubmission c s =
     (case sql_find s_cid c (submissions (db s)) of
        None \<Rightarrow> (None, s)
      | Some r \<Rightarrow> (Some (submission_of r), s\<lparr>db := delete_submission c (db s)\<rparr>))"
  by (auto simp: TakeSubmission_def take_submission_tx_def tx_simps split: option.splits
      simp del: sql_find_None)

lemma delete_submission_frame [simp]:
  "documents (delete_submission c d) = documents d"
  "documents_fts (delete_submission c d) = documents_fts d" "labels (delete_submission c d) = labels d"
  "archives (delete_submission c d) = archives d" "archive_docs (delete_submission c d) = archive_docs d"
  "failures (delete_submission c d) = failures d" "denylist (delete_submission c d) = denylist d"
  "settings (delete_submission c d) = settings d"
  by (simp_all add: delete_submission_def)

lemma store_ok_touch:
  assumes "store_ok d"
  shows "store_ok (upsert_failure fail_touch (fail_row_of c 0 now r) d)"
proof (rule store_ok_upsert [OF assms])
  show "settled_once (upsert_failure fail_touch (fail_row_of c 0 now r) d)"
    using assms by (auto simp: store_ok_def settled_once_iff is_failed_def
        attempts_def [of "upsert_failure _ _ _"] failure_count_touch)
      (auto simp: attempts_def)
qed (use fail_touch_tbl.pk_table_axioms in \<open>auto simp: fail_touch_def fail_row_of_def\<close>)

text \<open>No operation makes the driver fail, and each keeps the tables consistent.\<close>

lemma step_drv: "store_step s s' \<Longrightarrow> drv s = [] \<Longrightarrow> drv s' = []"
  by (induction rule: store_step.induct)
    (auto simp: run_facts Pending_frame RateLimited_run Requeue_run Review_run Deny_run
      AddSubmission_run TakeSubmission_run MarkArchiveCrawling_def MarkArchiveFailed_def
      RecordSearch_def Let_def split: option.splits)

lemma step_store_ok:
  assumes "store_step s s'" and "drv s = []" and "store_ok (db s)"
  shows "store_ok (db s')"
  using assms
proof (induction rule: store_step.induct)
  case (fail s c now reason)
  then show ?case by (auto simp: RecordFailure_run Let_def intro: store_ok_bump)
next
  case (skip s c now)
  then show ?case by (auto simp: RecordSkip_run intro!: store_ok_skip) (simp add: maxRetries_def)
next
  case (retry s c)
  then show ?case
    using store_ok_delete_failures [of "db s"] by (simp add: RetryFailure_run delete_failure_def)
next
  case (review s b)
  then show ?case
    using store_ok_cong [of "db (SetReviewEnabled b s)" "db s"] by (simp add: Review_run)
next
  case (deny s now c)
  then show ?case using store_ok_cong [of "db (Deny now c s)" "db s"] by (simp add: Deny_run)
next
  case (submit s now c k owner)
  then show ?case
    using store_ok_cong [of "db (AddSubmission now c k owner s)" "db s"] by (simp add: AddSubmission_run)
next
  case (take s c)
  then show ?case
    using store_ok_cong [of "delete_submission c (db s)" "db s"]
    by (simp add: TakeSubmission_run split: option.splits)
qed (auto simp: run_facts Pending_frame RateLimited_run Requeue_run MarkArchiveCrawling_def
    MarkArchiveFailed_def RecordSearch_def Let_def
    intro: store_ok_add store_ok_touch store_ok_delete_failures store_ok_add_archive
      store_ok_update store_ok_set_docs store_ok_delete store_ok_delete_archive)

lemma reach_inv: "store_reach s \<Longrightarrow> drv s = [] \<and> store_ok (db s)"
proof (induction rule: store_reach.induct)
  case (init s)
  then show ?case by (simp add: store_ok_empty)
next
  case (step s s')
  then show ?case using step_drv step_store_ok by blast
qed

section \<open>The contract of the worker's operations\<close>

lemma budget_indexed: "budget d c > 0 \<Longrightarrow> \<not> is_indexed d c"
  by (simp add: budget_pos)

interpretation ledger: settling_store "\<lambda>s. drv s = [] \<and> store_ok (db s)" "\<lambda>s. budget (db s)"
  RecordFailure RecordSkip Add Pending
proof (unfold_locales, goal_cases)
  case (1 s c now e)
  then show ?case
    by (auto simp: RecordFailure_run Let_def fun_eq_iff budget_bump intro!: store_ok_bump budget_indexed)
next
  case (2 s c now)
  then show ?case
    by (auto simp: RecordSkip_run fun_eq_iff budget_skip maxRetries_def [symmetric]
        intro!: store_ok_skip budget_indexed) (simp add: maxRetries_def)
next
  case (3 s e)
  then show ?case by (auto simp: Add_run fun_eq_iff budget_add intro: store_ok_add)
next
  case (4 s cs)
  then show ?case by (auto simp: Pending_run store_ok_def)
next
  case (5 s c)
  then show ?case by (auto simp: store_ok_def intro: budget_le)
qed

end
