(* ===== verification/Store_Properties.thy ===== *)
theory Store_Properties
  imports Store_Steps
begin

text \<open>
  What the store promises: an abstract ledger of documents and failures that its operations
  refine, and the properties of the store, each over the operations of \<open>Store_Docs\<close>,
  \<open>Store_Archives\<close> and \<open>Store_Admin\<close>. The witnesses run on \<open>fresh_store\<close>.
\<close>

section \<open>The abstract ledger\<close>

record ledger_state =
  lg_docs :: "cid \<Rightarrow> meta option"
  lg_fails :: "cid \<Rightarrow> int option"

definition abs_ledger :: "database \<Rightarrow> ledger_state" where
  "abs_ledger d = \<lparr>lg_docs = doc_view d, lg_fails = (\<lambda>c. failure_count c d)\<rparr>"

definition tries :: "ledger_state \<Rightarrow> cid \<Rightarrow> int" where
  "tries L c = (case lg_fails L c of None \<Rightarrow> 0 | Some n \<Rightarrow> n)"

definition spec_add :: "index_entry \<Rightarrow> ledger_state \<Rightarrow> ledger_state" where
  "spec_add e L = L\<lparr>lg_docs := (lg_docs L)(e_cid e \<mapsto> entry_meta e), lg_fails := (lg_fails L)(e_cid e := None)\<rparr>"

definition spec_fail :: "cid \<Rightarrow> ledger_state \<Rightarrow> ledger_state" where
  "spec_fail c L = L\<lparr>lg_fails := (lg_fails L)(c \<mapsto> tries L c + 1)\<rparr>"

definition spec_skip :: "cid \<Rightarrow> ledger_state \<Rightarrow> ledger_state" where
  "spec_skip c L = L\<lparr>lg_fails := (lg_fails L)(c \<mapsto> maxRetries)\<rparr>"

definition spec_retry :: "cid \<Rightarrow> ledger_state \<Rightarrow> ledger_state" where
  "spec_retry c L = L\<lparr>lg_fails := (lg_fails L)(c := None)\<rparr>"

definition spec_delete :: "cid \<Rightarrow> ledger_state \<Rightarrow> ledger_state" where
  "spec_delete c L = L\<lparr>lg_docs := (lg_docs L)(c := None), lg_fails := (lg_fails L)(c := None)\<rparr>"

definition spec_pending :: "cid list \<Rightarrow> ledger_state \<Rightarrow> cid list" where
  "spec_pending cs L = filter (\<lambda>c. lg_docs L c = None \<and> tries L c < maxRetries) cs"

lemma tries_abs: "tries (abs_ledger d) c = attempts d c"
  by (simp add: tries_def abs_ledger_def attempts_def)

lemma doc_view_frame:
  "doc_view (upsert_failure u f d) = doc_view d" "doc_view (delete_failure c d) = doc_view d"
  by (simp_all add: doc_view_def fun_eq_iff)

lemma abs_add: "abs_ledger (add_db e d) = spec_add e (abs_ledger d)"
  by (auto simp: abs_ledger_def spec_add_def doc_view_add failure_count_add)

lemma abs_bump:
  "abs_ledger (upsert_failure fail_bump (fail_row_of c 1 now r) d) = spec_fail c (abs_ledger d)"
  by (auto simp: abs_ledger_def spec_fail_def doc_view_frame failure_count_bump tries_def attempts_def)

lemma abs_skip:
  "abs_ledger (upsert_failure fail_set (fail_row_of c maxRetries now r) d) = spec_skip c (abs_ledger d)"
  by (auto simp: abs_ledger_def spec_skip_def doc_view_frame failure_count_set)

lemma abs_retry: "abs_ledger (delete_failure c d) = spec_retry c (abs_ledger d)"
  by (auto simp: abs_ledger_def spec_retry_def doc_view_frame failure_count_delete)

lemma doc_view_delete: "doc_view (delete_doc_db c d) = (doc_view d)(c := None)"
  by (auto simp: fun_eq_iff doc_view_def sql_find_delete_other)

lemma abs_delete: "abs_ledger (delete_doc_db c d) = spec_delete c (abs_ledger d)"
  by (auto simp: abs_ledger_def spec_delete_def doc_view_delete failure_count_delete_doc fun_eq_iff)

lemma not_indexed_view: "\<not> is_indexed d c \<longleftrightarrow> doc_view d c = None"
  using is_indexed_view by metis

lemma abs_nothing:
  assumes "\<not> is_indexed d c" and "c \<notin> f_cid ` set (failures d)"
  shows "spec_delete c (abs_ledger d) = abs_ledger d"
proof -
  have "failure_count c d = None" using assms(2) by (auto simp: failure_count_def image_iff)
  moreover have "doc_view d c = None" using assms(1) by (simp only: not_indexed_view)
  ultimately show ?thesis by (auto simp: abs_ledger_def spec_delete_def)
qed

lemma pending_abs:
  "filter (\<lambda>c. budget d c > 0) cs = spec_pending cs (abs_ledger d)"
  unfolding spec_pending_def tries_abs
  by (rule filter_cong) (auto simp: budget_pos not_indexed_view is_failed_def abs_ledger_def simp del: not_None_eq)

section \<open>Atomic writes\<close>

lemma atomic_choice:
  assumes "strict body"
  shows "db (snd (store_write body s)) \<in> {db s, db (snd (store_write body (s\<lparr>drv := []\<rparr>)))}"
proof (cases "db (snd (store_write body s)) = db s")
  case False
  then obtain a d' where "body (db s, []) = (Inr a, (d', []))" "db (snd (store_write body s)) = d'"
    using store_write_atomic [OF assms, of s] by auto
  then show ?thesis by (simp add: tx_simps)
qed simp

lemma dec_pending_db [simp]: "db (dec_pending s) = db s"
  by (simp add: dec_pending_def)

lemma strict_take: "strict (take_submission_tx c)"
proof -
  have "strict (case row of None \<Rightarrow> tx_return None
      | Some r \<Rightarrow> tx_then (tx_exec (delete_submission c)) (tx_return (Some r)))" for row
    by (cases row) (auto intro: strict_then)
  then show ?thesis unfolding take_submission_tx_def by (intro strict_bind strict_query)
qed

lemmas strict_ops = strict_then strict_exec strict_query_row strict_foreach strict_take

lemma written_db:
  "db (Add e s) = db (snd (store_write (add_tx e) s))"
  "db (RecordFailure now c r s) = db (snd (store_write (tx_then (tx_exec (upsert_failure fail_bump
      \<lparr>f_cid = c, f_count = 1, f_last = now, f_reason = r\<rparr>)) (tx_query_row (failure_count c))) s))"
  "db (RecordSkip now c s) = db (snd (store_write (tx_exec (upsert_failure fail_set
      \<lparr>f_cid = c, f_count = maxRetries, f_last = now, f_reason = ''skipped: not a PDF''\<rparr>)) s))"
  "db (SetArchiveDocs c docs s) = db (snd (store_write
     (tx_then (tx_exec (update_arch c (\<lambda>r. r\<lparr>r_count := int (length docs), r_status := Indexing\<rparr>)))
     (tx_then (tx_exec (delete_members c))
              (tx_foreach (\<lambda>ic. tx_exec (insert_member c ic)) (enumerate 0 docs)))) s))"
  "db (Deny now c s) = db (snd (store_write
     (tx_then (tx_exec (\<lambda>d. d\<lparr>denylist := sql_replace fst (c, now) (denylist d)\<rparr>))
              (tx_exec (delete_submission c))) s))"
  "db (snd (TakeSubmission c s)) = db (snd (store_write (take_submission_tx c) s))"
  by (simp_all add: Add_def RecordFailure_def RecordSkip_def SetArchiveDocs_def Deny_def TakeSubmission_def
      split: prod.splits written.splits)

section \<open>Lemmas on failures and archives\<close>

lemma failures_ok_bump:
  "failures_ok d \<Longrightarrow> failures_ok (upsert_failure fail_bump (fail_row_of c 1 now r) d)"
  using fail_bump_tbl.pk_table_axioms
  by (rule failures_ok_upsert) (auto simp: fail_bump_def fail_row_of_def)

lemma attempts_bump:
  "attempts (upsert_failure fail_bump (fail_row_of c 1 now r) d) c = attempts d c + 1"
  by (simp add: attempts_def [of "upsert_failure _ _ _"] failure_count_bump)

lemma fold_failures:
  assumes "drv s = []" and "failures_ok (db s)" and "\<not> is_indexed (db s) c"
  shows "drv (fold (RecordFailure now c) rs s) = [] \<and> failures_ok (db (fold (RecordFailure now c) rs s))
    \<and> \<not> is_indexed (db (fold (RecordFailure now c) rs s)) c
    \<and> attempts (db (fold (RecordFailure now c) rs s)) c = attempts (db s) c + int (length rs)"
  using assms
proof (induction rs arbitrary: s)
  case (Cons r rs)
  let ?s = "RecordFailure now c r s"
  have s: "drv ?s = []" "db ?s = upsert_failure fail_bump (fail_row_of c 1 now r) (db s)"
    using Cons.prems(1) by (auto simp: RecordFailure_run Let_def dec_pending_def)
  with Cons.prems have "failures_ok (db ?s)" "\<not> is_indexed (db ?s) c"
    by (simp_all add: failures_ok_bump)
  with Cons.IH [OF s(1)] show ?case by (simp add: s(2) attempts_bump)
qed simp

lemma failures_ok_delete_failure: "failures_ok d \<Longrightarrow> failures_ok (delete_failure c d)"
  by (auto simp: failures_ok_def delete_failure_def)

lemma attempts_delete_failure: "attempts (delete_failure c d) c = 0"
  by (simp add: attempts_def failure_count_delete)

lemma is_indexed_delete_failure: "is_indexed (delete_failure c d) x = is_indexed d x"
  by (simp add: is_indexed_def)

lemma empty_attempts [simp]: "attempts empty_db c = 0"
  by (simp add: attempts_def failure_count_def empty_db_def)

lemma like_rate_limited: "like ''%rate limited%'' r \<longleftrightarrow> contains (to_lower r) ''rate limited''"
proof -
  have "to_lower ''rate limited'' = ''rate limited''" by code_simp
  then show ?thesis using like_contains [of "''rate limited''" r] by simp
qed

lemma finalize_row_counts:
  "r_indexed (finalize_row now a d r) = int (length (indexed_members a d))"
  "r_failed (finalize_row now a d r) = int (length (failed_members a d))"
  "r_status (finalize_row now a d r) = (if pending_members a d = [] then Done else Indexing)"
proof -
  have n: "snd (snd (fold (\<lambda>(kws, bf) (kc, fc, i). (fold bump_keyword kws kc, bump_field bf fc, i + 1)) rows (kc, fc, i)))
      = i + int (length rows)" for rows :: "(string list \<times> string) list" and kc fc and i :: int
    by (induction rows arbitrary: kc fc i) auto
  show "r_indexed (finalize_row now a d r) = int (length (indexed_members a d))"
    using n [where kc = "[]" and fc = "[]" and i = 0 and rows = "map (\<lambda>(m, r). (d_keywords r, d_broad r)) (indexed_members a d)"]
    by (auto simp: finalize_row_def aggregate_def Let_def split: prod.splits)
qed (auto simp: finalize_row_def Let_def split: prod.splits)

section \<open>A store to start from\<close>

definition fresh_store :: store where
  "fresh_store = \<lparr>db = empty_db, drv = [], recent = [], skipped = 0, pending = 0, review_enabled = False\<rparr>"

definition sample_entry :: "cid \<Rightarrow> index_entry" where
  "sample_entry c = \<lparr>e_cid = c, e_title = ''T'', e_broad = ''Physics'', e_sub = [],
     e_keywords = [''graph'', '' Graph ''], e_at = Some 5, e_archives = []\<rparr>"

lemma fresh_simps [simp]:
  "db fresh_store = empty_db" "drv fresh_store = []" "recent fresh_store = []" "pending fresh_store = 0"
  by (simp_all add: fresh_store_def)

lemma fresh_reach: "store_reach fresh_store"
  by (rule store_reach.init) simp_all

lemma empty_facts [simp]: "failures_ok empty_db" "\<not> is_indexed empty_db c"
  by (simp_all add: failures_ok_def is_indexed_def empty_db_def)

text \<open>A store in which two archives list one indexed document.\<close>

definition shared_store :: store where
  "shared_store = SetArchiveDocs ''B'' [''d''] (SetArchiveDocs ''A'' [''d'']
     (snd (AddArchive 1 ''B'' [] (snd (AddArchive 1 ''A'' [] (Add (sample_entry ''d'') fresh_store))))))"

lemma shared_reach: "store_reach shared_store"
proof -
  let ?s0 = "Add (sample_entry ''d'') fresh_store"
  let ?s1 = "snd (AddArchive 1 ''A'' [] ?s0)"
  let ?s2 = "snd (AddArchive 1 ''B'' [] ?s1)"
  let ?s3 = "SetArchiveDocs ''A'' [''d''] ?s2"
  have 0: "store_reach ?s0" using fresh_reach store_step.add by (rule store_reach.step)
  then have 1: "store_reach ?s1" using store_step.add_archive by (rule store_reach.step)
  then have 2: "store_reach ?s2" using store_step.add_archive by (rule store_reach.step)
  have d0: "drv ?s0 = []" using reach_inv [OF 0] by simp
  have d1: "drv ?s1 = []" using reach_inv [OF 1] by simp
  have d2: "drv ?s2 = []" using reach_inv [OF 2] by simp
  have ex: "archive_exists ''A'' (db ?s2)" "archive_exists ''B'' (db ?s2)"
    using d0 d1 by (auto simp: AddArchive_run add_archive_db_def archive_exists_def new_arch_row_def
        update_arch_def)
  have 3: "store_reach ?s3" by (intro store_reach.step [OF 2] store_step.set_docs ex) simp
  have "archive_exists ''B'' (db ?s3)"
    using d2 ex by (simp add: SetArchiveDocs_run archive_exists_set_docs)
  then show ?thesis unfolding shared_store_def
    by (intro store_reach.step [OF 3] store_step.set_docs) simp_all
qed

lemma shared_ok: "store_ok (db shared_store)"
  using reach_inv [OF shared_reach] by blast

lemma shared_db: "db shared_store = \<lparr>documents = [doc_of_entry (sample_entry ''d'') 1],
    documents_fts = [fts_of_entry (sample_entry ''d'') 1],
    labels = [(''graph'', ''d''), (''physics'', ''d'')],
    archives = [(new_arch_row 1 ''A'' [])\<lparr>r_count := 1, r_status := Indexing\<rparr>,
      (new_arch_row 1 ''B'' [])\<lparr>r_count := 1, r_status := Indexing\<rparr>],
    archive_docs = [\<lparr>m_arch = ''A'', m_doc = ''d'', m_pos = 0\<rparr>, \<lparr>m_arch = ''B'', m_doc = ''d'', m_pos = 0\<rparr>],
    failures = [], submissions = [], denylist = [], settings = []\<rparr>"
  by code_simp

lemma other_members_none:
  "other_members a c d = 0 \<longleftrightarrow> (\<forall>m \<in> set (archive_docs d). m_doc m = c \<longrightarrow> m_arch m = a)"
  by (auto simp: other_members_def filter_empty_conv)

section \<open>Properties\<close>



text \<open>
  Property C5. The store refines the abstract ledger: recording a result, a failure or a skip,
  retrying and deleting a document act on the ledger of metadata and failure counts as the
  specification does, and Pending is the specification's list.
\<close>

theorem store_refines_ledger:
  assumes "drv s = []" and "failures_ok (db s)"
  shows "abs_ledger (db (Add e s)) = spec_add e (abs_ledger (db s))
    \<and> abs_ledger (db (RecordFailure now c reason s)) = spec_fail c (abs_ledger (db s))
    \<and> abs_ledger (db (RecordSkip now c s)) = spec_skip c (abs_ledger (db s))
    \<and> abs_ledger (db (snd (RetryFailure c s))) = spec_retry c (abs_ledger (db s))
    \<and> abs_ledger (db (snd (DeleteDocument c s))) = spec_delete c (abs_ledger (db s))
    \<and> fst (Pending cs s) = spec_pending cs (abs_ledger (db s))"
  using assms
  by (auto simp: Add_run abs_add RecordFailure_run abs_bump RecordSkip_run abs_skip RetryFailure_run
      abs_retry DeleteDocument_run abs_delete abs_nothing Pending_run pending_abs Let_def dec_pending_def)

theorem store_refines_ledger_witness:
  "abs_ledger (db (RecordFailure 7 ''d'' ''boom'' fresh_store)) = spec_fail ''d'' (abs_ledger empty_db)"
  using store_refines_ledger [of fresh_store "sample_entry ''d''" 7 "''d''" "''boom''" "[]"] by simp


text \<open>
  Property C26. A document that keeps failing is offered for processing until its third failure
  and never again, until RetryFailure gives it three more tries.
\<close>

theorem failure_life_cycle:
  assumes "drv s = []" and "failures_ok (db s)" and "\<not> is_indexed (db s) c" and "attempts (db s) c = 0"
  shows "fst (Pending [c] (fold (RecordFailure now c) reasons s)) = (if length reasons < 3 then [c] else [])
    \<and> fst (Pending [c] (snd (RetryFailure c (fold (RecordFailure now c) reasons s)))) = [c]"
  using fold_failures [OF assms(1-3), of now reasons] assms(4)
  by (simp add: Pending_run RetryFailure_run budget_def maxRetries_def failures_ok_delete_failure
      attempts_delete_failure is_indexed_delete_failure)

theorem failure_life_cycle_witness:
  "fst (Pending [''d''] (fold (RecordFailure 7 ''d'') [''x'', ''y'', ''z''] fresh_store)) = []"
  using failure_life_cycle [of fresh_store "''d''" 7 "[''x'', ''y'', ''z'']"] empty_attempts by simp

text \<open>
  At startup RequeueRateLimited removes exactly the failure records whose reason
  contains "rate limited" in any case, reports how many, and touches nothing else.
\<close>

theorem requeue_exact:
  assumes "drv s = []"
  shows "RequeueRateLimited s =
    (int (length (filter (\<lambda>f. contains (to_lower (f_reason f)) ''rate limited'') (failures (db s)))),
     s\<lparr>db := (db s)\<lparr>failures :=
       filter (\<lambda>f. \<not> contains (to_lower (f_reason f)) ''rate limited'') (failures (db s))\<rparr>\<rparr>)"
  using assms by (simp add: RequeueRateLimited_def tx_simps like_rate_limited sql_delete_def)

theorem requeue_exact_witness:
  "fst (RequeueRateLimited (RecordFailure 7 ''d'' ''convert: Rate Limited (429)'' fresh_store)) = 1"
proof -
  let ?s = "RecordFailure 7 ''d'' ''convert: Rate Limited (429)'' fresh_store"
  have d: "drv ?s = []" by (simp add: RecordFailure_run Let_def dec_pending_def)
  have f: "failures (db ?s) = [fail_row_of ''d'' 1 7 ''convert: Rate Limited (429)'']"
    by (simp add: RecordFailure_run Let_def dec_pending_def upsert_failure_def empty_db_def sql_upsert_def)
  have "contains (to_lower ''convert: Rate Limited (429)'') ''rate limited''" by code_simp
  then show ?thesis using requeue_exact [OF d] f by (simp add: fail_row_of_def)
qed

text \<open>
  The documents a crawl stores for an archive are read back in the same order, and
  those of other archives stay as they were.
\<close>

theorem archive_docs_roundtrip:
  assumes "drv s = []" and "distinct found"
  shows "fst (ArchiveDocCIDs b (SetArchiveDocs a found s)) =
    (if b = a then found else fst (ArchiveDocCIDs b s))"
  using assms by (simp add: ArchiveDocCIDs_def tx_simps SetArchiveDocs_run doc_list_set_docs)

theorem archive_docs_roundtrip_witness:
  "fst (ArchiveDocCIDs ''A'' (SetArchiveDocs ''A'' [''y'', ''x''] fresh_store)) = [''y'', ''x'']"
  using archive_docs_roundtrip [of fresh_store "[''y'', ''x'']" "''A''" "''A''"] by simp

text \<open>
  Property C25. FinalizeArchive accounts for every member: its indexed and failed counts are those
  of the members, with the pending ones they add up to the document count, and the archive is done
  exactly when no member is pending, and indexing otherwise.
\<close>

theorem finalize_accounts:
  assumes "drv s = []" and "store_ok (db s)" and "archive_exists a (db s)"
  shows "\<exists>r. sql_find r_cid a (archives (db (FinalizeArchive now a s))) = Some r
    \<and> r_indexed r = int (length (filter (\<lambda>m. is_indexed (db s) (m_doc m)) (member_rows a (db s))))
    \<and> r_failed r = int (length (filter (\<lambda>m. is_failed (db s) (m_doc m)) (member_rows a (db s))))
    \<and> r_indexed r + r_failed r + int (length (pending_members a (db s))) = r_count r
    \<and> r_status r = (if pending_members a (db s) = [] then Done else Indexing)"
proof -
  obtain q where q: "sql_find r_cid a (archives (db s)) = Some q"
    using assms(3) by (cases "sql_find r_cid a (archives (db s))") (auto simp: archive_exists_def)
  let ?r = "finalize_row now a (db s) q"
  have find: "sql_find r_cid a (archives (db (FinalizeArchive now a s))) = Some ?r"
    using assms(1,3) q
    by (auto simp: FinalizeArchive_run update_arch_def sql_find_update dest: sql_find_SomeD)
  have ok: "distinct (map d_cid (documents (db s)))" "failures_ok (db s)" "settled_once (db s)"
    using assms(2) by (simp_all add: store_ok_def docs_ok_def)
  have "r_count q = int (length (member_rows a (db s)))"
    using assms(2) sql_find_SomeD [OF q] by (auto simp: store_ok_def members_ok_def)
  then show ?thesis
    using find finalize_row_counts [of now a "db s" q] members_account [OF ok, of a]
      length_indexed_members [OF ok(1), of a] length_failed_members [OF ok(2), of a]
    by (intro exI [of _ ?r]) simp
qed

theorem finalize_accounts_witness:
  "\<exists>r. sql_find r_cid ''A'' (archives (db (FinalizeArchive 9 ''A'' (snd (AddArchive 1 ''A'' [] fresh_store))))) = Some r
    \<and> r_status r = Done"
proof -
  let ?s = "snd (AddArchive 1 ''A'' [] fresh_store)"
  have "store_reach ?s" using fresh_reach store_step.add_archive by (rule store_reach.step)
  then have ok: "store_ok (db ?s)" using reach_inv by blast
  have ex: "drv ?s = []" "archive_exists ''A'' (db ?s)"
    by (simp_all add: AddArchive_run add_archive_db_def archive_exists_def new_arch_row_def)
  have "pending_members ''A'' (db ?s) = []"
    by (simp add: AddArchive_run add_archive_db_def pending_members_def member_rows_def empty_db_def
        update_arch_def)
  with finalize_accounts [OF ex(1) ok ex(2), of 9] show ?thesis by auto
qed

text \<open>
  Property C24. Deleting an archive removes its row and memberships, and exactly those of its
  documents that no other archive lists; other archives keep all their members.
\<close>

theorem delete_archive_exact:
  assumes "drv s = []" and "archive_exists a (db s)"
  shows "fst (DeleteArchive a s) \<and> \<not> archive_exists a (db (snd (DeleteArchive a s)))
    \<and> member_rows a (db (snd (DeleteArchive a s))) = []
    \<and> (\<forall>b. b = a \<or> member_rows b (db (snd (DeleteArchive a s))) = member_rows b (db s))
    \<and> (\<forall>c. is_indexed (db (snd (DeleteArchive a s))) c \<longleftrightarrow> is_indexed (db s) c
          \<and> \<not> (c \<in> m_doc ` set (member_rows a (db s))
              \<and> (\<forall>m \<in> set (archive_docs (db s)). m_doc m = c \<longrightarrow> m_arch m = a)))"
  using assms delete_archive_gone [of a "db s"] delete_archive_rows [of _ a "db s"]
  by (auto simp: DeleteArchive_run delete_archive_indexed other_members_none)

theorem delete_archive_exact_witness:
  "\<not> archive_exists ''A'' (db (snd (DeleteArchive ''A'' (snd (AddArchive 1 ''A'' [] fresh_store)))))"
proof -
  have "drv (snd (AddArchive 1 ''A'' [] fresh_store)) = []"
    "archive_exists ''A'' (db (snd (AddArchive 1 ''A'' [] fresh_store)))"
    by (simp_all add: AddArchive_run add_archive_db_def archive_exists_def new_arch_row_def)
  from delete_archive_exact [OF this] show ?thesis by blast
qed

text \<open>
  DeleteArchive ignores the error of the query that counts the other archives of a
  document: when that one driver call fails, it commits and deletes a document another archive
  still lists.
\<close>

theorem delete_archive_ignored_error:
  "\<exists>s a b c. drv s = [False, False, False, True] \<and> a \<noteq> b \<and> store_ok (db s)
     \<and> is_indexed (db s) c \<and> c \<in> m_doc ` set (member_rows a (db s)) \<and> c \<in> m_doc ` set (member_rows b (db s))
     \<and> fst (DeleteArchive a s) \<and> \<not> is_indexed (db (snd (DeleteArchive a s))) c"
proof -
  let ?s = "shared_store\<lparr>drv := [False, False, False, True]\<rparr>"
  have "is_indexed (db ?s) ''d''" "''d'' \<in> m_doc ` set (member_rows ''A'' (db ?s))"
    "''d'' \<in> m_doc ` set (member_rows ''B'' (db ?s))"
    by (simp_all add: shared_db is_indexed_def member_rows_def doc_of_entry_def sample_entry_def)
  moreover have "fst (DeleteArchive ''A'' ?s) \<and> \<not> is_indexed (db (snd (DeleteArchive ''A'' ?s))) ''d''"
    by (simp add: DeleteArchive_def delete_archive_tx_def store_write_def shared_db archive_exists_def
        tx_bind_def tx_then_def tx_scan_def tx_query_def tx_exec_def tx_return_def member_rows_def
        remove_member_doc_def deleteDocumentTx_def doc_rowid_def failure_count_def is_indexed_def
        lower_counts_def delete_fts_def delete_doc_def delete_labels_def delete_failure_def
        delete_doc_members_def delete_members_def delete_archive_row_def sql_delete_def sql_update_def Let_def
        doc_of_entry_def sample_entry_def new_arch_row_def)
  ultimately show ?thesis
    using shared_ok by (intro exI [of _ ?s] exI [of _ "''A''"] exI [of _ "''B''"] exI [of _ "''d''"]) simp
qed

text \<open>
  A denied CID is on the denylist and out of the review queue, so that no later
  approval finds it; other CIDs keep their place on both.
\<close>

theorem deny_takes_effect:
  assumes "drv s = []"
  shows "fst (IsDenied c (Deny now c s)) \<and> fst (TakeSubmission c (Deny now c s)) = None
    \<and> (c' \<noteq> c \<longrightarrow> fst (IsDenied c' (Deny now c s)) = fst (IsDenied c' s)
          \<and> fst (TakeSubmission c' (Deny now c s)) = fst (TakeSubmission c' s))"
  using assms
  by (auto simp: IsDenied_def Deny_run tx_simps TakeSubmission_run delete_submission_def sql_replace_def
      sql_find_delete_other split: option.splits simp del: sql_find_None)

theorem deny_takes_effect_witness: "fst (IsDenied ''c'' (Deny 3 ''c'' fresh_store))"
  using deny_takes_effect [of fresh_store "''c''" 3 "''x''"] by simp

text \<open>
  A submission held for review is returned once, with the kind and the owner it was
  submitted with last, and is then gone.
\<close>

theorem submission_roundtrip:
  assumes "drv s = []"
  shows "fst (TakeSubmission c (AddSubmission now c k owner s)) =
      Some \<lparr>sb_cid = c, sb_kind = k, sb_owner = trim_space owner, sb_at = fromNano now\<rparr>
    \<and> fst (TakeSubmission c (snd (TakeSubmission c (AddSubmission now c k owner s)))) = None"
  using assms sub_tbl.find_upsert_same
      [of "\<lparr>s_cid = c, s_kind = k, s_owner = trim_space owner, s_at = now\<rparr>" "submissions (db s)"]
  by (auto simp: AddSubmission_run TakeSubmission_run submission_of_def sub_upd_def delete_submission_def
      dest: sql_find_SomeD split: option.splits simp del: sql_find_None)

theorem submission_roundtrip_witness:
  "fst (TakeSubmission ''c'' (AddSubmission 3 ''c'' SubArchive '' me '' fresh_store)) =
     Some \<lparr>sb_cid = ''c'', sb_kind = SubArchive, sb_owner = trim_space '' me '', sb_at = fromNano 3\<rparr>"
  using submission_roundtrip [of fresh_store "''c''" 3 SubArchive "'' me ''"] by simp

text \<open>
  The review flag in memory and the stored setting agree, and SetReviewEnabled keeps
  them in agreement whatever calls into the database driver fail.
\<close>

theorem review_flag_agrees:
  assumes "review_enabled s = fst (loadReviewEnabled (s\<lparr>drv := []\<rparr>))"
  shows "review_enabled (SetReviewEnabled b s) = fst (loadReviewEnabled ((SetReviewEnabled b s)\<lparr>drv := []\<rparr>))
    \<and> review_enabled (SetReviewEnabled b s) \<in> {b, review_enabled s}
    \<and> (drv s = [] \<longrightarrow> review_enabled (SetReviewEnabled b s) = b)"
proof -
  let ?t = "sql_upsert fst setting_upd (settingReviewEnabled, if b then ''1'' else ''0'') (settings (db s))"
  have "sql_find fst settingReviewEnabled ?t = Some (settingReviewEnabled, if b then ''1'' else ''0'')"
    using setting_tbl.find_upsert_same [of "(settingReviewEnabled, if b then ''1'' else ''0'')" "settings (db s)"]
    by (auto simp: setting_upd_def dest!: sql_find_SomeD split: option.splits simp del: sql_find_None)
  then show ?thesis using assms
    by (auto simp: SetReviewEnabled_def store_write_def tx_exec_def loadReviewEnabled_def db_scan_def
        db_query_def Let_def split: prod.splits sum.splits)
qed

theorem review_flag_agrees_witness:
  "review_enabled (SetReviewEnabled True fresh_store)
     = fst (loadReviewEnabled ((SetReviewEnabled True fresh_store)\<lparr>drv := []\<rparr>))"
  using review_flag_agrees [of fresh_store True]
  by (simp add: fresh_store_def loadReviewEnabled_def tx_simps empty_db_def)

end
