(* ===== verification/Search_Properties.thy ===== *)
theory Search_Properties
  imports Store_Properties
begin

text \<open>
  What searching promises: the query expression, the pages of a search, the ranking of keywords
  and fields, the suggestions and the list of recent searches.
\<close>

section \<open>Query terms\<close>

lemma fields_word:
  "w \<noteq> [] \<Longrightarrow> \<forall>c \<in> set w. \<not> is_space c \<Longrightarrow> str_fields w = [w]"
  by (cases w) (auto simp: takeWhile_eq_all_conv [THEN iffD2] dropWhile_eq_Nil_conv [THEN iffD2])

lemma fields_cons_word:
  "w \<noteq> [] \<Longrightarrow> \<forall>c \<in> set w. \<not> is_space c \<Longrightarrow> is_space b \<Longrightarrow> str_fields (w @ b # s) = w # str_fields s"
  by (cases w) (auto simp: takeWhile_append dropWhile_append)

lemma fields_join:
  "\<forall>w \<in> set ws. w \<noteq> [] \<and> (\<forall>c \<in> set w. \<not> is_space c) \<Longrightarrow> str_fields (join '' '' ws) = ws"
proof (induction "'' ''" ws rule: join.induct)
  case (2 x)
  then show ?case by (simp add: fields_word)
next
  case (3 x y zs)
  then show ?case using fields_cons_word [of x "CHR '' ''" "join '' '' (y # zs)"] by (simp add: is_space_def)
qed simp

lemma alnum_not_space: "is_alnum c \<Longrightarrow> \<not> is_space c"
  by (auto simp: is_alnum_def is_digit_def is_upper_def is_lower_def char_in_def is_space_def)

definition query_words :: "string \<Rightarrow> string list" where
  "query_words q = filter (\<lambda>t. t \<noteq> []) (map (filter is_alnum) (str_fields q))"

lemma query_words_ok: "w \<in> set (query_words q) \<Longrightarrow> w \<noteq> [] \<and> (\<forall>c \<in> set w. is_alnum c)"
  by (auto simp: query_words_def)

section \<open>Pages\<close>

definition with_archives :: "database \<Rightarrow> index_entry \<Rightarrow> index_entry" where
  "with_archives d e = e\<lparr>e_archives := sort (map m_arch (filter (\<lambda>m. m_doc m = e_cid e) (archive_docs d)))\<rparr>"

lemma filter_known: "c \<in> S \<Longrightarrow> filter (\<lambda>m. m_doc m = c) (filter (\<lambda>m. m_doc m \<in> S) xs) = filter (\<lambda>m. m_doc m = c) xs"
  by (induction xs) auto

lemma archivesForDocs_known:
  assumes "drv s = []" and "c \<in> set cids"
  shows "archivesForDocs cids s = (fst (archivesForDocs cids s), s)"
    and "fst (archivesForDocs cids s) c = sort (map m_arch (filter (\<lambda>m. m_doc m = c) (archive_docs (db s))))"
proof -
  have "cids \<noteq> []" using assms(2) by auto
  then have "archivesForDocs cids s = (\<lambda>c. sort (map m_arch (filter (\<lambda>m. m_doc m = c)
      (filter (\<lambda>m. m_doc m \<in> set cids) (archive_docs (db s))))), s)"
    using assms(1) by (simp add: archivesForDocs_def tx_simps del: filter_filter)
  then show "archivesForDocs cids s = (fst (archivesForDocs cids s), s)"
    "fst (archivesForDocs cids s) c = sort (map m_arch (filter (\<lambda>m. m_doc m = c) (archive_docs (db s))))"
    by (simp_all add: filter_known [OF assms(2)] del: filter_filter)
qed

lemma scanEntries_alt:
  assumes "drv s = []"
  shows "scanEntries rows s = (map (\<lambda>r. with_archives (db s) (entry_of_row r)) rows, s)"
proof (cases "rows = []")
  case False
  let ?es = "map entry_of_row rows"
  have "archivesForDocs (map e_cid ?es) s = (fst (archivesForDocs (map e_cid ?es) s), s)"
    using archivesForDocs_known(1) [OF assms, of "e_cid (entry_of_row (hd rows))" "map e_cid ?es"] False by simp
  moreover have "fst (archivesForDocs (map e_cid ?es) s) (e_cid (entry_of_row r))
      = sort (map m_arch (filter (\<lambda>m. m_doc m = e_cid (entry_of_row r)) (archive_docs (db s))))"
    if "r \<in> set rows" for r
    using that by (intro archivesForDocs_known(2) [OF assms]) auto
  ultimately show ?thesis using False
    by (auto simp: scanEntries_def Let_def with_archives_def split: prod.splits)
qed (simp add: scanEntries_def)

definition all_hits :: "fts_engine \<Rightarrow> string \<Rightarrow> store \<Rightarrow> index_entry list" where
  "all_hits eng q s = map (\<lambda>r. with_archives (db s) (entry_of_row r))
     (search_order eng (ftsMatch q) (search_join eng (ftsMatch q) (db s)))"

lemma length_search_join:
  assumes "docs_ok d"
  shows "length (search_join eng m d) = length (filter (fts_hit eng m) (documents_fts d))"
proof -
  have "length (concat (map (\<lambda>f. map (Pair f) (filter (\<lambda>r. d_cid r = x_cid f) (documents d))) fs)) = length fs"
    if "set fs \<subseteq> set (documents_fts d)" for fs
    using that
  proof (induction fs)
    case (Cons f fs)
    then have "x_cid f \<in> d_cid ` set (documents d)"
      using assms by (auto simp: docs_ok_def fts_of_row_def)
    moreover have "filter (\<lambda>r. d_cid r = x_cid f) (documents d)
        = (case sql_find d_cid (x_cid f) (documents d) of None \<Rightarrow> [] | Some r \<Rightarrow> [r])"
      using assms by (intro filter_key) (simp add: docs_ok_def)
    ultimately show ?case using Cons by (auto split: option.splits)
  qed simp
  from this [of "filter (fts_hit eng m) (documents_fts d)"]
  have "length (concat (map (\<lambda>f. map (Pair f) (filter (\<lambda>r. d_cid r = x_cid f) (documents d)))
      (filter (fts_hit eng m) (documents_fts d)))) = length (filter (fts_hit eng m) (documents_fts d))" by auto
  moreover have "concat (map (\<lambda>f. concat (if fts_hit eng m f
          then [concat (map (\<lambda>r. if d_cid r = x_cid f then [(f, r)] else []) (documents d))] else [])) fs)
      = concat (map (\<lambda>f. map (Pair f) (filter (\<lambda>r. d_cid r = x_cid f) (documents d)))
          (filter (fts_hit eng m) fs))" for fs
    by (induction fs) (auto simp: concat_map_if)
  ultimately show ?thesis by (simp add: search_join_def if_distrib cong: if_cong)
qed

lemma SearchPage_alt:
  assumes "drv s = []" and "docs_ok (db s)" and "fts_ok eng (ftsMatch q)" and "ftsMatch q \<noteq> []"
  shows "SearchPage eng q off lim s =
    (((if all_hits eng q s = [] then [] else sql_limit lim off (all_hits eng q s)), int (length (all_hits eng q s))), s)"
proof -
  have len: "length (all_hits eng q s) = length (filter (fts_hit eng (ftsMatch q)) (documents_fts (db s)))"
    using assms(2) by (simp add: all_hits_def search_order_def length_search_join)
  have "map f (sql_limit lim off xs) = sql_limit lim off (map f xs)"
    for f :: "doc_row \<Rightarrow> index_entry" and xs
    by (simp add: sql_limit_def Let_def take_map drop_map)
  then have "map (\<lambda>r. with_archives (db s) (entry_of_row r)) (sql_limit lim off
      (search_order eng (ftsMatch q) (search_join eng (ftsMatch q) (db s)))) = sql_limit lim off (all_hits eng q s)"
    by (simp add: all_hits_def)
  note slice = this
  show ?thesis
  proof (cases "all_hits eng q s = []")
    case True
    then have "length (filter (fts_hit eng (ftsMatch q)) (documents_fts (db s))) = 0" using len by simp
    then show ?thesis using assms(1,3,4) True by (simp add: SearchPage_def tx_simps del: length_0_conv)
  next
    case False
    then have "length (all_hits eng q s) \<noteq> 0" by simp
    then have "length (filter (fts_hit eng (ftsMatch q)) (documents_fts (db s))) \<noteq> 0" unfolding len .
    then show ?thesis using assms(1,3,4) False len slice
      by (simp add: SearchPage_def Let_def tx_simps scanEntries_alt)
  qed
qed

section \<open>Recent searches\<close>

definition recent_ok :: "store \<Rightarrow> bool" where
  "recent_ok s \<longleftrightarrow> distinct (map rs_keyword (recent s)) \<and> length (recent s) \<le> maxRecentItems
     \<and> list_all (\<lambda>r. to_lower (rs_keyword r) = rs_keyword r) (recent s)"

lemma take_all_minus: "take (length ys - (length ys - k)) (rev ys) = take k (rev ys)"
  by (cases "k \<le> length ys") auto

lemma drop_first_filter:
  "distinct (map rs_keyword xs) \<Longrightarrow> list_all (\<lambda>r. to_lower (rs_keyword r) = rs_keyword r) xs \<Longrightarrow>
     drop_first (\<lambda>r. equal_fold (rs_keyword r) kw) xs = filter (\<lambda>r. rs_keyword r \<noteq> to_lower kw) xs"
proof (induction xs)
  case (Cons x xs)
  show ?case
  proof (cases "rs_keyword x = to_lower kw")
    case True
    then have "filter (\<lambda>r. rs_keyword r \<noteq> to_lower kw) xs = xs"
      using Cons.prems(1) by (intro filter_True) force
    then show ?thesis using True Cons.prems by (simp add: equal_fold_def)
  qed (use Cons in \<open>simp add: equal_fold_def\<close>)
qed simp

section \<open>Suggestions\<close>

lemma card_label_docs:
  "label_docs rows l = int (card {c. (l, c) \<in> set rows})"
proof -
  have "set (map snd (filter (\<lambda>r. fst r = l) rows)) = {c. (l, c) \<in> set rows}" by force
  then show ?thesis unfolding label_docs_def by (metis List.card_set)
qed

lemma set_trim_space: "set (trim_space q) \<subseteq> set q"
  by (auto simp: trim_space_def trim_by_def trim_left_by_def trim_right_by_def dest!: set_dropWhileD)

lemma lower_char_wildcard: "c \<noteq> CHR ''%'' \<and> c \<noteq> CHR ''_'' \<Longrightarrow> lower_char c \<noteq> CHR ''%'' \<and> lower_char c \<noteq> CHR ''_''"
proof (cases "is_upper c")
  case True
  then have n: "(65::nat) \<le> of_char c" "(of_char c::nat) \<le> 90" by (auto simp: is_upper_def char_in_def)
  then have "of_char (lower_char c) = (of_char c + 32 :: nat)"
    using True by (simp add: lower_char_def take_bit_nat_eq_self)
  then have "of_char (lower_char c) \<noteq> (of_char CHR ''%'' :: nat)" "of_char (lower_char c) \<noteq> (of_char CHR ''_'' :: nat)"
    using n by simp_all
  then show ?thesis by metis
qed (simp add: lower_char_def)

lemma like_plain:
  assumes "\<forall>c \<in> set q. c \<noteq> CHR ''%'' \<and> c \<noteq> CHR ''_''"
  defines "p \<equiv> to_lower (trim_space q)"
  shows "like (''%'' @ p @ ''%'') l \<longleftrightarrow> contains (to_lower l) p"
proof -
  have "\<forall>c \<in> set p. c \<noteq> CHR ''%'' \<and> c \<noteq> CHR ''_''"
  proof
    fix c assume "c \<in> set p"
    then obtain d where "d \<in> set q" "c = lower_char d" using set_trim_space [of q] by (auto simp: p_def to_lower_def)
    then show "c \<noteq> CHR ''%'' \<and> c \<noteq> CHR ''_''" using assms(1) lower_char_wildcard [of d] by metis
  qed
  then show ?thesis using like_contains [of p l] by (simp add: p_def)
qed

section \<open>Properties\<close>


text \<open>
  Property C35. The pages of a search are the slices of the full result list, and the total
  reported with each is its length, as long as the full-text table mirrors the documents.
\<close>

theorem search_pages:
  assumes "drv s = []" and "docs_ok (db s)" and "fts_ok eng (ftsMatch q)" and "0 \<le> off" and "0 \<le> lim"
  shows "SearchPage eng q off lim s =
    ((take (nat lim) (drop (nat off) (fst (Search eng q s))), int (length (fst (Search eng q s)))), s)"
proof (cases "ftsMatch q = []")
  case False
  then show ?thesis using assms SearchPage_alt [OF assms(1-3) False]
    by (simp add: Search_def sql_limit_def)
qed (simp add: SearchPage_def Search_def)

theorem search_pages_witness:
  "fst (fst (SearchPage \<lparr>fts_ok = \<lambda>_. True, fts_hit = \<lambda>_ _. True, fts_rank = \<lambda>_ _. 0\<rparr> ''graph'' 0 1 shared_store))
     = take 1 (fst (Search \<lparr>fts_ok = \<lambda>_. True, fts_hit = \<lambda>_ _. True, fts_rank = \<lambda>_ _. 0\<rparr> ''graph'' shared_store))"
proof -
  have "drv shared_store = []" "docs_ok (db shared_store)"
    using reach_inv [OF shared_reach] by (auto simp: store_ok_def)
  from search_pages [OF this, of "\<lparr>fts_ok = \<lambda>_. True, fts_hit = \<lambda>_ _. True, fts_rank = \<lambda>_ _. 0\<rparr>" "''graph''" 0 1]
  show ?thesis by simp
qed

text \<open>
  The list of recent searches keeps at most thirty different lower-case keywords; a
  search with results moves its keyword to the front, dropping the oldest when full, and one
  without results changes nothing.
\<close>

theorem recent_searches:
  assumes "recent_ok s"
  shows "recent_ok (RecordSearch now kw n s)
    \<and> GetRecentSearches (RecordSearch now kw n s) =
       (if n = 0 then GetRecentSearches s
        else \<lparr>rs_keyword = to_lower kw, rs_count = n, rs_time = now\<rparr>
          # take 29 (filter (\<lambda>r. rs_keyword r \<noteq> to_lower kw) (GetRecentSearches s)))"
proof (cases "n = 0")
  case False
  let ?new = "\<lparr>rs_keyword = to_lower kw, rs_count = n, rs_time = now\<rparr>"
  let ?f = "filter (\<lambda>r. rs_keyword r \<noteq> to_lower kw) (recent s)"
  have f: "drop_first (\<lambda>r. equal_fold (rs_keyword r) kw) (recent s) = ?f"
    using assms by (intro drop_first_filter) (auto simp: recent_ok_def)
  have len: "length ?f \<le> 30"
    by (rule le_trans [OF length_filter_le]) (use assms in \<open>simp add: recent_ok_def maxRecentItems_def\<close>)
  have r: "recent (RecordSearch now kw n s) = drop (length ?f - 29) ?f @ [?new]"
  proof (cases "length ?f = 30")
    case True
    then show ?thesis using False f by (simp add: RecordSearch_def Let_def maxRecentItems_def)
  next
    case less: False
    then have "length ?f \<le> 29" using len by simp
    then show ?thesis using False f by (simp add: RecordSearch_def Let_def maxRecentItems_def)
  qed
  have "distinct (map rs_keyword ?f)" "list_all (\<lambda>r. to_lower (rs_keyword r) = rs_keyword r) ?f"
    using assms by (auto simp: recent_ok_def distinct_map_filter list_all_iff)
  then have "recent_ok (RecordSearch now kw n s)"
    using len unfolding recent_ok_def r
    by (auto simp: maxRecentItems_def drop_map [symmetric] list_all_iff dest!: in_set_dropD)
  moreover have "GetRecentSearches (RecordSearch now kw n s) = ?new # take 29 (rev ?f)"
    by (simp add: GetRecentSearches_def r rev_drop take_all_minus)
  ultimately show ?thesis using False by (simp add: GetRecentSearches_def rev_filter)
qed (use assms in \<open>simp add: RecordSearch_def recent_ok_def\<close>)

theorem recent_searches_witness:
  "recent_ok (RecordSearch 4 ''Graph'' 2 fresh_store)"
  using recent_searches [of fresh_store 4 "''Graph''" 2] by (simp add: recent_ok_def)

text \<open>
  The top keywords are the first n in the ranking by count, then name, and do not
  depend on the order in which the counting map is traversed: none is left out for one that ranks
  after it.
\<close>

theorem top_counted_ranking:
  assumes "distinct (map fst counts)" and "mset counts = mset counts'"
  shows "topCounted counts n = topCounted counts' n
    \<and> sorted_wrt (ranks_before counts) (topCounted counts n)
    \<and> length (topCounted counts n) = min n (length counts)
    \<and> (\<forall>a \<in> set (topCounted counts n). \<forall>b \<in> fst ` set counts - set (topCounted counts n). ranks_before counts a b)"
proof -
  let ?k = "sortByCountThenKey (map fst counts) counts"
  have s: "sorted_wrt (ranks_before counts) (take n ?k @ drop n ?k)"
    using sortBCK_sorted [OF assms(1)] by simp
  have sp: "set ?k = fst ` set counts" by simp
  have "b \<in> set (drop n ?k)" if "b \<in> fst ` set counts - set (take n ?k)" for b
    using that unfolding sp [symmetric] by (metis DiffE UnE append_take_drop_id set_append)
  then show ?thesis using s sortBCK_perm [OF assms(2,1)] mset_eq_length [OF assms(2)]
    unfolding sorted_wrt_append topCounted_alt by (auto simp del: append_take_drop_id)
qed

theorem top_counted_ranking_witness:
  "topCounted [(''b'', 2), (''a'', 2), (''c'', 1)] 2 = topCounted [(''c'', 1), (''a'', 2), (''b'', 2)] 2"
  using top_counted_ranking [of "[(''b'', 2), (''a'', 2), (''c'', 1)]" "[(''c'', 1), (''a'', 2), (''b'', 2)]" 2]
  by simp

text \<open>
  Suggestions for an input without LIKE wildcards: at most twenty, the labels that
  contain the trimmed input without regard to case, each with its number of documents; and a label
  that matches but is not shown only exists when twenty others are.
\<close>

theorem suggestions:
  assumes "drv s = []" and "\<forall>c \<in> set q. c \<noteq> CHR ''%'' \<and> c \<noteq> CHR ''_''"
  defines "out \<equiv> fst (Suggest q s)"
    and "hit \<equiv> (\<lambda>l. l \<in> fst ` set (labels (db s)) \<and> contains (to_lower l) (to_lower (trim_space q)))"
  shows "distinct (map sg_keyword out) \<and> length out = min 20 (card (Collect hit))
    \<and> (\<forall>g \<in> set out. hit (sg_keyword g) \<and> sg_count g = int (card {c. (sg_keyword g, c) \<in> set (labels (db s))}))"
proof -
  let ?p = "to_lower (trim_space q)"
  let ?rows = "filter (\<lambda>r. contains (to_lower (fst r)) ?p) (labels (db s))"
  let ?ls = "sort_key (\<lambda>l. (- label_docs ?rows l, l)) (remdups (map fst ?rows))"
  have "(?p = [] \<or> like (''%'' @ ?p @ ''%'') l) = contains (to_lower l) ?p" for l
    using like_plain [OF assms(2), of l] contains_iff [of "to_lower l" "[]"] by auto
  then have out: "out = take 20 (map (\<lambda>l. \<lparr>sg_keyword = l, sg_count = label_docs ?rows l\<rparr>) ?ls)"
    using assms(1) by (simp add: out_def Suggest_def Let_def tx_simps)
  have hits: "set ?ls = Collect hit" by (auto simp: hit_def)
  have d: "distinct ?ls" by simp
  have "label_docs ?rows l = int (card {c. (l, c) \<in> set (labels (db s))})" if "hit l" for l
    using that unfolding card_label_docs by (auto simp: hit_def intro!: arg_cong [where f = card])
  moreover have "map sg_keyword out = take 20 ?ls" by (simp add: out take_map [symmetric] comp_def)
  moreover have "length ?ls = card (Collect hit)" using distinct_card [OF d] hits by simp
  ultimately show ?thesis using d hits
    by (auto simp: out take_map distinct_take dest!: in_set_takeD simp del: set_sort)
qed

theorem suggestions_witness:
  "list_all (\<lambda>g. contains (to_lower (sg_keyword g)) ''phy'') (fst (Suggest '' PHY'' shared_store))"
proof -
  have "drv shared_store = []" using reach_inv [OF shared_reach] by simp
  moreover have "to_lower (trim_space '' PHY'') = ''phy''" by code_simp
  ultimately show ?thesis using suggestions [of shared_store "'' PHY''"] by (simp add: list_all_iff)
qed

end
