(* ===== verification/Indexer.thy ===== *)
theory Indexer
  imports Store_Steps
begin

text \<open>
  \<open>src/indexer.go\<close>: the worker loop over one document, the pool that processes a list of
  pending documents, and the jobs for a document list and for an archive. What lies outside is
  the environment \<open>'w env\<close>: a call of \<open>Pipeline.Process\<close> (\<open>None\<close> when it never returns),
  the clock, the order in which the workers finish, the crawler and the key file. A function
  that may block forever returns an option, \<open>None\<close> for not returning.
\<close>

section \<open>The environment\<close>

record 'w env =
  proc :: "'w \<Rightarrow> cid \<Rightarrow> (proc_result \<times> 'w) option"
  clk :: "'w \<Rightarrow> int"
  sched :: "'w \<Rightarrow> nat list"
  crawl :: "'w \<Rightarrow> cid \<Rightarrow> ((string + cid list) \<times> 'w) option"
  api_key :: "'w \<Rightarrow> string"
  spacing :: nanos

text \<open>
  The workers finish the documents in some order, picked one by one; every permutation of the
  pending list arises this way (\<open>completion_order_surj\<close>).
\<close>

fun completion_order :: "nat list \<Rightarrow> cid list \<Rightarrow> cid list" where
  "completion_order ks [] = []"
| "completion_order [] cs = cs"
| "completion_order (k # ks) (c # cs) =
     (let i = k mod Suc (length cs) in
      (c # cs) ! i # completion_order ks (take i (c # cs) @ drop (Suc i) (c # cs)))"

section \<open>One document\<close>

fun settle :: "int \<Rightarrow> outcome \<Rightarrow> cid \<Rightarrow> store \<Rightarrow> store" where
  "settle now (OFail e) c s = RecordFailure now c e s"
| "settle now OSkip c s = RecordSkip now c s"
| "settle now (OAdd e) c s = Add e s"

partial_function (option) handle_cid ::
  "'w env \<Rightarrow> cid \<Rightarrow> 'w \<Rightarrow> store \<Rightarrow> ('w \<times> store) option" where
  "handle_cid E c w s =
     (case proc E w c of
        None \<Rightarrow> None
      | Some (r, w') \<Rightarrow>
          (case r of
             RateLimited e \<Rightarrow> handle_cid E c w' s
           | ProcError e \<Rightarrow> Some (w', settle (clk E w') (OFail e) c s)
           | NoEntry \<Rightarrow> Some (w', settle (clk E w') OSkip c s)
           | Entry e \<Rightarrow> Some (w', settle (clk E w') (OAdd e) c s)))"

fun handle_all :: "'w env \<Rightarrow> cid list \<Rightarrow> 'w \<Rightarrow> store \<Rightarrow> ('w \<times> store) option" where
  "handle_all E [] w s = Some (w, s)"
| "handle_all E (c # cs) w s =
     (case handle_cid E c w s of None \<Rightarrow> None | Some (w', s') \<Rightarrow> handle_all E cs w' s')"

section \<open>The worker pool\<close>

text \<open>
  A negative worker count makes \<open>make(chan ...)\<close> panic, a spacing that is not positive makes
  \<open>NewTicker\<close> panic, and without a worker the first send blocks forever: none of these returns.
  The pauses themselves (\<open>baseBackoff\<close>, the ticker) leave no trace in the state.
\<close>

definition indexPending ::
  "'w env \<Rightarrow> int \<Rightarrow> cid list \<Rightarrow> 'w \<Rightarrow> store \<Rightarrow> ('w \<times> store) option" where
  "indexPending E workers pend w s =
     (if workers < 0 \<or> spacing E \<le> 0 \<or> (workers = 0 \<and> pend \<noteq> []) then None
      else (case handle_all E (completion_order (sched E w) pend) w s of
          None \<Rightarrow> None
        | Some (w', s') \<Rightarrow> Some (w', snd (Stats (SaveAll s')))))"

partial_function (option) index_loop ::
  "'w env \<Rightarrow> int \<Rightarrow> cid list \<Rightarrow> 'w \<Rightarrow> store \<Rightarrow> ('w \<times> store) option" where
  "index_loop E workers docs w s =
     (case Pending docs s of (pend, s1) \<Rightarrow>
        if pend = [] then Some (w, s1)
        else (case indexPending E workers pend w s1 of
            None \<Rightarrow> None
          | Some (w', s2) \<Rightarrow> index_loop E workers docs w' s2))"

text \<open>The same loop with at most \<open>n\<close> rounds of the pool; \<open>None\<close> when they do not suffice.\<close>

fun index_rounds :: "nat \<Rightarrow> 'w env \<Rightarrow> int \<Rightarrow> cid list \<Rightarrow> 'w \<Rightarrow> store \<Rightarrow> ('w \<times> store) option" where
  "index_rounds n E workers docs w s =
     (case Pending docs s of (pend, s1) \<Rightarrow>
        if pend = [] then Some (w, s1)
        else (case n of 0 \<Rightarrow> None
          | Suc k \<Rightarrow> (case indexPending E workers pend w s1 of
              None \<Rightarrow> None
            | Some (w', s2) \<Rightarrow> index_rounds k E workers docs w' s2)))"

section \<open>Jobs\<close>

definition archive_docs_phase ::
  "'w env \<Rightarrow> cid \<Rightarrow> 'w \<Rightarrow> store \<Rightarrow> (cid list option \<times> 'w \<times> store) option" where
  "archive_docs_phase E a w s =
     (let (docs, s1) = ArchiveDocCIDs a s in
      if docs \<noteq> [] then Some (Some docs, w, s1)
      else (let s2 = MarkArchiveCrawling a s1 in
        case crawl E w a of
          None \<Rightarrow> None
        | Some (Inl e, w') \<Rightarrow> Some (None, w', MarkArchiveFailed a e s2)
        | Some (Inr crawled, w') \<Rightarrow> Some (Some crawled, w', SetArchiveDocs a crawled s2)))"

definition indexArchive ::
  "'w env \<Rightarrow> int \<Rightarrow> cid \<Rightarrow> string \<Rightarrow> 'w \<Rightarrow> store \<Rightarrow> ('w \<times> store) option" where
  "indexArchive E workers a owner w s =
     (case archive_docs_phase E a w (snd (AddArchive (clk E w) a owner s)) of
        None \<Rightarrow> None
      | Some (None, w1, s1) \<Rightarrow> Some (w1, s1)
      | Some (Some docs, w1, s1) \<Rightarrow>
          (case index_loop E workers docs w1 s1 of
             None \<Rightarrow> None
           | Some (w2, s2) \<Rightarrow>
               Some (w2, snd (GetArchive a (SaveAll (FinalizeArchive (clk E w2) a s2))))))"

datatype job = JobArchive cid string | JobDocs "cid list"

definition process :: "'w env \<Rightarrow> int \<Rightarrow> job \<Rightarrow> 'w \<Rightarrow> store \<Rightarrow> ('w \<times> store) option" where
  "process E workers job w s =
     (if api_key E w = [] then
        (case job of
           JobArchive a owner \<Rightarrow> Some (w, MarkArchiveFailed a ''no API key configured for indexing'' s)
         | JobDocs cids \<Rightarrow> Some (w, s))
      else
        (case job of
           JobArchive a owner \<Rightarrow> indexArchive E workers a owner w s
         | JobDocs cids \<Rightarrow> (case Pending cids s of (pend, s1) \<Rightarrow>
             if length pend > 0 then indexPending E workers pend w s1 else Some (w, s1))))"

section \<open>Completion orders\<close>

lemma mset_completion_order [simp]: "mset (completion_order ks cs) = mset cs"
proof (induction ks cs rule: completion_order.induct)
  case (3 k ks c cs)
  let ?i = "k mod Suc (length cs)" and ?l = "c # cs"
  have i: "?i < length ?l" by simp
  have "mset (completion_order (k # ks) (c # cs))
      = add_mset (?l ! ?i) (mset (take ?i ?l @ drop (Suc ?i) ?l))"
    using "3.IH" [OF refl] by (simp only: completion_order.simps Let_def mset.simps)
  also have "\<dots> = mset (take ?i ?l @ ?l ! ?i # drop (Suc ?i) ?l)" by simp
  also have "\<dots> = mset ?l" using id_take_nth_drop [OF i] by simp
  finally show ?case .
qed simp_all

lemma set_completion_order [simp]: "set (completion_order ks cs) = set cs"
  by (metis mset_completion_order set_mset_mset)

lemma distinct_completion_order [simp]: "distinct (completion_order ks cs) = distinct cs"
  by (metis mset_completion_order mset_eq_imp_distinct_iff)

lemma completion_order_surj: "mset ys = mset cs \<Longrightarrow> \<exists>ks. completion_order ks cs = ys"
proof (induction ys arbitrary: cs)
  case Nil
  then show ?case by simp
next
  case (Cons y ys)
  then obtain c cs' where cs: "cs = c # cs'" by (cases cs) auto
  have "y \<in> set cs" using Cons.prems by (metis list.set_intros(1) mset_eq_setD)
  then obtain i where i: "i < length cs" "cs ! i = y" by (auto simp: in_set_conv_nth)
  let ?rest = "take i cs @ drop (Suc i) cs"
  have "mset cs = mset (take i cs @ cs ! i # drop (Suc i) cs)" using id_take_nth_drop [OF i(1)] by simp
  then have "mset ys = mset ?rest" using Cons.prems i by simp
  then obtain ks where "completion_order ks ?rest = ys" using Cons.IH by blast
  then have "completion_order (i # ks) cs = y # ys" using i cs by (simp add: Let_def)
  then show ?case by blast
qed

section \<open>One round of the pool\<close>

abbreviation settle_act :: "int \<times> outcome \<times> cid \<Rightarrow> store \<Rightarrow> store" where
  "settle_act x \<equiv> settle (fst x) (fst (snd x)) (snd (snd x))"

lemma settle_cases:
  "settle now out c s = (case out of OFail e \<Rightarrow> RecordFailure now c e s | OSkip \<Rightarrow> RecordSkip now c s
     | OAdd e \<Rightarrow> Add e s)"
  by (cases out) simp_all

lemmas round_budget = ledger.round_budget [where act = settle_act, OF settle_cases]

definition same_archives :: "store \<Rightarrow> store \<Rightarrow> bool" where
  "same_archives s s' \<longleftrightarrow> archives (db s') = archives (db s) \<and> archive_docs (db s') = archive_docs (db s)
     \<and> submissions (db s') = submissions (db s) \<and> denylist (db s') = denylist (db s)
     \<and> settings (db s') = settings (db s) \<and> review_enabled s' = review_enabled s"

lemma same_archives_refl [simp]: "same_archives s s"
  by (simp add: same_archives_def)

lemma same_archives_trans: "same_archives s s' \<Longrightarrow> same_archives s' s'' \<Longrightarrow> same_archives s s''"
  by (simp add: same_archives_def)

lemma settle_frame:
  assumes "drv s = []"
  shows "same_archives s (settle now out c s) \<and> drv (settle now out c s) = []"
  using assms
  by (cases out) (auto simp: same_archives_def Add_run RecordFailure_run RecordSkip_run Let_def)

lemma fold_settle_frame:
  "drv s = [] \<Longrightarrow> same_archives s (fold settle_act xs s) \<and> drv (fold settle_act xs s) = []"
proof (induction xs arbitrary: s)
  case (Cons x xs)
  show ?case
    using Cons.IH [of "settle_act x s"] settle_frame [OF Cons.prems]
    by (auto intro: same_archives_trans)
qed simp

lemma Stats_run: "drv s = [] \<Longrightarrow> snd (Stats s) = s"
  by (simp add: Stats_def tx_simps)

context processor
begin

lemma handle_cid_settles:
  assumes "proc E = prc" and "handle_cid E c w s = Some (w', s')"
  shows "\<exists>now out. fits out c \<and> s' = settle now out c s"
proof -
  from assms(2) obtain r w1 where r: "prc w c = Some (r, w1)"
    by (subst (asm) handle_cid.simps) (auto simp: assms(1) split: option.splits)
  show ?thesis
  proof (cases r)
    case (RateLimited x)
    with r never_limited show ?thesis by simp
  next
    case (ProcError e)
    with r assms show ?thesis
      by (subst (asm) handle_cid.simps)
        (auto simp: fits_def intro!: exI [of _ "clk E w1"] exI [of _ "OFail e"])
  next
    case NoEntry
    with r assms show ?thesis
      by (subst (asm) handle_cid.simps)
        (auto simp: fits_def intro!: exI [of _ "clk E w1"] exI [of _ OSkip])
  next
    case (Entry e)
    with r entry_cid have "e_cid e = c" by simp
    with r assms Entry show ?thesis
      by (subst (asm) handle_cid.simps)
        (auto simp: fits_def intro!: exI [of _ "clk E w1"] exI [of _ "OAdd e"])
  qed
qed

lemma handle_cid_returns:
  assumes "proc E = prc" and "prc w c = Some (r, w')"
  shows "\<exists>s'. handle_cid E c w s = Some (w', s')"
  using assms never_limited [of w c]
  by (subst handle_cid.simps) (auto split: proc_result.splits)

lemma handle_all_settles:
  assumes "proc E = prc"
  shows "handle_all E cs w s = Some (w', s') \<Longrightarrow>
    \<exists>xs. map (snd \<circ> snd) xs = cs \<and> (\<forall>x \<in> set xs. fits (fst (snd x)) (snd (snd x)))
      \<and> s' = fold settle_act xs s"
proof (induction cs arbitrary: w s)
  case Nil
  then show ?case by simp
next
  case (Cons c cs)
  then obtain w1 s1 where h: "handle_cid E c w s = Some (w1, s1)" "handle_all E cs w1 s1 = Some (w', s')"
    by (auto split: option.splits)
  from handle_cid_settles [OF assms h(1)] obtain now out
    where o: "fits out c" "s1 = settle now out c s" by blast
  from Cons.IH [OF h(2)] obtain xs where "map (snd \<circ> snd) xs = cs"
    "\<forall>x \<in> set xs. fits (fst (snd x)) (snd (snd x))" "s' = fold settle_act xs s1" by blast
  with o show ?case by (intro exI [of _ "(now, out, c) # xs"]) (simp add: comp_def)
qed

lemma handle_all_returns:
  assumes "proc E = prc" and "\<forall>w c. prc w c \<noteq> None"
  shows "\<exists>w' s'. handle_all E cs w s = Some (w', s')"
proof (induction cs arbitrary: w s)
  case (Cons c cs)
  obtain r w1 where r: "prc w c = Some (r, w1)" using assms(2) by fastforce
  obtain s1 where "handle_cid E c w s = Some (w1, s1)" using handle_cid_returns [OF assms(1) r] by blast
  then show ?case using Cons.IH by simp
qed simp

text \<open>A round settles every pending document it is given a little further.\<close>

lemma indexPending_round:
  assumes "proc E = prc" and "indexPending E workers ps w s = Some (w', s')"
    and ok: "drv s = []" "store_ok (db s)" and "distinct ps" and "\<forall>c \<in> set ps. budget (db s) c > 0"
  shows "drv s' = [] \<and> store_ok (db s') \<and> same_archives s s'
    \<and> (\<forall>c \<in> set ps. budget (db s') c < budget (db s) c)
    \<and> (\<forall>c. c \<notin> set ps \<longrightarrow> budget (db s') c = budget (db s) c)"
proof -
  from assms(2) obtain s1 where h: "handle_all E (completion_order (sched E w) ps) w s = Some (w', s1)"
    and s': "s' = snd (Stats (SaveAll s1))"
    by (auto simp: indexPending_def split: if_splits option.splits)
  from handle_all_settles [OF assms(1) h] obtain xs
    where xs: "map (snd \<circ> snd) xs = completion_order (sched E w) ps"
      "\<forall>x \<in> set xs. fits (fst (snd x)) (snd (snd x))" "s1 = fold settle_act xs s" by blast
  have set_xs: "(snd \<circ> snd) ` set xs = set ps"
    using xs(1) by (metis set_completion_order set_map)
  have "distinct (map (snd \<circ> snd) xs)" using xs(1) assms(5) by simp
  moreover have "\<forall>x \<in> set xs. budget (db s) (snd (snd x)) > 0 \<and> fits (fst (snd x)) (snd (snd x))"
    using xs(2) assms(6) set_xs by (auto simp: image_iff)
  ultimately have r: "(drv s1 = [] \<and> store_ok (db s1))
      \<and> (\<forall>x \<in> set xs. budget (db s1) (snd (snd x)) < budget (db s) (snd (snd x)))
      \<and> (\<forall>c. c \<notin> (snd \<circ> snd) ` set xs \<longrightarrow> budget (db s1) c = budget (db s) c)"
    unfolding xs(3) using ok by (intro round_budget) auto
  have "s' = s1" unfolding s' using r by (simp add: Stats_run SaveAll_run)
  moreover have "\<forall>c \<in> set ps. budget (db s1) c < budget (db s) c"
    using r set_xs by (metis (mono_tags, lifting) comp_apply imageE)
  moreover have "same_archives s s1" unfolding xs(3) using ok fold_settle_frame by blast
  ultimately show ?thesis using r set_xs by simp
qed

lemma indexPending_returns:
  assumes "proc E = prc" and "\<forall>w c. prc w c \<noteq> None" and "workers > 0 \<and> spacing E > 0"
  shows "\<exists>w' s'. indexPending E workers ps w s = Some (w', s')"
proof -
  obtain w' s' where "handle_all E (completion_order (sched E w) ps) w s = Some (w', s')"
    using handle_all_returns [OF assms(1,2)] by blast
  then show ?thesis using assms(3) by (simp add: indexPending_def)
qed

end

section \<open>The indexing loop\<close>

lemma same_archives_pending [simp]: "same_archives s (s'\<lparr>pending := n\<rparr>) = same_archives s s'"
  "same_archives (s\<lparr>pending := n\<rparr>) s' = same_archives s s'"
  by (simp_all add: same_archives_def)

declare index_rounds.simps [simp del]

context processor
begin

text \<open>\<open>k\<close> rounds are enough when no document can fail more than \<open>k\<close> times.\<close>

lemma index_rounds_settle:
  assumes "proc E = prc" and "\<forall>w c. prc w c \<noteq> None" and "workers > 0 \<and> spacing E > 0"
  shows "drv s = [] \<Longrightarrow> store_ok (db s) \<Longrightarrow> distinct docs \<Longrightarrow>
    \<forall>c \<in> set docs. budget (db s) c \<le> k \<Longrightarrow>
    \<exists>w' s'. index_rounds k E workers docs w s = Some (w', s') \<and> drv s' = [] \<and> store_ok (db s')
      \<and> same_archives s s' \<and> (\<forall>c \<in> set docs. budget (db s') c = 0)"
proof (induction k arbitrary: w s)
  case 0
  then have "filter (\<lambda>c. budget (db s) c > 0) docs = []" by (simp add: filter_empty_conv)
  then show ?case using 0
    by (simp add: index_rounds.simps [of 0] Pending_run store_ok_def)
next
  case (Suc k)
  let ?ps = "filter (\<lambda>c. budget (db s) c > 0) docs"
  let ?s1 = "s\<lparr>pending := int (length ?ps)\<rparr>"
  have P: "Pending docs s = (?ps, ?s1)" using Suc.prems by (simp add: Pending_run store_ok_def)
  show ?case
  proof (cases "?ps = []")
    case True
    then have "\<forall>c \<in> set docs. budget (db s) c = 0" by (simp add: filter_empty_conv)
    with True P Suc.prems show ?thesis by (simp add: index_rounds.simps [of "Suc k"])
  next
    case False
    obtain w' s' where r: "indexPending E workers ?ps w ?s1 = Some (w', s')"
      using indexPending_returns [OF assms] by blast
    have s': "drv s' = [] \<and> store_ok (db s') \<and> same_archives ?s1 s'
        \<and> (\<forall>c \<in> set ?ps. budget (db s') c < budget (db ?s1) c)
        \<and> (\<forall>c. c \<notin> set ?ps \<longrightarrow> budget (db s') c = budget (db ?s1) c)"
      using Suc.prems by (intro indexPending_round [OF assms(1) r]) auto
    have "\<forall>c \<in> set docs. budget (db s') c \<le> k"
    proof
      fix c
      assume c: "c \<in> set docs"
      show "budget (db s') c \<le> k"
      proof (cases "budget (db s) c > 0")
        case True
        then have "budget (db s') c < budget (db s) c" using s' c by simp
        then show ?thesis using Suc.prems(4) c by fastforce
      next
        case False
        then have "budget (db s') c = budget (db s) c" using s' by simp
        then show ?thesis using False by simp
      qed
    qed
    then obtain w2 s2 where "index_rounds k E workers docs w' s' = Some (w2, s2)"
      "drv s2 = []" "store_ok (db s2)" "same_archives s' s2" "\<forall>c \<in> set docs. budget (db s2) c = 0"
      using Suc.IH [of s' w'] s' Suc.prems(3) by blast
    then show ?thesis using False P r s' same_archives_trans [of s s' s2]
      by (auto simp: index_rounds.simps [of "Suc k"])
  qed
qed

end

text \<open>When the bounded loop returns, the loop of the code returns the same.\<close>

lemma index_loop_rounds:
  "index_rounds n E workers docs w s = Some r \<Longrightarrow> index_loop E workers docs w s = Some r"
proof (induction n arbitrary: w s)
  case 0
  then show ?case
    by (subst index_loop.simps) (auto simp: index_rounds.simps [of 0] split: prod.splits if_splits)
next
  case (Suc n)
  then show ?case
    by (subst index_loop.simps)
      (auto simp: index_rounds.simps [of "Suc n"] split: prod.splits if_splits option.splits)
qed

section \<open>An archive job\<close>

lemma ArchiveDocCIDs_run: "drv s = [] \<Longrightarrow> ArchiveDocCIDs a s = (doc_list a (db s), s)"
  by (simp add: ArchiveDocCIDs_def tx_simps)

lemma set_doc_list: "set (doc_list a d) = m_doc ` set (member_rows a d)"
  by (simp add: doc_list_def)

lemma distinct_doc_list_keys:
  assumes "distinct (map m_key (archive_docs d))"
  shows "distinct (doc_list a d)"
proof -
  have "distinct (map m_doc (member_rows a d))" using assms by (rule distinct_member_keys)
  moreover have "mset (map m_doc (member_rows a d)) = mset (doc_list a d)"
    by (simp add: doc_list_def)
  ultimately show ?thesis by (metis mset_eq_imp_distinct_iff)
qed

lemma distinct_doc_list: "members_ok d \<Longrightarrow> distinct (doc_list a d)"
  by (rule distinct_doc_list_keys) (simp add: members_ok_def)

lemma fillArchiveProgress_run:
  "drv s = [] \<Longrightarrow> snd (fillArchiveProgress a s) = s"
  by (simp add: fillArchiveProgress_def tx_simps)

lemma archivesForDocs_run: "drv s = [] \<Longrightarrow> snd (archivesForDocs cids s) = s"
  by (simp add: archivesForDocs_def tx_simps)

lemma scanEntries_run: "drv s = [] \<Longrightarrow> snd (scanEntries rows s) = s"
  using archivesForDocs_run [of s "map e_cid (map entry_of_row rows)"]
  by (cases "archivesForDocs (map e_cid (map entry_of_row rows)) s")
    (simp add: scanEntries_def Let_def)

lemma GetArchive_run:
  assumes "drv s = []"
  shows "snd (GetArchive a s) = s"
proof (cases "sql_find r_cid a (archives (db s))")
  case None
  then show ?thesis using assms by (simp add: GetArchive_def tx_simps del: sql_find_None)
next
  case (Some row)
  let ?a = "(scanArchive row)\<lparr>a_docs := doc_list a (db s)\<rparr>"
  let ?rows = "map snd (sort_key (\<lambda>(m, r). m_pos m) (indexed_members a (db s)))"
  obtain a' where f: "fillArchiveProgress ?a s = (a', s)"
    using fillArchiveProgress_run [OF assms] by (metis prod.collapse)
  obtain es where "scanEntries ?rows s = (es, s)"
    using scanEntries_run [OF assms] by (metis prod.collapse)
  then show ?thesis using Some assms f
    by (simp add: GetArchive_def tx_simps ArchiveDocCIDs_run)
qed

lemma archive_exists_add: "archive_exists c (add_archive_db now c owner d)"
proof (cases "archive_exists c d")
  case True
  then show ?thesis by (simp add: add_archive_db_def archive_exists_update)
next
  case False
  then have "add_archive_db now c owner d = d\<lparr>archives := archives d @ [new_arch_row now c owner]\<rparr>"
    by (simp add: add_archive_db_def)
  then show ?thesis by (simp add: archive_exists_def new_arch_row_def)
qed

text \<open>
  The document list an archive job works on: the stored one, or what the crawler found, which
  has then been stored.
\<close>

lemma archive_docs_phase_run:
  assumes "drv s = []" and "store_ok (db s)" and "archive_exists a (db s)"
    and "crawl E w a = Some (Inr crawled, w1)" and "distinct crawled"
  shows "\<exists>docs w' s'. archive_docs_phase E a w s = Some (Some docs, w', s') \<and> drv s' = []
    \<and> store_ok (db s') \<and> archive_exists a (db s') \<and> distinct docs
    \<and> set docs = m_doc ` set (member_rows a (db s'))"
proof (cases "doc_list a (db s) = []")
  case False
  then show ?thesis using assms
    by (auto simp: archive_docs_phase_def ArchiveDocCIDs_run set_doc_list store_ok_def
        intro: distinct_doc_list)
next
  case True
  let ?d = "update_arch a (\<lambda>r. r\<lparr>r_status := Crawling\<rparr>) (db s)"
  have ex: "archive_exists a ?d" using assms(3) by (simp add: archive_exists_update)
  have ok: "store_ok ?d" using assms(2) by (rule store_ok_update) simp_all
  have "set (doc_list a (set_docs_db a crawled ?d)) = set crawled"
    using doc_list_set_docs [OF assms(5)] by simp
  then have "m_doc ` set (member_rows a (set_docs_db a crawled ?d)) = set crawled"
    by (simp add: set_doc_list)
  moreover have "archive_exists a (set_docs_db a crawled ?d)"
    using ex by (simp add: archive_exists_set_docs [OF assms(5)])
  ultimately show ?thesis
    using True assms store_ok_set_docs [OF ok ex assms(5)]
    by (simp add: archive_docs_phase_def ArchiveDocCIDs_run MarkArchiveCrawling_def
        updateArchive_run SetArchiveDocs_run)
qed

lemma finalize_done:
  assumes "failures_ok d" and "\<forall>m \<in> set (member_rows a d). budget d (m_doc m) = 0"
  shows "r_status (finalize_row now a d r) = Done"
  using assms by (simp add: finalize_row_def Let_def pending_members_alt filter_empty_conv
      split: prod.splits)

context processor
begin

lemma indexArchive_done:
  assumes E: "proc E = prc" "\<forall>w c. prc w c \<noteq> None" "workers > 0 \<and> spacing E > 0"
    and s: "drv s = []" "store_ok (db s)"
    and cr: "\<And>w. \<exists>crawled w'. crawl E w a = Some (Inr crawled, w') \<and> distinct crawled"
  shows "\<exists>w' s'. indexArchive E workers a owner w s = Some (w', s') \<and> drv s' = [] \<and> store_ok (db s')
    \<and> (\<exists>r. sql_find r_cid a (archives (db s')) = Some r \<and> r_status r = Done)
    \<and> (\<forall>c \<in> m_doc ` set (member_rows a (db s')). budget (db s') c = 0)"
proof -
  let ?s0 = "snd (AddArchive (clk E w) a owner s)"
  have s0: "drv ?s0 = []" "store_ok (db ?s0)" "archive_exists a (db ?s0)"
    using s by (auto simp: AddArchive_run intro: store_ok_add_archive archive_exists_add)
  obtain crawled w0 where "crawl E w a = Some (Inr crawled, w0)" "distinct crawled" using cr by blast
  from archive_docs_phase_run [OF s0 this] obtain docs w1 s1
    where ph: "archive_docs_phase E a w ?s0 = Some (Some docs, w1, s1)" and s1: "drv s1 = []"
      "store_ok (db s1)" "archive_exists a (db s1)" "distinct docs"
      "set docs = m_doc ` set (member_rows a (db s1))" by blast
  have "\<forall>c \<in> set docs. budget (db s1) c \<le> 3" using s1(2) by (simp add: store_ok_def budget_le)
  from index_rounds_settle [OF E s1(1,2,4) this] obtain w2 s2
    where l: "index_rounds 3 E workers docs w1 s1 = Some (w2, s2)" and s2: "drv s2 = []"
      "store_ok (db s2)" "same_archives s1 s2" "\<forall>c \<in> set docs. budget (db s2) c = 0" by blast
  note loop = index_loop_rounds [OF l]
  let ?f = "finalize_row (clk E w2) a (db s2)"
  let ?s3 = "s2\<lparr>db := update_arch a ?f (db s2)\<rparr>"
  have ex2: "archive_exists a (db s2)" using s1(3) s2(3) by (simp add: archive_exists_def same_archives_def)
  have rows: "member_rows a (db s2) = member_rows a (db s1)"
    using s2(3) by (simp add: member_rows_def same_archives_def)
  have res: "indexArchive E workers a owner w s = Some (w2, ?s3)"
    using ph loop s2(1) ex2
    by (simp add: indexArchive_def FinalizeArchive_run SaveAll_run GetArchive_run)
  from ex2 obtain r where r: "sql_find r_cid a (archives (db s2)) = Some r"
    by (cases "sql_find r_cid a (archives (db s2))") (auto simp: archive_exists_def)
  then have "sql_find r_cid a (archives (db ?s3)) = Some (?f r)"
    by (auto simp: update_arch_def sql_find_update dest: sql_find_SomeD)
  moreover have "r_status (?f r) = Done"
    using s2 s1(5) rows by (intro finalize_done) (auto simp: store_ok_def)
  moreover have "store_ok (db ?s3)" using s2(2) by (auto intro: store_ok_update)
  moreover have "\<forall>c \<in> m_doc ` set (member_rows a (db ?s3)). budget (db ?s3) c = 0"
    using s2(4) s1(5) rows
    by (auto simp: member_rows_def budget_def is_indexed_def attempts_def failure_count_def)
  ultimately show ?thesis using res s2(1) by auto
qed

end

end
