(* ===== verification/Worker_Pool.thy ===== *)
theory Worker_Pool
  imports Indexer
begin

text \<open>
  The goroutines of \<open>indexPending\<close> in \<open>src/indexer.go\<close> as a transition system: the
  dispatcher sends the pending documents into a channel of capacity \<open>n\<close>, \<open>n\<close> workers
  receive from it, and a worker finishes its document with one call of a store operation (the
  store serialises them through its writer lock). A rate-limited attempt keeps the worker where
  it is. The lemmas justify \<open>completion_order\<close> in \<open>Indexer\<close>: a finished run of the pool has
  settled every document exactly once, in some order.
\<close>

record pool =
  todo :: "cid list"
  chan :: "cid list"
  slots :: "cid option list"
  pstore :: store

definition pool_init :: "nat \<Rightarrow> cid list \<Rightarrow> store \<Rightarrow> pool" where
  "pool_init n pend s = \<lparr>todo = pend, chan = [], slots = replicate n None, pstore = s\<rparr>"

definition pool_final :: "pool \<Rightarrow> bool" where
  "pool_final p \<longleftrightarrow> todo p = [] \<and> chan p = [] \<and> set (slots p) \<subseteq> {None}"

inductive pool_step :: "nat \<Rightarrow> pool \<Rightarrow> pool \<Rightarrow> bool" for n where
  send: "todo p = c # cs \<Longrightarrow> length (chan p) < n \<Longrightarrow>
    pool_step n p (p\<lparr>todo := cs, chan := chan p @ [c]\<rparr>)"
| recv: "chan p = c # cs \<Longrightarrow> i < length (slots p) \<Longrightarrow> slots p ! i = None \<Longrightarrow>
    pool_step n p (p\<lparr>chan := cs, slots := (slots p)[i := Some c]\<rparr>)"
| fin: "i < length (slots p) \<Longrightarrow> slots p ! i = Some c \<Longrightarrow> fits out c \<Longrightarrow>
    pool_step n p (p\<lparr>slots := (slots p)[i := None], pstore := settle now out c (pstore p)\<rparr>)"

inductive_cases pool_stepE: "pool_step n p p'"

inductive pool_run :: "nat \<Rightarrow> pool \<Rightarrow> nat \<Rightarrow> pool \<Rightarrow> bool" for n where
  stop: "pool_run n p 0 p"
| more: "pool_run n p k q \<Longrightarrow> pool_step n q r \<Longrightarrow> pool_run n p (Suc k) r"

definition in_flight :: "pool \<Rightarrow> cid multiset" where
  "in_flight p = image_mset the (filter_mset (\<lambda>x. x \<noteq> None) (mset (slots p)))"

lemma in_flight_recv:
  assumes "i < length (slots p)" and "slots p ! i = None"
  shows "in_flight (p\<lparr>chan := cs, slots := (slots p)[i := Some c]\<rparr>) = add_mset c (in_flight p)"
proof -
  have "None \<in># mset (slots p)" using assms by (metis nth_mem set_mset_mset)
  then obtain M where M: "mset (slots p) = add_mset None M" by (metis mset_add)
  then show ?thesis using assms by (simp add: in_flight_def mset_update)
qed

lemma in_flight_fin:
  assumes "i < length (slots p)" and "slots p ! i = Some c"
  shows "add_mset c (in_flight (p\<lparr>slots := (slots p)[i := None], pstore := s\<rparr>)) = in_flight p"
proof -
  have "Some c \<in># mset (slots p)" using assms by (metis nth_mem set_mset_mset)
  then obtain M where M: "mset (slots p) = add_mset (Some c) M" by (metis mset_add)
  then show ?thesis using assms by (simp add: in_flight_def mset_update)
qed

lemma in_flight_init [simp]: "in_flight (pool_init n pend s) = {#}"
  by (simp add: in_flight_def pool_init_def)

lemma in_flight_final: "in_flight p = {#} \<longleftrightarrow> set (slots p) \<subseteq> {None}"
proof -
  have "filter_mset (\<lambda>x. x \<noteq> None) M = {#} \<longleftrightarrow> (\<forall>x \<in># M. x = None)" for M :: "cid option multiset"
    by (induction M) auto
  then show ?thesis by (auto simp: in_flight_def)
qed

text \<open>Every document is waiting, in the channel, with a worker, or settled.\<close>

definition pool_inv :: "nat \<Rightarrow> cid list \<Rightarrow> store \<Rightarrow> pool \<Rightarrow> bool" where
  "pool_inv n pend s p \<longleftrightarrow> length (slots p) = n \<and> length (chan p) \<le> n \<and>
     (\<exists>xs. pstore p = fold settle_act xs s \<and> (\<forall>x \<in> set xs. fits (fst (snd x)) (snd (snd x)))
       \<and> mset (map (snd \<circ> snd) xs) + mset (todo p) + mset (chan p) + in_flight p = mset pend)"

lemma pool_inv_init: "pool_inv n pend s (pool_init n pend s)"
  unfolding pool_inv_def by (auto simp: pool_init_def in_flight_def intro!: exI [of _ "[]"])

lemma pool_inv_step:
  assumes "pool_step n p q" and "pool_inv n pend s p"
  shows "pool_inv n pend s q"
proof -
  from assms(2) obtain xs where xs: "pstore p = fold settle_act xs s"
    "\<forall>x \<in> set xs. fits (fst (snd x)) (snd (snd x))"
    "mset (map (snd \<circ> snd) xs) + mset (todo p) + mset (chan p) + in_flight p = mset pend"
    and len: "length (slots p) = n" "length (chan p) \<le> n"
    by (auto simp: pool_inv_def)
  from assms(1) show ?thesis
  proof (cases rule: pool_step.cases)
    case (send c cs)
    then have "in_flight q = in_flight p" by (simp add: in_flight_def)
    then show ?thesis using send xs len
      unfolding pool_inv_def by (intro conjI exI [of _ xs]) (auto simp: ac_simps)
  next
    case (recv c cs i)
    then show ?thesis using xs len in_flight_recv [of i p c cs]
      unfolding pool_inv_def by (intro conjI exI [of _ xs]) (auto simp: ac_simps)
  next
    case (fin i c out now)
    have "mset (map (snd \<circ> snd) (xs @ [(now, out, c)])) + mset (todo q) + mset (chan q) + in_flight q
        = mset pend"
      using fin xs(3) in_flight_fin [of i p c "settle now out c (pstore p)", symmetric]
      by (simp add: ac_simps)
    then show ?thesis using fin xs len
      unfolding pool_inv_def by (intro conjI exI [of _ "xs @ [(now, out, c)]"]) auto
  qed
qed

lemma pool_run_inv: "pool_run n p k q \<Longrightarrow> pool_inv n pend s p \<Longrightarrow> pool_inv n pend s q"
  by (induction rule: pool_run.induct) (auto intro: pool_inv_step)

text \<open>Each step moves a document one stage on, so a run takes at most three steps a document.\<close>

definition pool_work :: "pool \<Rightarrow> nat" where
  "pool_work p = 3 * length (todo p) + 2 * length (chan p) + size (in_flight p)"

lemma pool_step_work: "pool_step n p q \<Longrightarrow> pool_work p = Suc (pool_work q)"
proof (induction rule: pool_step.induct)
  case (send p c cs)
  then show ?case by (simp add: pool_work_def in_flight_def)
next
  case (recv p c cs i)
  then show ?case using in_flight_recv [of i p c cs] by (simp add: pool_work_def)
next
  case (fin i p c out now)
  have "size (in_flight p) = Suc (size (in_flight (p\<lparr>slots := (slots p)[i := None],
      pstore := settle now out c (pstore p)\<rparr>)))"
    using in_flight_fin [OF fin(1,2)] by (metis size_add_mset)
  then show ?case by (simp add: pool_work_def)
qed

lemma pool_run_work: "pool_run n p k q \<Longrightarrow> pool_work p = pool_work q + k"
  by (induction rule: pool_run.induct) (auto dest: pool_step_work)

text \<open>With a worker, the pool is never stuck before it is done.\<close>

lemma pool_progress_slots:
  assumes len: "length (slots p) = n" and n: "n > 0" and "\<not> pool_final p"
  shows "\<exists>q. pool_step n p q"
proof (cases "\<exists>i < length (slots p). slots p ! i \<noteq> None")
  case True
  then obtain i c where "i < length (slots p)" "slots p ! i = Some c" by auto
  then show ?thesis using pool_step.fin [of i p c OSkip n 0] by (auto simp: fits_def)
next
  case False
  then have none: "set (slots p) \<subseteq> {None}" by (auto simp: in_set_conv_nth)
  show ?thesis
  proof (cases "chan p")
    case Nil
    then obtain c cs where "todo p = c # cs"
      using assms(3) none by (cases "todo p") (auto simp: pool_final_def)
    then show ?thesis using Nil n pool_step.send [of p c cs n] by auto
  next
    case (Cons c cs)
    then show ?thesis using pool_step.recv [of p c cs 0 n] False len n by auto
  qed
qed

lemma pool_progress: "pool_inv n pend s p \<Longrightarrow> n > 0 \<Longrightarrow> \<not> pool_final p \<Longrightarrow> \<exists>q. pool_step n p q"
  by (rule pool_progress_slots) (simp_all add: pool_inv_def)

end
