(* ===== verification/Job_Queue.thy ===== *)
theory Job_Queue
  imports Worker_Pool
begin

text \<open>
  The job queue of \<open>src/indexer.go\<close>: the buffered channel \<open>Indexer.jobs\<close>, the atomic counter
  \<open>Indexer.queued\<close>, the flag \<open>indexingActive\<close> and the single goroutine of \<open>Indexer.run\<close>.
  Each atomic operation is one step, so the interleavings of the HTTP handlers that enqueue
  with the worker that counts, runs and checks for idleness are all there. A goroutine that has
  counted its job but not yet sent it is in \<open>sending\<close>; the channel blocks it at
  \<open>job_cap\<close> jobs. \<open>log\<close> lists the jobs the worker has taken.
\<close>

section \<open>State and operations\<close>

datatype phase = Blocked | Received job | Counted job | Running job | Returned | Idle_Seen | Clearing

record job_queue =
  jobs :: "job list"
  sending :: "job list"
  queued :: int
  phase :: phase
  indexing_active :: bool
  log :: "job list"

definition job_cap :: nat where
  "job_cap = 4096"

definition NewIndexer :: job_queue where
  "NewIndexer = \<lparr>jobs = [], sending = [], queued = 0, phase = Blocked, indexing_active = False, log = []\<rparr>"

definition Queued :: "job_queue \<Rightarrow> int" where
  "Queued q = (if queued q < 0 then 0 else queued q)"

definition enqueue :: "job \<Rightarrow> job_queue \<Rightarrow> job_queue" where
  "enqueue j q = q\<lparr>queued := queued q + 1, sending := sending q @ [j]\<rparr>"

definition EnqueueDocs :: "cid list \<Rightarrow> job_queue \<Rightarrow> job_queue" where
  "EnqueueDocs cids q = (if length cids = 0 then q else enqueue (JobDocs cids) q)"

definition EnqueueArchive ::
  "int \<Rightarrow> cid \<Rightarrow> string \<Rightarrow> store \<times> job_queue \<Rightarrow> store \<times> job_queue" where
  "EnqueueArchive now a owner sq =
     (snd (AddArchive now a owner (fst sq)), enqueue (JobArchive a owner) (snd sq))"

definition drop_nth :: "nat \<Rightarrow> 'a list \<Rightarrow> 'a list" where
  "drop_nth i xs = take i xs @ drop (Suc i) xs"

inductive worker_step :: "job_queue \<Rightarrow> job_queue \<Rightarrow> bool" where
  recv: "phase q = Blocked \<Longrightarrow> jobs q = j # js \<Longrightarrow>
    worker_step q (q\<lparr>jobs := js, phase := Received j, log := log q @ [j]\<rparr>)"
| count: "phase q = Received j \<Longrightarrow>
    worker_step q (q\<lparr>queued := queued q - 1, phase := Counted j\<rparr>)"
| start: "phase q = Counted j \<Longrightarrow>
    worker_step q (q\<lparr>indexing_active := True, phase := Running j\<rparr>)"
| return: "phase q = Running j \<Longrightarrow> worker_step q (q\<lparr>phase := Returned\<rparr>)"
| none_queued: "phase q = Returned \<Longrightarrow> queued q \<le> 0 \<Longrightarrow> worker_step q (q\<lparr>phase := Idle_Seen\<rparr>)"
| some_queued: "phase q = Returned \<Longrightarrow> \<not> queued q \<le> 0 \<Longrightarrow> worker_step q (q\<lparr>phase := Blocked\<rparr>)"
| chan_empty: "phase q = Idle_Seen \<Longrightarrow> jobs q = [] \<Longrightarrow> worker_step q (q\<lparr>phase := Clearing\<rparr>)"
| chan_busy: "phase q = Idle_Seen \<Longrightarrow> jobs q \<noteq> [] \<Longrightarrow> worker_step q (q\<lparr>phase := Blocked\<rparr>)"
| clear: "phase q = Clearing \<Longrightarrow>
    worker_step q (q\<lparr>indexing_active := False, phase := Blocked\<rparr>)"

inductive send_step :: "nat \<Rightarrow> job_queue \<Rightarrow> job_queue \<Rightarrow> bool" where
  send: "i < length (sending q) \<Longrightarrow> length (jobs q) < job_cap \<Longrightarrow>
    send_step i q (q\<lparr>jobs := jobs q @ [sending q ! i], sending := drop_nth i (sending q)\<rparr>)"

text \<open>
  Reachable states, with the jobs submitted so far and those sent on the channel, each in order.
\<close>

inductive queue_reach :: "job list \<Rightarrow> job list \<Rightarrow> job_queue \<Rightarrow> bool" where
  new: "queue_reach [] [] NewIndexer"
| submit: "queue_reach sub snt q \<Longrightarrow> queue_reach (sub @ [j]) snt (enqueue j q)"
| send: "queue_reach sub snt q \<Longrightarrow> send_step i q q' \<Longrightarrow>
    queue_reach sub (snt @ [sending q ! i]) q'"
| work: "queue_reach sub snt q \<Longrightarrow> worker_step q q' \<Longrightarrow> queue_reach sub snt q'"

inductive_cases worker_stepE: "worker_step q q'"
inductive_cases send_stepE: "send_step i q q'"

section \<open>The invariant\<close>

definition in_hand :: "phase \<Rightarrow> nat" where
  "in_hand p = (case p of Received _ \<Rightarrow> 1 | _ \<Rightarrow> 0)"

definition busy :: "phase \<Rightarrow> bool" where
  "busy p = (case p of Running _ \<Rightarrow> True | Returned \<Rightarrow> True | Idle_Seen \<Rightarrow> True | Clearing \<Rightarrow> True | _ \<Rightarrow> False)"

definition queue_inv :: "job list \<Rightarrow> job list \<Rightarrow> job_queue \<Rightarrow> bool" where
  "queue_inv sub snt q \<longleftrightarrow>
     queued q = int (length (sending q) + length (jobs q) + in_hand (phase q))
     \<and> length (jobs q) \<le> job_cap
     \<and> (busy (phase q) \<longrightarrow> indexing_active q)
     \<and> (phase q = Blocked \<and> indexing_active q \<longrightarrow> sending q \<noteq> [] \<or> jobs q \<noteq> [])
     \<and> snt = log q @ jobs q
     \<and> mset sub = mset snt + mset (sending q)"

lemma mset_drop_nth: "i < length xs \<Longrightarrow> add_mset (xs ! i) (mset (drop_nth i xs)) = mset xs"
  using id_take_nth_drop [of i xs] unfolding drop_nth_def
  by (metis mset.simps(2) mset_append union_mset_add_mset_right)

lemma length_drop_nth: "i < length xs \<Longrightarrow> Suc (length (drop_nth i xs)) = length xs"
  by (simp add: drop_nth_def)

lemma queue_inv_new: "queue_inv [] [] NewIndexer"
  by (simp add: queue_inv_def NewIndexer_def in_hand_def busy_def)

lemma queue_inv_submit: "queue_inv sub snt q \<Longrightarrow> queue_inv (sub @ [j]) snt (enqueue j q)"
  by (auto simp: queue_inv_def enqueue_def)

lemma queue_inv_send:
  assumes "send_step i q q'" and "queue_inv sub snt q"
  shows "queue_inv sub (snt @ [sending q ! i]) q'"
  using assms(1)
proof cases
  case send
  then show ?thesis using assms(2) mset_drop_nth [OF send(2)] length_drop_nth [OF send(2)]
    by (auto simp: queue_inv_def)
qed

lemma queue_inv_work: "worker_step q q' \<Longrightarrow> queue_inv sub snt q \<Longrightarrow> queue_inv sub snt q'"
  by (induction rule: worker_step.induct) (auto simp: queue_inv_def in_hand_def busy_def)

lemma queue_reach_inv: "queue_reach sub snt q \<Longrightarrow> queue_inv sub snt q"
  by (induction rule: queue_reach.induct)
    (auto intro: queue_inv_new queue_inv_submit queue_inv_send queue_inv_work)

section \<open>Draining\<close>

definition phase_rank :: "phase \<Rightarrow> nat" where
  "phase_rank p = (case p of Blocked \<Rightarrow> 0 | Clearing \<Rightarrow> 1 | Idle_Seen \<Rightarrow> 2 | Returned \<Rightarrow> 3
     | Running _ \<Rightarrow> 4 | Counted _ \<Rightarrow> 5 | Received _ \<Rightarrow> 6)"

definition queue_work :: "job_queue \<Rightarrow> nat" where
  "queue_work q = 8 * length (sending q) + 7 * length (jobs q) + phase_rank (phase q)"

definition drain_step :: "job_queue \<Rightarrow> job_queue \<Rightarrow> bool" where
  "drain_step q q' \<longleftrightarrow> worker_step q q' \<or> (\<exists>i. send_step i q q')"

definition drained :: "job_queue \<Rightarrow> bool" where
  "drained q \<longleftrightarrow> sending q = [] \<and> jobs q = [] \<and> phase q = Blocked"

lemma drain_step_work: "drain_step q q' \<Longrightarrow> queue_work q' < queue_work q"
  unfolding drain_step_def
  by (auto elim!: worker_stepE send_stepE simp: queue_work_def phase_rank_def drop_nth_def)

lemma drain_progress: "\<not> drained q \<Longrightarrow> \<exists>q'. drain_step q q'"
proof (cases "phase q")
  case Blocked
  assume nd: "\<not> drained q"
  show ?thesis
  proof (cases "jobs q")
    case Nil
    then have "send_step 0 q (q\<lparr>jobs := jobs q @ [sending q ! 0], sending := drop_nth 0 (sending q)\<rparr>)"
      using nd Blocked by (intro send_step.send) (auto simp: drained_def job_cap_def)
    then show ?thesis by (auto simp: drain_step_def)
  next
    case (Cons j js)
    then show ?thesis using Blocked by (auto simp: drain_step_def intro: worker_step.recv)
  qed
qed (blast intro: worker_step.intros drain_step_def [THEN iffD2])+

inductive drains :: "job_queue \<Rightarrow> nat \<Rightarrow> job_queue \<Rightarrow> bool" where
  stop: "drains q 0 q"
| more: "drains q k r \<Longrightarrow> drain_step r s \<Longrightarrow> drains q (Suc k) s"

lemma drains_bound: "drains q k r \<Longrightarrow> queue_work r + k \<le> queue_work q"
  by (induction rule: drains.induct) (auto dest: drain_step_work)

lemma queue_reach_drains:
  "drains q k r \<Longrightarrow> queue_reach sub snt q \<Longrightarrow> \<exists>snt'. queue_reach sub snt' r"
proof (induction rule: drains.induct)
  case (more q k r s)
  then obtain snt' where "queue_reach sub snt' r" by blast
  with more.hyps(2) show ?case unfolding drain_step_def by (blast intro: queue_reach.intros)
qed blast

lemma queue_drains: "\<exists>k r. drains q k r \<and> drained r"
proof -
  have "\<exists>k r. drains p k r \<and> drained r" if "drains p n q" for p n
    using that
  proof (induction "queue_work q" arbitrary: q n rule: less_induct)
    case less
    show ?case
    proof (cases "drained q")
      case False
      then obtain q' where "drain_step q q'" using drain_progress by blast
      then show ?thesis using less drain_step_work drains.more by metis
    qed (use less in blast)
  qed
  then show ?thesis using drains.stop by blast
qed

text \<open>When nothing is left to do, every submitted job has been taken once, in the order sent.\<close>

lemma drained_all:
  assumes "queue_reach sub snt q" and "drained q"
  shows "log q = snt" "mset (log q) = mset sub" "queued q = 0" "\<not> indexing_active q"
  using queue_reach_inv [OF assms(1)] assms(2)
  by (auto simp: queue_inv_def drained_def in_hand_def)

end
