(* ===== verification/Json.thy ===== *)
theory Json
  imports Prelude
begin

text \<open>
  The part of Go's \<open>encoding/json\<close> the program uses: a parser for a byte string and decoders
  for strings, slices and structs. Object keys match a field up to letter case, a key that
  occurs twice sets its field twice, \<open>null\<close> leaves a field as it is, and a value of the wrong
  type makes the whole decoding fail. Not modelled: the replacement of invalid UTF-8 inside
  strings and the nesting limit of 10000.
\<close>

section \<open>Values\<close>

text \<open>A string value keeps its literal text next to its meaning, for \<open>json.RawMessage\<close>.\<close>

datatype json = JNull | JBool bool | JNum string | JStr string string
  | JArr "json list" | JObj "(string \<times> json) list"

section \<open>Lexing\<close>

definition quote :: char where "quote = CHR 0x22"
definition backslash :: char where "backslash = CHR 0x5C"

definition json_space :: "char \<Rightarrow> bool" where
  "json_space c \<longleftrightarrow> of_char c \<in> {9, 10, 13, 32 :: nat}"

definition skip_ws :: "string \<Rightarrow> string" where
  "skip_ws s = dropWhile json_space s"

definition hex_val :: "char \<Rightarrow> nat option" where
  "hex_val c = (let n = (of_char c :: nat) in
     if is_digit c then Some (n - 48)
     else if char_in (CHR ''a'') (CHR ''f'') c then Some (n - 87)
     else if char_in (CHR ''A'') (CHR ''F'') c then Some (n - 55) else None)"

definition hex4 :: "string \<Rightarrow> nat option" where
  "hex4 s = (if length s < 4 then None
     else case those (map hex_val (take 4 s)) of
       None \<Rightarrow> None | Some ds \<Rightarrow> Some (foldl (\<lambda>v d. 16 * v + d) 0 ds))"

definition unescape :: "char \<Rightarrow> char option" where
  "unescape e =
     (if e = quote \<or> e = backslash \<or> e = CHR ''/'' then Some e
      else if e = CHR ''b'' then Some (CHR 0x08) else if e = CHR ''f'' then Some (CHR 0x0C)
      else if e = CHR ''n'' then Some (CHR 0x0A) else if e = CHR ''r'' then Some (CHR 0x0D)
      else if e = CHR ''t'' then Some (CHR 0x09) else None)"

text \<open>The inside of a string literal: plain bytes and \<open>u\<close>-escapes, and what follows it.\<close>

datatype str_unit = Byte char | Code nat

function (sequential) lex_str :: "string \<Rightarrow> (str_unit list \<times> string) option" where
  "lex_str [] = None"
| "lex_str (c # s) =
     (if c = quote then Some ([], s)
      else if c = backslash then
        (case s of [] \<Rightarrow> None
         | e # r \<Rightarrow>
            if e = CHR ''u'' then
              (case hex4 r of None \<Rightarrow> None
               | Some n \<Rightarrow> map_option (\<lambda>(us, t). (Code n # us, t)) (lex_str (drop 4 r)))
            else (case unescape e of None \<Rightarrow> None
               | Some b \<Rightarrow> map_option (\<lambda>(us, t). (Byte b # us, t)) (lex_str r)))
      else if (of_char c :: nat) < 32 then None
      else map_option (\<lambda>(us, t). (Byte c # us, t)) (lex_str s))"
  by pat_completeness auto
termination by (relation "measure length") auto

definition utf8 :: "nat \<Rightarrow> string" where
  "utf8 n = map char_of
     (if n < 128 then [n]
      else if n < 2048 then [192 + n div 64, 128 + n mod 64]
      else if n < 65536 then [224 + n div 4096, 128 + n div 64 mod 64, 128 + n mod 64]
      else [240 + n div 262144, 128 + n div 4096 mod 64, 128 + n div 64 mod 64, 128 + n mod 64])"

definition surrogate :: "nat \<Rightarrow> bool" where
  "surrogate n \<longleftrightarrow> 55296 \<le> n \<and> n < 57344"

fun units_text :: "str_unit list \<Rightarrow> string" where
  "units_text [] = []"
| "units_text (Byte b # us) = b # units_text us"
| "units_text (Code h # Code l # us) =
     (if \<not> surrogate h then utf8 h @ units_text (Code l # us)
      else if h < 56320 \<and> 56320 \<le> l \<and> l < 57344
      then utf8 (65536 + (h - 55296) * 1024 + (l - 56320)) @ units_text us
      else utf8 65533 @ units_text (Code l # us))"
| "units_text (Code h # us) = utf8 (if surrogate h then 65533 else h) @ units_text us"

text \<open>Numbers keep their text.\<close>

definition span_digits :: "string \<Rightarrow> string \<times> string" where
  "span_digits s = (takeWhile is_digit s, dropWhile is_digit s)"

definition lex_num :: "string \<Rightarrow> (string \<times> string) option" where
  "lex_num s =
     (let (sgn, s1) = (case s of c # r \<Rightarrow> if c = CHR ''-'' then ([c], r) else ([], s) | [] \<Rightarrow> ([], s));
          (ip, s2) = (case s1 of c # r \<Rightarrow> if c = CHR ''0'' then ([c], r) else span_digits s1
                       | [] \<Rightarrow> ([], []));
          (fp, s3) = (case s2 of c # r \<Rightarrow> if c = CHR ''.'' then
                          (let (d, t) = span_digits r in if d = [] then (None, s2) else (Some (c # d), t))
                        else (Some [], s2) | [] \<Rightarrow> (Some [], []));
          (ep, s4) = (case s3 of c # r \<Rightarrow> if c = CHR ''e'' \<or> c = CHR ''E'' then
                          (let (g, r') = (case r of x # y \<Rightarrow> if x = CHR ''+'' \<or> x = CHR ''-'' then ([x], y)
                                            else ([], r) | [] \<Rightarrow> ([], []));
                               (d, t) = span_digits r'
                           in if d = [] then (None, s3) else (Some (c # g @ d), t))
                        else (Some [], s3) | [] \<Rightarrow> (Some [], []))
      in if ip = [] then None
         else case (fp, ep) of (Some f, Some e) \<Rightarrow> Some (sgn @ ip @ f @ e, s4) | _ \<Rightarrow> None)"

section \<open>Parsing\<close>

text \<open>
  Recursive descent with fuel. A value consumes a byte before it descends, and two nested calls
  without one in between do not occur, so twice the length of the input and two more is enough.
\<close>

fun p_value :: "nat \<Rightarrow> string \<Rightarrow> (json \<times> string) option"
  and p_elems :: "nat \<Rightarrow> string \<Rightarrow> (json list \<times> string) option"
  and p_members :: "nat \<Rightarrow> string \<Rightarrow> ((string \<times> json) list \<times> string) option" where
  "p_value 0 s = None"
| "p_value (Suc n) s =
     (case skip_ws s of
        [] \<Rightarrow> None
      | c # r \<Rightarrow>
          if c = CHR ''{'' then
            (case skip_ws r of
               [] \<Rightarrow> None
             | d # t \<Rightarrow> if d = CHR ''}'' then Some (JObj [], t)
                 else map_option (\<lambda>(kvs, u). (JObj kvs, u)) (p_members n (d # t)))
          else if c = CHR ''['' then
            (case skip_ws r of
               [] \<Rightarrow> None
             | d # t \<Rightarrow> if d = CHR '']'' then Some (JArr [], t)
                 else map_option (\<lambda>(js, u). (JArr js, u)) (p_elems n (d # t)))
          else if c = quote then
            (case lex_str r of None \<Rightarrow> None
             | Some (us, t) \<Rightarrow> Some (JStr (take (Suc (length r) - length t) (c # r)) (units_text us), t))
          else if prefix ''true'' (c # r) then Some (JBool True, drop 4 (c # r))
          else if prefix ''false'' (c # r) then Some (JBool False, drop 5 (c # r))
          else if prefix ''null'' (c # r) then Some (JNull, drop 4 (c # r))
          else map_option (\<lambda>(t, u). (JNum t, u)) (lex_num (c # r)))"
| "p_elems 0 s = None"
| "p_elems (Suc n) s =
     (case p_value n s of
        None \<Rightarrow> None
      | Some (j, t) \<Rightarrow>
          (case skip_ws t of
             [] \<Rightarrow> None
           | c # u \<Rightarrow> if c = CHR '']'' then Some ([j], u)
               else if c = CHR '','' then map_option (\<lambda>(js, v). (j # js, v)) (p_elems n u)
               else None))"
| "p_members 0 s = None"
| "p_members (Suc n) s =
     (case skip_ws s of
        [] \<Rightarrow> None
      | q # r \<Rightarrow> if q \<noteq> quote then None
          else (case lex_str r of
             None \<Rightarrow> None
           | Some (us, t) \<Rightarrow>
               (case skip_ws t of
                  [] \<Rightarrow> None
                | c # u \<Rightarrow> if c \<noteq> CHR '':'' then None
                    else (case p_value n u of
                       None \<Rightarrow> None
                     | Some (j, v) \<Rightarrow>
                         (case skip_ws v of
                            [] \<Rightarrow> None
                          | d # x \<Rightarrow> if d = CHR ''}'' then Some ([(units_text us, j)], x)
                              else if d = CHR '','' then
                                map_option (\<lambda>(kvs, y). ((units_text us, j) # kvs, y)) (p_members n x)
                              else None)))))"

text \<open>\<open>json.Decoder.Decode\<close> reads the first value, \<open>json.Unmarshal\<close> wants nothing after it.\<close>

definition json_first :: "string \<Rightarrow> json option" where
  "json_first s = map_option fst (p_value (2 * length s + 2) s)"

definition json_parse :: "string \<Rightarrow> json option" where
  "json_parse s = (case p_value (2 * length s + 2) s of
     None \<Rightarrow> None | Some (j, t) \<Rightarrow> if skip_ws t = [] then Some j else None)"

section \<open>Decoding\<close>

type_synonym 'a decoder = "json \<Rightarrow> 'a \<Rightarrow> 'a option"

fun dec_string :: "string decoder" where
  "dec_string (JStr raw txt) cur = Some txt"
| "dec_string JNull cur = Some cur"
| "dec_string _ cur = None"

fun dec_list :: "'a decoder \<Rightarrow> 'a \<Rightarrow> 'a list decoder" where
  "dec_list d zero (JArr js) cur = those (map (\<lambda>j. d j zero) js)"
| "dec_list d zero JNull cur = Some []"
| "dec_list d zero _ cur = None"

fun dec_fields :: "(string \<times> 'a decoder) list \<Rightarrow> (string \<times> json) list \<Rightarrow> 'a \<Rightarrow> 'a option" where
  "dec_fields fs [] cur = Some cur"
| "dec_fields fs ((k, j) # kvs) cur =
     (case List.find (\<lambda>(n, d). equal_fold n k) fs of
        None \<Rightarrow> dec_fields fs kvs cur
      | Some (n, d) \<Rightarrow> (case d j cur of None \<Rightarrow> None | Some cur' \<Rightarrow> dec_fields fs kvs cur'))"

fun dec_struct :: "(string \<times> 'a decoder) list \<Rightarrow> 'a decoder" where
  "dec_struct fs (JObj kvs) cur = dec_fields fs kvs cur"
| "dec_struct fs JNull cur = Some cur"
| "dec_struct fs _ cur = None"

fun dec_pointer :: "'a decoder \<Rightarrow> 'a \<Rightarrow> 'a option decoder" where
  "dec_pointer d zero j cur = (if j = JNull then Some None
     else map_option Some (d j (case cur of None \<Rightarrow> zero | Some x \<Rightarrow> x)))"

text \<open>A field of a struct, through its selector and its update.\<close>

definition at_field :: "('r \<Rightarrow> 'a) \<Rightarrow> (('a \<Rightarrow> 'a) \<Rightarrow> 'r \<Rightarrow> 'r) \<Rightarrow> 'a decoder \<Rightarrow> 'r decoder" where
  "at_field sel upd d j r = map_option (\<lambda>x. upd (\<lambda>_. x) r) (d j (sel r))"

definition unmarshal :: "'a decoder \<Rightarrow> 'a \<Rightarrow> string \<Rightarrow> 'a option" where
  "unmarshal d zero s = (case json_parse s of None \<Rightarrow> None | Some j \<Rightarrow> d j zero)"

end
