(* ===== verification/Go_Net.thy ===== *)
theory Go_Net
  imports Json "HOL-Library.Word"
begin

text \<open>
  The parts of Go's \<open>net/http\<close>, \<open>net/url\<close>, \<open>io\<close> and \<open>html\<close> the program uses.
  The peer is a parameter: a record \<open>'w net\<close> whose fields say what a request returns in
  world \<open>'w\<close>, what the clock shows and what a limiter operation or a sleep does.
\<close>

section \<open>Requests and responses\<close>

record chat_message = Role :: string Content :: string

text \<open>\<open>chatRequest\<close>; the temperature is the bit pattern of a \<open>float64\<close>, which is passed on.\<close>

record chat_request =
  Model :: string
  Messages :: "chat_message list"
  Temp :: "64 word"
  MaxTokens :: int
  ResponseFormat :: string
  EnableThinking :: bool
  ChatTemplateKwargs :: "(string \<times> bool) list"

datatype payload = NoBody | FormFile string string string | ChatBody chat_request

record http_req =
  rq_method :: string
  rq_url :: string
  rq_headers :: "(string \<times> string) list"
  rq_body :: payload
  rq_timeout :: nanos

text \<open>A response body is the bytes that arrive, and the error that then stops reading, if any.\<close>

record http_resp =
  hr_code :: int
  hr_status :: string
  hr_headers :: "(string \<times> string) list"
  hr_body :: string
  hr_broken :: "string option"

datatype limiter_id = ConvertLimiter | ChatLimiter
datatype effect = Acquire limiter_id | Release limiter_id | Penalize limiter_id nanos | Sleep nanos

record 'w net =
  http_do :: "'w \<Rightarrow> http_req \<Rightarrow> (string + http_resp) \<times> 'w"
  bad_url :: "string \<Rightarrow> string option"
  json_err :: "string \<Rightarrow> string"
  clock :: "'w \<Rightarrow> int"
  eff :: "effect \<Rightarrow> 'w \<Rightarrow> 'w option"

definition seconds :: "int \<Rightarrow> nanos" where
  "seconds n = n * 10 ^ 9"

text \<open>\<open>http.NewRequest\<close> followed by \<open>client.Do\<close>.\<close>

definition send_request ::
  "'w net \<Rightarrow> http_req \<Rightarrow> 'w \<Rightarrow> (string + http_resp) \<times> 'w" where
  "send_request N rq w = (case bad_url N (rq_url rq) of
     Some e \<Rightarrow> (Inl e, w) | None \<Rightarrow> http_do N w rq)"

text \<open>\<open>io.ReadAll\<close> of the body, and of the body behind an \<open>io.LimitReader\<close>.\<close>

definition read_all :: "http_resp \<Rightarrow> string \<times> string option" where
  "read_all r = (hr_body r, hr_broken r)"

definition read_limited :: "int \<Rightarrow> http_resp \<Rightarrow> string \<times> string option" where
  "read_limited n r =
     (if n \<le> int (length (hr_body r)) then (take (nat n) (hr_body r), None)
      else (hr_body r, hr_broken r))"

section \<open>Headers\<close>

definition upper_char :: "char \<Rightarrow> char" where
  "upper_char c = (if is_lower c then char_of (of_char c - 32 :: nat) else c)"

text \<open>
  \<open>textproto.CanonicalMIMEHeaderKey\<close> for names made of letters, digits and hyphens; the
  response headers are stored under canonical names, and \<open>Get\<close> reads the first value.
\<close>

fun canonical_from :: "bool \<Rightarrow> string \<Rightarrow> string" where
  "canonical_from up [] = []"
| "canonical_from up (c # s) =
     (if up then upper_char c else lower_char c) # canonical_from (c = CHR ''-'') s"

definition header_get :: "http_resp \<Rightarrow> string \<Rightarrow> string" where
  "header_get r k = (case map_of (hr_headers r) (canonical_from True k) of
     None \<Rightarrow> [] | Some v \<Rightarrow> v)"

section \<open>Escaping\<close>

definition hex_digit :: "nat \<Rightarrow> char" where
  "hex_digit n = char_of (if n < 10 then 48 + n else 55 + n)"

definition unreserved :: "char \<Rightarrow> bool" where
  "unreserved c \<longleftrightarrow> is_alnum c \<or> c \<in> set ''-_.~''"

definition percent :: "char \<Rightarrow> string" where
  "percent c = [CHR ''%'', hex_digit (of_char c div 16), hex_digit (of_char c mod 16)]"

definition path_escape :: "string \<Rightarrow> string" where
  "path_escape s = concat (map (\<lambda>c.
     if unreserved c \<or> c \<in> set ''$&+:=@'' then [c] else percent c) s)"

definition query_escape :: "string \<Rightarrow> string" where
  "query_escape s = concat (map (\<lambda>c.
     if c = CHR '' '' then ''+'' else if unreserved c then [c] else percent c) s)"

function (sequential) unescape_url :: "bool \<Rightarrow> string \<Rightarrow> string option" where
  "unescape_url form [] = Some []"
| "unescape_url form (c # s) =
     (if c = CHR ''%'' then
        (case s of a # b # r \<Rightarrow>
           (case (hex_val a, hex_val b) of
              (Some x, Some y) \<Rightarrow> map_option (Cons (char_of (16 * x + y))) (unescape_url form r)
            | _ \<Rightarrow> None)
         | _ \<Rightarrow> None)
      else map_option (Cons (if form \<and> c = CHR ''+'' then CHR '' '' else c)) (unescape_url form s))"
  by pat_completeness auto
termination by (relation "measure (length \<circ> snd)") auto

abbreviation query_unescape :: "string \<Rightarrow> string option" where
  "query_unescape \<equiv> unescape_url True"

abbreviation path_unescape :: "string \<Rightarrow> string option" where
  "path_unescape \<equiv> unescape_url False"

text \<open>\<open>url.Values.Encode\<close>: the pairs in the order of their keys.\<close>

definition encode_values :: "(string \<times> string) list \<Rightarrow> string" where
  "encode_values q = join ''&''
     (map (\<lambda>(k, v). query_escape k @ ''='' @ query_escape v) (sort_key fst q))"

definition html_escape :: "string \<Rightarrow> string" where
  "html_escape s = concat (map (\<lambda>c.
     if c = CHR ''&'' then ''&amp;'' else if c = CHR 0x27 then ''&#39;''
     else if c = CHR ''<'' then ''&lt;'' else if c = CHR ''>'' then ''&gt;''
     else if c = CHR 0x22 then ''&#34;'' else [c]) s)"

section \<open>Lemmas\<close>

lemma hex_val_digit: "n < 16 \<Longrightarrow> hex_val (hex_digit n) = Some n"
  by (simp add: numeral_eq_Suc less_Suc_eq)
    (auto simp: hex_val_def hex_digit_def is_digit_def char_in_def Let_def)

lemma percent_unescape:
  "unescape_url form (percent c @ s) = map_option (Cons c) (unescape_url form s)"
proof -
  have b: "(of_char c :: nat) < 256" by simp
  then have "(of_char c :: nat) div 16 < 16" by (simp add: less_mult_imp_div_less)
  then have "hex_val (hex_digit (of_char c div 16)) = Some (of_char c div 16)"
    "hex_val (hex_digit (of_char c mod 16)) = Some (of_char c mod 16)"
    by (simp_all add: hex_val_digit)
  then show ?thesis by (simp add: percent_def)
qed

lemma unreserved_plain: "unreserved c \<Longrightarrow> c \<noteq> CHR ''%'' \<and> c \<noteq> CHR ''+''"
  by (auto simp: unreserved_def is_alnum_def is_digit_def is_upper_def is_lower_def char_in_def)

lemma query_unescape_escape [simp]: "query_unescape (query_escape s) = Some s"
proof (induction s)
  case (Cons c s)
  then show ?case
    using unreserved_plain [of c] percent_unescape [of True c "query_escape s"]
    by (auto simp: query_escape_def)
qed (simp add: query_escape_def)

lemma path_unescape_escape [simp]: "path_unescape (path_escape s) = Some s"
proof (induction s)
  case (Cons c s)
  then show ?case
    using unreserved_plain [of c] percent_unescape [of False c "path_escape s"]
    by (auto simp: path_escape_def)
qed (simp add: path_escape_def)

text \<open>An escaped path segment stays one segment and cannot leave an HTML attribute.\<close>

lemma hex_digit_alnum: "n < 16 \<Longrightarrow> is_alnum (hex_digit n)"
  by (simp add: numeral_eq_Suc less_Suc_eq)
    (auto simp: is_alnum_def is_digit_def is_upper_def char_in_def hex_digit_def)

lemma percent_chars: "x \<in> set (percent c) \<Longrightarrow> x = CHR ''%'' \<or> is_alnum x"
proof -
  have "(of_char c :: nat) < 256" by simp
  then have "(of_char c :: nat) div 16 < 16" by (simp add: less_mult_imp_div_less)
  then show "x \<in> set (percent c) \<Longrightarrow> x = CHR ''%'' \<or> is_alnum x"
    by (auto simp: percent_def hex_digit_alnum)
qed

lemma path_escape_chars:
  "x \<in> set (path_escape s) \<Longrightarrow> is_alnum x \<or> x \<in> set ''-_.~$&+:=@%''"
  by (auto simp: path_escape_def unreserved_def dest: percent_chars split: if_splits)

lemma read_limited_length: "0 \<le> n \<Longrightarrow> int (length (fst (read_limited n r))) \<le> n"
  by (auto simp: read_limited_def)

end
