(* ===== verification/Retry.thy ===== *)
theory Retry
  imports Go_Net
begin

text \<open>
  Backing off in \<open>src/pipeline.go\<close>: how long to wait after a failed call, the two retry
  loops, and the rate limiter the workers share. The loops are one definition, with a flag for
  the \<open>release\<close> that only the convert loop has. A call that is rate limited for ever makes the
  code loop for ever, so a loop returns an option.
\<close>

section \<open>Durations\<close>

definition maxTransientRetries :: nat where "maxTransientRetries = 2"
definition baseBackoff :: nanos where "baseBackoff = seconds 2"
definition maxBackoff :: nanos where "maxBackoff = seconds 60"
definition quotaPauseThreshold :: nanos where "quotaPauseThreshold = seconds (2 * 60)"
definition maxCooldown :: nanos where "maxCooldown = seconds (24 * 60 * 60)"

lemmas backoff_consts = baseBackoff_def maxBackoff_def quotaPauseThreshold_def maxCooldown_def
  seconds_def

definition isServerError :: "int \<Rightarrow> bool" where
  "isServerError code \<longleftrightarrow> code \<ge> 500 \<and> code \<le> 599"

definition capCooldown :: "nanos \<Rightarrow> nanos" where
  "capCooldown d = (if d > maxCooldown then maxCooldown else d)"

text \<open>The loop of \<open>backoffDuration\<close>, left at \<open>break\<close>.\<close>

fun backoff_exp :: "nat \<Rightarrow> nanos \<Rightarrow> nanos" where
  "backoff_exp 0 e = e"
| "backoff_exp (Suc n) e = (let e' = e * 2 in if e' \<ge> maxBackoff then maxBackoff else backoff_exp n e')"

definition backoffDuration :: "nat \<Rightarrow> nanos \<Rightarrow> nanos" where
  "backoffDuration attempt serverHint =
     (let wait = backoff_exp attempt baseBackoff;
          wait = (if serverHint > wait then serverHint else wait)
      in if wait > maxBackoff then maxBackoff else wait)"

fun retry_header :: "http_resp \<Rightarrow> string list \<Rightarrow> nanos" where
  "retry_header resp [] = seconds 1"
| "retry_header resp (hdr # hdrs) =
     (let v = header_get resp hdr in
      if v \<noteq> [] then
        (case atoi v of
           Some secs \<Rightarrow> if secs > 0 then wrap64 (secs * 10 ^ 9) else retry_header resp hdrs
         | None \<Rightarrow> retry_header resp hdrs)
      else retry_header resp hdrs)"

definition parseRetryAfter :: "http_resp \<Rightarrow> nanos" where
  "parseRetryAfter resp = retry_header resp [''Retry-After'', ''retry-after'', ''ratelimit-reset'']"

definition rateLimitHeaders :: "http_resp \<Rightarrow> string" where
  "rateLimitHeaders resp =
     (let keys = [''Retry-After'',
            ''RateLimit-Limit'', ''RateLimit-Remaining'', ''RateLimit-Reset'',
            ''X-RateLimit-Limit'', ''X-RateLimit-Remaining'', ''X-RateLimit-Reset'',
            ''X-Ratelimit-Limit-Requests'', ''X-Ratelimit-Remaining-Requests'', ''X-Ratelimit-Reset-Requests'',
            ''X-Ratelimit-Limit-Tokens'', ''X-Ratelimit-Remaining-Tokens'', ''X-Ratelimit-Reset-Tokens''];
          parts = map (\<lambda>k. k @ ''='' @ header_get resp k) (filter (\<lambda>k. header_get resp k \<noteq> []) keys)
      in if length parts = 0 then ''(none)'' else join '' '' parts)"

section \<open>The loop\<close>

datatype retry_class = RetryNone | RetryRateLimit | RetryTransient

text \<open>What a call returns: a value, or a class, the server's hint and an error.\<close>

datatype 'a attempt = Done_With 'a | Failed_With retry_class nanos string

fun effects :: "'w net \<Rightarrow> effect list \<Rightarrow> 'w \<Rightarrow> 'w option" where
  "effects N [] w = Some w"
| "effects N (e # es) w = (case eff N e w of None \<Rightarrow> None | Some w' \<Rightarrow> effects N es w')"

text \<open>
  After a failed call: give up with an error, or do these effects and go round again with
  these counters.
\<close>

datatype verdict = Give_Up string | Again "effect list" nat nat

definition after_failure ::
  "limiter_id \<Rightarrow> retry_class \<Rightarrow> nanos \<Rightarrow> string \<Rightarrow> nat \<Rightarrow> nat \<Rightarrow> verdict" where
  "after_failure lim cls retryAfter err rateLimitTries transientTries =
     (case cls of
        RetryRateLimit \<Rightarrow>
          if retryAfter > quotaPauseThreshold
          then Again [Penalize lim (capCooldown retryAfter)] rateLimitTries transientTries
          else (let wait = backoffDuration rateLimitTries retryAfter in
            Again [Penalize lim wait, Sleep wait] (rateLimitTries + 1) transientTries)
      | RetryTransient \<Rightarrow>
          if transientTries \<ge> maxTransientRetries then Give_Up err
          else Again [Sleep (backoffDuration transientTries 0)] rateLimitTries (transientTries + 1)
      | RetryNone \<Rightarrow> Give_Up err)"

partial_function (option) retry_loop ::
  "'w net \<Rightarrow> limiter_id \<Rightarrow> effect list \<Rightarrow> ('w \<Rightarrow> 'a attempt \<times> 'w) \<Rightarrow> nat \<Rightarrow> nat \<Rightarrow> 'w
     \<Rightarrow> ((string + 'a) \<times> 'w) option" where
  "retry_loop N lim rel call rt tt w =
     (case effects N [Acquire lim] w of
        None \<Rightarrow> None
      | Some w1 \<Rightarrow>
         (case call w1 of (r, w2) \<Rightarrow>
           (case effects N rel w2 of
              None \<Rightarrow> None
            | Some w3 \<Rightarrow>
                (case r of
                   Done_With x \<Rightarrow> Some (Inr x, w3)
                 | Failed_With cls ra err \<Rightarrow>
                     (case after_failure lim cls ra err rt tt of
                        Give_Up e \<Rightarrow> Some (Inl e, w3)
                      | Again es rt' tt' \<Rightarrow>
                          (case effects N es w3 of
                             None \<Rightarrow> None
                           | Some w4 \<Rightarrow> retry_loop N lim rel call rt' tt' w4))))))"

section \<open>Facts about waiting\<close>

lemma backoff_exp_closed: "e > 0 \<Longrightarrow> e \<le> maxBackoff \<Longrightarrow> backoff_exp n e = min maxBackoff (e * 2 ^ n)"
proof (induction n arbitrary: e)
  case (Suc n)
  show ?case
  proof (cases "e * 2 \<ge> maxBackoff")
    case True
    have "e * 2 \<le> e * 2 ^ Suc n" using Suc.prems by simp
    with True have "maxBackoff \<le> e * 2 ^ Suc n" by linarith
    then show ?thesis using True by (simp add: Let_def)
  next
    case False
    then show ?thesis using Suc.IH [of "e * 2"] Suc.prems by (simp add: Let_def mult.assoc)
  qed
qed simp

lemma backoffDuration_closed:
  "backoffDuration n h = min maxBackoff (max (baseBackoff * 2 ^ n) h)"
  using backoff_exp_closed [of baseBackoff n]
  by (auto simp: backoffDuration_def backoff_consts Let_def min_def max_def)

lemma backoffDuration_bounds: "baseBackoff \<le> backoffDuration n h" "backoffDuration n h \<le> maxBackoff"
proof -
  have "baseBackoff * 1 \<le> baseBackoff * 2 ^ n" by (intro mult_left_mono) (auto simp: backoff_consts)
  moreover have "baseBackoff \<le> maxBackoff" by (simp add: backoff_consts)
  ultimately show "baseBackoff \<le> backoffDuration n h" "backoffDuration n h \<le> maxBackoff"
    by (simp_all add: backoffDuration_closed)
qed

lemma backoffDuration_mono: "m \<le> n \<Longrightarrow> backoffDuration m h \<le> backoffDuration n h"
proof -
  assume "m \<le> n"
  then have "(2 :: int) ^ m \<le> 2 ^ n" by (simp add: power_increasing)
  then have "baseBackoff * 2 ^ m \<le> baseBackoff * 2 ^ n" by (simp add: backoff_consts)
  then show ?thesis by (auto simp: backoffDuration_closed min_def max_def)
qed

definition effect_ok :: "effect \<Rightarrow> bool" where
  "effect_ok e = (case e of
     Sleep d \<Rightarrow> baseBackoff \<le> d \<and> d \<le> maxBackoff
   | Penalize l d \<Rightarrow> baseBackoff \<le> d \<and> d \<le> maxCooldown
   | _ \<Rightarrow> True)"

lemma after_failure_effects:
  "after_failure lim cls ra err rt tt = Again es rt' tt' \<Longrightarrow> e \<in> set es \<Longrightarrow> effect_ok e"
  using backoffDuration_bounds [of rt ra] backoffDuration_bounds [of tt 0]
  by (auto simp: after_failure_def effect_ok_def Let_def capCooldown_def backoff_consts
      split: retry_class.splits if_splits)

lemma after_failure_transient:
  "after_failure lim cls ra err rt tt = Again es rt' tt' \<Longrightarrow> tt' = tt \<or> cls = RetryTransient \<and> tt' = tt + 1 \<and> tt < maxTransientRetries"
  by (auto simp: after_failure_def Let_def split: retry_class.splits if_splits)

text \<open>A value the loop returns is the value of its last call.\<close>

lemma retry_loop_last:
  "retry_loop N lim rel call rt tt w = Some y \<Longrightarrow>
     \<forall>x. fst y = Inr x \<longrightarrow> (\<exists>w1 w2. call w1 = (Done_With x, w2))"
  by (erule retry_loop.raw_induct [rotated, where P = "\<lambda>N lim rel call rt tt w y.
      \<forall>x. fst y = Inr x \<longrightarrow> (\<exists>w1 w2. call w1 = (Done_With x, w2))"])
    (auto split: option.splits prod.splits attempt.splits verdict.splits, blast+)

lemma retry_loop_value:
  "retry_loop N lim rel call rt tt w = Some (Inr x, w') \<Longrightarrow> \<exists>w1 w2. call w1 = (Done_With x, w2)"
  by (drule retry_loop_last) simp

section \<open>A scripted peer\<close>

text \<open>
  The loop against a peer that answers from a script and a limiter that never blocks: what it
  does is then a list of effects. The lemmas are proved for it by recursion over the script.
\<close>

fun scripted :: "limiter_id \<Rightarrow> effect list \<Rightarrow> 'a attempt list \<Rightarrow> nat \<Rightarrow> nat
    \<Rightarrow> (effect list \<times> (string + 'a) option)" where
  "scripted lim rel [] rt tt = ([], None)"
| "scripted lim rel (r # rs) rt tt =
     (case r of
        Done_With x \<Rightarrow> (Acquire lim # rel, Some (Inr x))
      | Failed_With cls ra err \<Rightarrow>
          (case after_failure lim cls ra err rt tt of
             Give_Up e \<Rightarrow> (Acquire lim # rel, Some (Inl e))
           | Again es rt' tt' \<Rightarrow>
               (case scripted lim rel rs rt' tt' of (l, res) \<Rightarrow> (Acquire lim # rel @ es @ l, res))))"

record 'a peer = answers :: "'a attempt list" done_effects :: "effect list"

definition peer_call :: "'a attempt \<Rightarrow> 'a peer \<Rightarrow> 'a attempt \<times> 'a peer" where
  "peer_call dflt p = (case answers p of [] \<Rightarrow> (dflt, p) | r # rs \<Rightarrow> (r, p\<lparr>answers := rs\<rparr>))"

definition logs_effects :: "('a peer) net \<Rightarrow> bool" where
  "logs_effects N \<longleftrightarrow> (\<forall>e p. eff N e p = Some (p\<lparr>done_effects := done_effects p @ [e]\<rparr>))"

lemma effects_log: "logs_effects N \<Longrightarrow> effects N es p = Some (p\<lparr>done_effects := done_effects p @ es\<rparr>)"
  by (induction es arbitrary: p) (auto simp: logs_effects_def)

lemma retry_loop_scripted:
  assumes N: "logs_effects N"
  shows "scripted lim rel rs rt tt = (l, Some res) \<Longrightarrow> answers p = rs @ unread \<Longrightarrow>
     \<exists>p'. retry_loop N lim rel (peer_call dflt) rt tt p = Some (res, p') \<and> done_effects p' = done_effects p @ l"
proof (induction rs arbitrary: rt tt l p)
  case (Cons r rs)
  let ?p = "p\<lparr>done_effects := done_effects p @ Acquire lim # rel, answers := rs @ unread\<rparr>"
  have call: "effects N [Acquire lim] p = Some (p\<lparr>done_effects := done_effects p @ [Acquire lim]\<rparr>)"
    "peer_call dflt (p\<lparr>done_effects := done_effects p @ [Acquire lim]\<rparr>)
      = (r, p\<lparr>done_effects := done_effects p @ [Acquire lim], answers := rs @ unread\<rparr>)"
    "effects N rel (p\<lparr>done_effects := done_effects p @ [Acquire lim], answers := rs @ unread\<rparr>) = Some ?p"
    using Cons.prems(2) by (simp_all only: effects_log [OF N]) (simp_all add: peer_call_def)
  show ?case
  proof (cases r)
    case (Done_With x)
    then show ?thesis using Cons.prems call by (subst retry_loop.simps) auto
  next
    case (Failed_With cls ra err)
    show ?thesis
    proof (cases "after_failure lim cls ra err rt tt")
      case (Give_Up e)
      then show ?thesis using Cons.prems call Failed_With by (subst retry_loop.simps) auto
    next
      case (Again es rt' tt')
      obtain l' where l': "scripted lim rel rs rt' tt' = (l', Some res)" "l = Acquire lim # rel @ es @ l'"
        using Cons.prems(1) Failed_With Again by (auto split: prod.splits)
      let ?p2 = "?p\<lparr>done_effects := done_effects ?p @ es\<rparr>"
      have "retry_loop N lim rel (peer_call dflt) rt tt p
          = retry_loop N lim rel (peer_call dflt) rt' tt' ?p2"
        using call Failed_With Again by (subst retry_loop.simps) (simp add: effects_log [OF N])
      moreover have "answers ?p2 = rs @ unread" by simp
      ultimately show ?thesis using Cons.IH [OF l'(1), of ?p2] l'(2) by simp
    qed
  qed
qed simp

lemma scripted_effects:
  "scripted lim rel rs rt tt = (l, res) \<Longrightarrow> \<forall>e \<in> set rel. effect_ok e \<Longrightarrow> e \<in> set l \<Longrightarrow> effect_ok e"
proof (induction rs arbitrary: rt tt l)
  case (Cons r rs)
  have "effect_ok (Acquire lim)" by (simp add: effect_ok_def)
  then show ?case using Cons
    by (auto split: attempt.splits verdict.splits prod.splits dest: after_failure_effects)
qed simp

text \<open>
  Rate limiting alone never makes the loop give up, and neither do two transient failures; the
  third one, or a failure of another kind, does.
\<close>

definition retryable :: "'a attempt \<Rightarrow> bool" where
  "retryable r = (case r of Failed_With cls ra err \<Rightarrow> cls \<noteq> RetryNone | _ \<Rightarrow> False)"

definition transient :: "'a attempt \<Rightarrow> bool" where
  "transient r = (case r of Failed_With cls ra err \<Rightarrow> cls = RetryTransient | _ \<Rightarrow> False)"

lemma transient_simps [simp]:
  "transient (Failed_With cls ra err) = (cls = RetryTransient)" "\<not> transient (Done_With x)"
  "retryable (Failed_With cls ra err) = (cls \<noteq> RetryNone)" "\<not> retryable (Done_With x)"
  by (simp_all add: transient_def retryable_def)

lemma scripted_skip:
  assumes "list_all retryable rs" and "length (filter transient rs) + tt \<le> maxTransientRetries"
  shows "\<exists>rt'. snd (scripted lim rel (rs @ qs) rt tt)
    = snd (scripted lim rel qs rt' (length (filter transient rs) + tt))"
  using assms
proof (induction rs arbitrary: rt tt)
  case (Cons r rs)
  then obtain cls ra err where r: "r = Failed_With cls ra err" "cls \<noteq> RetryNone"
    by (cases r) auto
  have "\<exists>es rt'. after_failure lim cls ra err rt tt
      = Again es rt' (if cls = RetryTransient then tt + 1 else tt)"
    using Cons.prems r
    by (cases cls; cases "ra > quotaPauseThreshold") (auto simp: after_failure_def Let_def)
  then obtain es rt' where a: "after_failure lim cls ra err rt tt
      = Again es rt' (if cls = RetryTransient then tt + 1 else tt)" by blast
  have "snd (scripted lim rel ((r # rs) @ qs) rt tt)
      = snd (scripted lim rel (rs @ qs) rt' (if cls = RetryTransient then tt + 1 else tt))"
    using r a by (simp split: prod.splits)
  moreover have "list_all retryable rs" "length (filter transient rs)
      + (if cls = RetryTransient then tt + 1 else tt) \<le> maxTransientRetries"
    using Cons.prems r by (auto split: if_splits)
  note Cons.IH [OF this]
  ultimately show ?case using r by auto
qed auto

end
