(* ===== verification/Limiter.thy ===== *)
theory Limiter
  imports Retry
begin

text \<open>
  The \<open>rateLimiter\<close> of \<open>src/pipeline.go\<close> and the workers that share it, as a transition
  system: the token channel, the cooldown, and for each worker whether it is outside, past the
  cooldown check of \<open>acquire\<close> but still waiting for a token, or holds one. Both limiters use
  it: the convert limiter gives tokens back, the chat limiter refills them by a ticker.
\<close>

section \<open>The limiter\<close>

record limiter =
  tokens :: nat
  burst :: nat
  hold :: bool
  block_until :: int

definition newConcurrencyLimiter :: "int \<Rightarrow> limiter" where
  "newConcurrencyLimiter n = (let n = (if n < 1 then 1 else n) in
     \<lparr>tokens = nat n, burst = nat n, hold = True, block_until = 0\<rparr>)"

definition newRateLimiter :: "int \<Rightarrow> int \<Rightarrow> limiter" where
  "newRateLimiter rps n = (let n = (if n < 1 then 1 else n) in
     \<lparr>tokens = nat n, burst = nat n, hold = False, block_until = 0\<rparr>)"

definition refill_interval :: "int \<Rightarrow> nanos" where
  "refill_interval rps = (let rps = (if rps \<le> 0 then 1 else rps) in seconds 1 div rps)"

definition initLimiters :: "int \<Rightarrow> int \<Rightarrow> limiter \<times> limiter" where
  "initLimiters ConvertRPS ChatRPS =
     (let convertRPS = (if ConvertRPS \<le> 0 then 1 else ConvertRPS);
          chatRPS = (if ChatRPS \<le> 0 then 4 else ChatRPS)
      in (newConcurrencyLimiter convertRPS, newRateLimiter chatRPS 1))"

text \<open>A send on the token channel with a \<open>default\<close> branch.\<close>

definition put_token :: "limiter \<Rightarrow> limiter" where
  "put_token l = (if tokens l < burst l then l\<lparr>tokens := tokens l + 1\<rparr> else l)"

definition release :: "limiter \<Rightarrow> limiter" where
  "release l = (if \<not> hold l then l else put_token l)"

definition penalize :: "int \<Rightarrow> nanos \<Rightarrow> limiter \<Rightarrow> limiter" where
  "penalize time d l = (if d \<le> 0 then l
     else let until = time + d in
       if until > block_until l then l\<lparr>block_until := until\<rparr> else l)"

section \<open>The workers\<close>

datatype place = Outside | Past_Check | Inside

record gate =
  lim :: limiter
  time :: int
  places :: "place list"

inductive gate_step :: "gate \<Rightarrow> gate \<Rightarrow> bool" where
  elapse: "dt \<ge> 0 \<Longrightarrow> gate_step g (g\<lparr>time := time g + dt\<rparr>)"
| refill: "\<not> hold (lim g) \<Longrightarrow> gate_step g (g\<lparr>lim := put_token (lim g)\<rparr>)"
| pass: "i < length (places g) \<Longrightarrow> places g ! i = Outside \<Longrightarrow> block_until (lim g) - time g \<le> 0 \<Longrightarrow>
    gate_step g (g\<lparr>places := (places g)[i := Past_Check]\<rparr>)"
| take_token: "i < length (places g) \<Longrightarrow> places g ! i = Past_Check \<Longrightarrow> tokens (lim g) > 0 \<Longrightarrow>
    gate_step g (g\<lparr>places := (places g)[i := Inside], lim := (lim g)\<lparr>tokens := tokens (lim g) - 1\<rparr>\<rparr>)"
| leave: "i < length (places g) \<Longrightarrow> places g ! i = Inside \<Longrightarrow>
    gate_step g (g\<lparr>places := (places g)[i := Outside], lim := release (lim g)\<rparr>)"
| penalty: "gate_step g (g\<lparr>lim := penalize (time g) d (lim g)\<rparr>)"

inductive_cases gate_stepE: "gate_step g g'"

inductive gate_run :: "gate \<Rightarrow> gate \<Rightarrow> bool" where
  stop: "gate_run g g"
| more: "gate_run g h \<Longrightarrow> gate_step h k \<Longrightarrow> gate_run g k"

definition gate_init :: "limiter \<Rightarrow> int \<Rightarrow> nat \<Rightarrow> gate" where
  "gate_init l t n = \<lparr>lim = l, time = t, places = replicate n Outside\<rparr>"

definition inside :: "gate \<Rightarrow> nat" where
  "inside g = count_list (places g) Inside"

section \<open>No more calls in flight than tokens\<close>

lemma count_list_update:
  "i < length xs \<Longrightarrow> count_list (xs[i := y]) x + (if xs ! i = x then 1 else 0)
    = count_list xs x + (if y = x then 1 else 0)"
proof (induction xs arbitrary: i)
  case (Cons z xs)
  then show ?case by (cases i) (simp, fastforce)
qed simp

definition gate_inv :: "gate \<Rightarrow> bool" where
  "gate_inv g \<longleftrightarrow> hold (lim g) \<and> tokens (lim g) + inside g = burst (lim g)"

lemma gate_inv_step:
  assumes "gate_step g g'" and "gate_inv g"
  shows "gate_inv g' \<and> burst (lim g') = burst (lim g)"
  using assms(1)
proof cases
  case (take_token i)
  then show ?thesis using assms(2) count_list_update [of i "places g" Inside Inside]
    by (auto simp: gate_inv_def inside_def)
next
  case (leave i)
  then show ?thesis using assms(2) count_list_update [of i "places g" Outside Inside]
    by (auto simp: gate_inv_def inside_def release_def put_token_def)
next
  case (pass i)
  then show ?thesis using assms(2) count_list_update [of i "places g" Past_Check Inside]
    by (auto simp: gate_inv_def inside_def)
qed (use assms(2) in \<open>auto simp: gate_inv_def inside_def penalize_def Let_def\<close>)

lemma gate_run_inv:
  "gate_run g g' \<Longrightarrow> gate_inv g \<Longrightarrow> gate_inv g' \<and> burst (lim g') = burst (lim g)"
  by (induction rule: gate_run.induct) (auto dest: gate_inv_step)

lemma inside_init: "inside (gate_init l t n) = 0"
  by (induction n) (auto simp: inside_def gate_init_def)

section \<open>The cooldown\<close>

text \<open>While a cooldown lasts, a worker that has not passed the check does not get in.\<close>

lemma step_block_until: "gate_step g g' \<Longrightarrow> block_until (lim g) \<le> block_until (lim g') \<and> time g \<le> time g'"
  by (induction rule: gate_step.induct) (auto simp: put_token_def release_def penalize_def Let_def)

lemma run_block_until: "gate_run g g' \<Longrightarrow> block_until (lim g) \<le> block_until (lim g') \<and> time g \<le> time g'"
  by (induction rule: gate_run.induct) (force dest: step_block_until)+

definition only_leaves :: "gate \<Rightarrow> gate \<Rightarrow> bool" where
  "only_leaves g g' \<longleftrightarrow> length (places g') = length (places g) \<and> Past_Check \<notin> set (places g')
     \<and> (\<forall>i < length (places g). places g' ! i = Inside \<longrightarrow> places g ! i = Inside)"

lemma set_update_other: "x \<notin> set xs \<Longrightarrow> y \<noteq> x \<Longrightarrow> x \<notin> set (xs[i := y])"
  using set_update_subset_insert [of xs i y] by auto

lemma cooldown_step:
  assumes "gate_step h k" and "only_leaves g h" and "time k < block_until (lim h)"
  shows "only_leaves g k"
  using assms(1)
proof cases
  case (pass i)
  then show ?thesis using assms(3) by simp
next
  case (take_token i)
  then show ?thesis using assms(2) by (metis nth_mem only_leaves_def)
next
  case (leave i)
  then show ?thesis using assms(2) by (auto simp: only_leaves_def set_update_other nth_list_update)
qed (use assms(2) in \<open>auto simp: only_leaves_def\<close>)

lemma cooldown_run:
  "gate_run g k \<Longrightarrow> Past_Check \<notin> set (places g) \<Longrightarrow> time k < block_until (lim g) \<Longrightarrow> only_leaves g k"
proof (induction rule: gate_run.induct)
  case (more g h k)
  have "time h \<le> time k" using step_block_until [OF more.hyps(2)] by simp
  then have "only_leaves g h" using more by simp
  moreover have "time k < block_until (lim h)"
    using run_block_until [OF more.hyps(1)] more.prems by simp
  ultimately show ?case using cooldown_step [OF more.hyps(2)] by blast
qed (simp add: only_leaves_def)

section \<open>Tokens that refill\<close>

text \<open>A run with the number of calls let in and the number of tokens added on the way.\<close>

inductive counted_run :: "gate \<Rightarrow> nat \<Rightarrow> nat \<Rightarrow> gate \<Rightarrow> bool" where
  stop: "counted_run g 0 0 g"
| more: "counted_run g n m h \<Longrightarrow> gate_step h k \<Longrightarrow>
    counted_run g (n + (inside k - inside h)) (m + (tokens (lim k) - tokens (lim h))) k"

lemma step_hold: "gate_step g g' \<Longrightarrow> hold (lim g') = hold (lim g)"
  by (induction rule: gate_step.induct) (auto simp: put_token_def release_def penalize_def Let_def)

lemma step_tokens:
  assumes "gate_step h k" and "\<not> hold (lim h)"
  shows "(inside k - inside h) + tokens (lim k) \<le> tokens (lim h) + (tokens (lim k) - tokens (lim h))"
  using assms(1)
proof cases
  case (pass i)
  then show ?thesis using count_list_update [of i "places h" Past_Check Inside] by (simp add: inside_def)
next
  case (leave i)
  then show ?thesis using assms(2) count_list_update [of i "places h" Outside Inside]
    by (simp add: inside_def release_def)
next
  case (take_token i)
  then show ?thesis using count_list_update [of i "places h" Inside Inside] by (simp add: inside_def)
qed (auto simp: inside_def penalize_def Let_def put_token_def)

lemma counted_tokens:
  "counted_run g n m h \<Longrightarrow> \<not> hold (lim g) \<Longrightarrow> \<not> hold (lim h) \<and> n + tokens (lim h) \<le> tokens (lim g) + m"
proof (induction rule: counted_run.induct)
  case (more g n m h k)
  then have "\<not> hold (lim h)" "n + tokens (lim h) \<le> tokens (lim g) + m" by auto
  then show ?case using step_tokens [OF more.hyps(2)] step_hold [OF more.hyps(2)] by simp
qed simp

lemma gate_run_counted: "gate_run g h \<Longrightarrow> \<exists>n m. counted_run g n m h"
  by (induction rule: gate_run.induct) (blast intro: counted_run.intros)+

end
