(* ===== verification/Kubo.thy ===== *)
theory Kubo
  imports Go_Net
begin

text \<open>
  The Kubo RPC client and the directory page of \<open>src/ipfs_api.go\<close>, over the requests of
  \<open>Go_Net\<close>. Each function returns the error text or the value, and the world after it.
\<close>

definition maxFetchSize :: int where
  "maxFetchSize = 20 * 1024 * 1024"

section \<open>Calls\<close>

definition trim_right_slash :: "string \<Rightarrow> string" where
  "trim_right_slash s = trim_right_by (\<lambda>c. c = CHR ''/'') s"

definition kuboCall ::
  "'w net \<Rightarrow> string \<Rightarrow> string \<Rightarrow> (string \<times> string) list \<Rightarrow> nanos \<Rightarrow> 'w \<Rightarrow> (string + http_resp) \<times> 'w" where
  "kuboCall N apiBase cmd q timeout w =
     (let u = trim_right_slash apiBase @ ''/api/v0/'' @ cmd;
          u = (if length q > 0 then u @ ''?'' @ encode_values q else u)
      in send_request N \<lparr>rq_method = ''POST'', rq_url = u, rq_headers = [], rq_body = NoBody,
           rq_timeout = timeout\<rparr> w)"

definition dec_kubo_err :: "string decoder" where
  "dec_kubo_err = dec_struct [(''Message'', dec_string)]"

definition readKuboErr :: "http_resp \<Rightarrow> string" where
  "readKuboErr resp =
     (let b = fst (read_limited 4096 resp);
          msg = trim_space b
      in case unmarshal dec_kubo_err [] b of
           Some m \<Rightarrow> if m \<noteq> [] then m else if msg = [] then hr_status resp else msg
         | None \<Rightarrow> if msg = [] then hr_status resp else msg)"

definition kuboIsDir :: "string option \<Rightarrow> bool" where
  "kuboIsDir err = (case err of None \<Rightarrow> False | Some e \<Rightarrow> contains (to_lower e) ''directory'')"

section \<open>Listing\<close>

record kubo_link = Name :: string CID :: cid Dir :: bool

text \<open>
  The raw text of a value: of a literal it is exact; arrays and objects are only ever compared
  with words that do not start with a bracket, so their brackets stand for them.
\<close>

fun json_raw :: "json \<Rightarrow> string" where
  "json_raw JNull = ''null''"
| "json_raw (JBool b) = (if b then ''true'' else ''false'')"
| "json_raw (JNum t) = t"
| "json_raw (JStr raw txt) = raw"
| "json_raw (JArr js) = ''[]''"
| "json_raw (JObj kvs) = ''{}''"

definition kuboTypeDir :: "string \<Rightarrow> bool" where
  "kuboTypeDir raw =
     (let s = to_lower (trim_by (\<lambda>c. c = quote) raw) in s = ''1'' \<or> s = ''directory'' \<or> s = ''dir'')"

record ls_link = ls_name :: string ls_hash :: string ls_type :: string

definition dec_ls_link :: "ls_link decoder" where
  "dec_ls_link = dec_struct
     [(''Name'', at_field ls_name ls_name_update dec_string),
      (''Hash'', at_field ls_hash ls_hash_update dec_string),
      (''Type'', at_field ls_type ls_type_update (\<lambda>j _. Some (json_raw j)))]"

definition dec_ls :: "ls_link list list decoder" where
  "dec_ls = dec_struct [(''Objects'',
     dec_list (dec_struct [(''Links'', dec_list dec_ls_link \<lparr>ls_name = [], ls_hash = [], ls_type = []\<rparr>)]) [])]"

definition kuboLS ::
  "'w net \<Rightarrow> string \<Rightarrow> string \<Rightarrow> nanos \<Rightarrow> 'w \<Rightarrow> (string + kubo_link list) \<times> 'w" where
  "kuboLS N api ipfsPath timeout w =
     (case kuboCall N api ''ls'' [(''arg'', ipfsPath)] timeout w of
        (Inl e, w') \<Rightarrow> (Inl e, w')
      | (Inr resp, w') \<Rightarrow>
          if hr_code resp \<noteq> 200 then (Inl (readKuboErr resp), w')
          else (case json_first (hr_body resp) of
              None \<Rightarrow> (Inl (json_err N (hr_body resp)), w')
            | Some j \<Rightarrow>
                (case dec_ls j [] of
                   None \<Rightarrow> (Inl (json_err N (hr_body resp)), w')
                 | Some [] \<Rightarrow> (Inr [], w')
                 | Some (links # _) \<Rightarrow>
                     (Inr (map (\<lambda>l. \<lparr>Name = ls_name l, CID = ls_hash l, Dir = kuboTypeDir (ls_type l)\<rparr>)
                            (filter (\<lambda>l. ls_hash l \<noteq> []) links)), w'))))"

section \<open>Reading\<close>

fun show_nat :: "nat \<Rightarrow> string" where
  "show_nat n = (if n < 10 then [char_of (48 + n)] else show_nat (n div 10) @ [char_of (48 + n mod 10)])"

declare show_nat.simps [simp del]

definition show_int :: "int \<Rightarrow> string" where
  "show_int i = (if i < 0 then CHR ''-'' # show_nat (nat (- i)) else show_nat (nat i))"

definition kuboCatStream ::
  "'w net \<Rightarrow> string \<Rightarrow> string \<Rightarrow> int \<Rightarrow> nanos \<Rightarrow> 'w \<Rightarrow> (string + http_resp) \<times> 'w" where
  "kuboCatStream N api ipfsPath n timeout w =
     (let q = [(''arg'', ipfsPath)] @ (if n > 0 then [(''length'', show_int n)] else []) in
      case kuboCall N api ''cat'' q timeout w of
        (Inl e, w') \<Rightarrow> (Inl e, w')
      | (Inr resp, w') \<Rightarrow>
          if hr_code resp \<noteq> 200 then (Inl (readKuboErr resp), w') else (Inr resp, w'))"

definition kuboCat ::
  "'w net \<Rightarrow> string \<Rightarrow> string \<Rightarrow> int \<Rightarrow> nanos \<Rightarrow> 'w \<Rightarrow> (string + string) \<times> 'w" where
  "kuboCat N api ipfsPath n timeout w =
     (case kuboCatStream N api ipfsPath n timeout w of
        (Inl e, w') \<Rightarrow> (Inl e, w')
      | (Inr rc, w') \<Rightarrow>
          (let limit = (if n > 0 \<and> n < maxFetchSize + 1 then n else maxFetchSize + 1) in
           case read_limited limit rc of
             (bs, None) \<Rightarrow> (Inr bs, w')
           | (bs, Some e) \<Rightarrow> (Inl e, w')))"

section \<open>The directory page\<close>

definition ipfsPathHref :: "string \<Rightarrow> string \<Rightarrow> string" where
  "ipfsPathHref base name =
     (let segs = filter (\<lambda>seg. seg \<noteq> []) (split_byte (CHR ''/'') base) in
      ''/ipfs/'' @ join ''/'' (map path_escape segs) @ (if segs \<noteq> [] then ''/'' else []) @ path_escape name)"

definition listed :: "kubo_link \<Rightarrow> bool" where
  "listed l \<longleftrightarrow> \<not> (Name l = [] \<or> Name l = ''.'' \<or> Name l = ''..''
     \<or> (\<exists>c \<in> set (Name l). c = CHR ''/'' \<or> c = backslash))"

definition dir_item :: "string \<Rightarrow> kubo_link \<Rightarrow> string" where
  "dir_item base l = ''<li><a href='' @ [quote] @ ipfsPathHref base (Name l) @ [quote] @ ''>''
     @ html_escape (Name l) @ ''</a></li>''"

definition writeKuboDir :: "string \<Rightarrow> kubo_link list \<Rightarrow> string" where
  "writeKuboDir base links =
     ''<!DOCTYPE html><html><body><ul>''
     @ concat (map (dir_item (trim_by (\<lambda>c. c = CHR ''/'') base)) (filter listed links))
     @ ''</ul></body></html>''"

section \<open>Lemmas\<close>

lemma kuboCat_reads:
  assumes "kuboCat N api p n t w = (Inr bs, w')"
  shows "\<exists>rc. bs = fst (read_limited (if n > 0 \<and> n < maxFetchSize + 1 then n else maxFetchSize + 1) rc)"
  using assms by (auto simp: kuboCat_def Let_def split: prod.splits sum.splits option.splits) (metis fst_conv)+

lemma kuboCat_size:
  assumes "kuboCat N api p n t w = (Inr bs, w')"
  shows "int (length bs) \<le> maxFetchSize + 1" "n > 0 \<Longrightarrow> int (length bs) \<le> n"
proof -
  let ?n = "if n > 0 \<and> n < maxFetchSize + 1 then n else maxFetchSize + 1"
  obtain rc where rc: "bs = fst (read_limited ?n rc)" using kuboCat_reads [OF assms] by blast
  have "0 \<le> ?n" by (simp add: maxFetchSize_def)
  from read_limited_length [OF this, of rc] have "int (length bs) \<le> ?n" using rc by simp
  then show "int (length bs) \<le> maxFetchSize + 1" "n > 0 \<Longrightarrow> int (length bs) \<le> n"
    by (auto split: if_splits)
qed

lemma kuboLS_hash: "kuboLS N api p t w = (Inr ls, w') \<Longrightarrow> l \<in> set ls \<Longrightarrow> CID l \<noteq> []"
  by (auto simp: kuboLS_def split: prod.splits sum.splits option.splits if_splits list.splits)

text \<open>A file name can close neither the attribute nor the element it is written into.\<close>

lemma html_escape_chars: "c \<in> set (html_escape s) \<Longrightarrow> c \<notin> set ''<>'' \<and> c \<noteq> CHR 0x22 \<and> c \<noteq> CHR 0x27"
  by (auto simp: html_escape_def split: if_splits)

lemma join_set: "set (join sep xs) \<subseteq> set sep \<union> \<Union> (set ` set xs)"
  by (induction sep xs rule: join.induct) auto

definition href_char :: "char \<Rightarrow> bool" where
  "href_char c \<longleftrightarrow> is_alnum c \<or> c \<in> set ''/-_.~$&+:=@%''"

lemma path_escape_href: "c \<in> set (path_escape s) \<Longrightarrow> href_char c"
  using path_escape_chars [of c s] by (auto simp: href_char_def)

lemma href_chars: "c \<in> set (ipfsPathHref base name) \<Longrightarrow> href_char c"
proof -
  let ?segs = "filter (\<lambda>seg. seg \<noteq> []) (split_byte (CHR ''/'') base)"
  have "list_all href_char ''/ipfs/''" by code_simp
  then have pre: "\<forall>c \<in> set ''/ipfs/''. href_char c" by (simp only: list_all_iff)
  assume "c \<in> set (ipfsPathHref base name)"
  then consider "c \<in> set ''/ipfs/''" | "c \<in> set (join ''/'' (map path_escape ?segs))"
    | "c = CHR ''/''" | "c \<in> set (path_escape name)"
    unfolding ipfsPathHref_def Let_def by (auto split: if_splits)
  then show ?thesis
  proof cases
    case 2
    then have "c \<in> set ''/'' \<union> \<Union> (set ` set (map path_escape ?segs))"
      using join_set [of "''/''" "map path_escape ?segs"] by (rule subsetD [rotated])
    then consider "c \<in> set ''/''" | seg where "c \<in> set (path_escape seg)"
      unfolding set_map by blast
    then show ?thesis
      by cases (simp add: href_char_def, erule path_escape_href)
  next
    case 1
    then show ?thesis using pre by blast
  next
    case 3
    then show ?thesis by (simp add: href_char_def)
  next
    case 4
    then show ?thesis by (rule path_escape_href)
  qed
qed

end
