(* ===== verification/Pipeline.thy ===== *)
theory Pipeline
  imports Limiter Kubo Indexer
begin

text \<open>
  \<open>src/pipeline.go\<close>: fetching a document, converting it, extracting its metadata, and
  \<open>Process\<close>, which composes them. \<open>Process\<close> meets the contract \<open>processor\<close> that the
  indexer is proved against. The multipart form and the chat request are kept as structured
  payloads; \<open>json_err\<close> supplies the text of a decoder error.
\<close>

section \<open>Configuration\<close>

record pipeline =
  p_APIKey :: string
  p_APIBase :: string
  p_Model :: string
  p_Gateway :: string
  p_IPFSAPI :: string
  p_Temperature :: "64 word"
  p_ConvertRPS :: int
  p_ChatRPS :: int
  p_MaxTextLen :: int
  p_ConvertTO :: nanos

definition fetchTimeout :: nanos where "fetchTimeout = seconds 90"
definition llmTimeout :: nanos where "llmTimeout = seconds 120"

definition maxText :: "pipeline \<Rightarrow> int" where
  "maxText p = (if p_MaxTextLen p > 0 then p_MaxTextLen p else 16000)"

definition convertTimeout :: "pipeline \<Rightarrow> nanos" where
  "convertTimeout p = (if p_ConvertTO p > 0 then p_ConvertTO p else seconds 180)"

text \<open>The prompt; a backquote stands for the double quote of the source.\<close>

definition keywordPrompt :: string where
  "keywordPrompt = map (\<lambda>c. if c = CHR 0x60 then quote else c) (join [CHR 0x0A] [
     ''Analyze the following academic document text. Extract the following information and return ONLY a valid JSON object with these fields:'',
     ''- `title`: the document title (string)'',
     ''- `broad_field`: the broad academic/research field (string, e.g. `Computer Science`, `Biology`, `Physics`, `Economics`)'',
     ''- `sub_topic`: the sub-topic within that field (string, e.g. `Machine Learning`, `Genomics`, `Quantum Computing`)'',
     ''- `keywords`: the 10 most important keywords or key phrases (array of exactly 10 lowercase strings)'',
     ''Example: {`title`:`Attention Is All You Need`,`broad_field`:`Computer Science`,`sub_topic`:`Machine Learning`,`keywords`:[`transformer`,`attention mechanism`,`self-attention`,`neural networks`,`sequence modeling`,`encoder-decoder`,`natural language processing`,`deep learning`,`machine translation`,`positional encoding`]}'',
     [],
     ''Document text:'',
     []])"

definition truncate_str :: "string \<Rightarrow> nat \<Rightarrow> string" where
  "truncate_str s n = (if length s \<le> n then s else take n s @ ''...'')"

section \<open>Fetching\<close>

definition isPDF :: "string \<Rightarrow> bool" where
  "isPDF dat \<longleftrightarrow> length dat \<ge> 4 \<and> take 4 dat = ''%PDF''"

definition too_big :: string where
  "too_big = ''file exceeds '' @ show_int (maxFetchSize div (1024 * 1024)) @ '' MB limit''"

definition fetchFromIPFS ::
  "'w net \<Rightarrow> pipeline \<Rightarrow> cid \<Rightarrow> 'w \<Rightarrow> (string + string \<times> bool) \<times> 'w" where
  "fetchFromIPFS N p c w =
     (if p_IPFSAPI p \<noteq> [] then
        (case kuboCat N (p_IPFSAPI p) c 0 fetchTimeout w of
           (Inl e, w') \<Rightarrow> (Inl (''ipfs cat: '' @ e), w')
         | (Inr dat, w') \<Rightarrow>
             if int (length dat) > maxFetchSize then (Inl too_big, w') else (Inr (dat, isPDF dat), w'))
      else
        (case send_request N \<lparr>rq_method = ''GET'', rq_url = p_Gateway p @ ''/ipfs/'' @ path_escape c,
             rq_headers = [], rq_body = NoBody, rq_timeout = fetchTimeout\<rparr> w of
           (Inl e, w') \<Rightarrow> (Inl (''gateway request: '' @ e), w')
         | (Inr resp, w') \<Rightarrow>
             if hr_code resp \<noteq> 200 then (Inl (''gateway returned '' @ hr_status resp), w')
             else (case read_limited (maxFetchSize + 1) resp of
                 (dat, Some e) \<Rightarrow> (Inl (''read body: '' @ e), w')
               | (dat, None) \<Rightarrow>
                   if int (length dat) > maxFetchSize then (Inl too_big, w')
                   else (Inr (dat, isPDF dat), w'))))"

section \<open>Converting\<close>

definition dec_markdown :: "string decoder" where
  "dec_markdown = dec_struct [(''markdown'', dec_string)]"

definition convertPDF :: "'w net \<Rightarrow> pipeline \<Rightarrow> string \<Rightarrow> 'w \<Rightarrow> string attempt \<times> 'w" where
  "convertPDF N p pdfData w =
     (let rq = \<lparr>rq_method = ''POST'', rq_url = p_APIBase p @ ''/documents/convert'',
            rq_headers = [(''Content-Type'', ''multipart/form-data''),
              (''Authorization'', ''Bearer '' @ p_APIKey p), (''Accept'', ''application/json'')],
            rq_body = FormFile ''document'' ''paper.pdf'' pdfData, rq_timeout = convertTimeout p\<rparr> in
      case bad_url N (rq_url rq) of
        Some e \<Rightarrow> (Failed_With RetryNone 0 (''build request: '' @ e), w)
      | None \<Rightarrow>
        (case http_do N w rq of
           (Inl e, w') \<Rightarrow> (Failed_With RetryTransient 0 (''HTTP: '' @ e), w')
         | (Inr resp, w') \<Rightarrow>
            ((case read_all resp of
                (body, Some e) \<Rightarrow> Failed_With RetryTransient 0 (''read response: '' @ e)
              | (body, None) \<Rightarrow>
                  if hr_code resp = 429 then
                    Failed_With RetryRateLimit (parseRetryAfter resp) ''rate limited (429)''
                  else if isServerError (hr_code resp) then Failed_With RetryTransient 0
                    (''status '' @ show_int (hr_code resp) @ '': '' @ truncate_str body 200)
                  else if hr_code resp \<noteq> 200 then Failed_With RetryNone 0
                    (''status '' @ show_int (hr_code resp) @ '': '' @ truncate_str body 200)
                  else (case unmarshal dec_markdown [] body of
                      None \<Rightarrow> Failed_With RetryNone 0 (''parse response: '' @ json_err N body)
                    | Some md \<Rightarrow>
                        (let markdown = trim_space md in
                         if markdown = [] then Failed_With RetryNone 0 ''empty markdown from conversion''
                         else Done_With (if int (length markdown) > maxText p
                                then take (nat (maxText p)) markdown else markdown)))), w')))"

definition convertPDFWithRetry ::
  "'w net \<Rightarrow> pipeline \<Rightarrow> string \<Rightarrow> 'w \<Rightarrow> ((string + string) \<times> 'w) option" where
  "convertPDFWithRetry N p pdfData w =
     retry_loop N ConvertLimiter [Release ConvertLimiter] (convertPDF N p pdfData) 0 0 w"

section \<open>Extracting\<close>

record extraction =
  ex_title :: string
  ex_broad :: string
  ex_sub :: string
  ex_keywords :: "string list"

definition dec_extraction :: "extraction decoder" where
  "dec_extraction = dec_struct
     [(''title'', at_field ex_title ex_title_update dec_string),
      (''broad_field'', at_field ex_broad ex_broad_update dec_string),
      (''sub_topic'', at_field ex_sub ex_sub_update dec_string),
      (''keywords'', at_field ex_keywords ex_keywords_update (dec_list dec_string []))]"

fun clean_keywords :: "string list \<Rightarrow> string list \<Rightarrow> string list" where
  "clean_keywords cleaned [] = cleaned"
| "clean_keywords cleaned (kw # kws) =
     (let kw = trim_space kw in
      if kw \<noteq> [] then
        (let cleaned = cleaned @ [to_lower kw] in
         if length cleaned = 10 then cleaned else clean_keywords cleaned kws)
      else clean_keywords cleaned kws)"

definition fence :: string where
  "fence = [CHR 0x60, CHR 0x60, CHR 0x60]"

definition strip_fences :: "string \<Rightarrow> string" where
  "strip_fences raw =
     trim_space (trim_suffix (trim_prefix (trim_prefix (trim_space raw) (fence @ ''json'')) fence) fence)"

text \<open>The decoding of the JSON object and the checks on its fields.\<close>

definition finish_extraction :: "'w net \<Rightarrow> string \<Rightarrow> string + extraction" where
  "finish_extraction N obj =
     (case unmarshal dec_extraction \<lparr>ex_title = [], ex_broad = [], ex_sub = [], ex_keywords = []\<rparr> obj of
        None \<Rightarrow> Inl (''parse JSON: '' @ json_err N obj)
      | Some r \<Rightarrow>
          (let cleaned = clean_keywords [] (ex_keywords r) in
           if length cleaned = 0 then Inl ''no keywords extracted''
           else Inr \<lparr>ex_title = trim_space (ex_title r), ex_broad = trim_space (ex_broad r),
                  ex_sub = trim_space (ex_sub r), ex_keywords = cleaned\<rparr>))"

definition parseExtraction :: "'w net \<Rightarrow> string \<Rightarrow> string + extraction" where
  "parseExtraction N raw =
     (let t = strip_fences raw in
      case (index_byte t (CHR ''{''), last_index_byte t (CHR ''}'')) of
        (Some start, Some end') \<Rightarrow>
          if end' \<le> start then Inl ''no JSON object in response''
          else finish_extraction N (drop start (take (end' + 1) t))
      | _ \<Rightarrow> Inl ''no JSON object in response'')"

text \<open>\<open>json.Marshal\<close> rejects a temperature that is not a finite number.\<close>

definition float_exponent :: "64 word \<Rightarrow> nat" where
  "float_exponent t = unat (drop_bit 52 t) mod 2048"

definition marshal_error :: "64 word \<Rightarrow> string option" where
  "marshal_error t =
     (if float_exponent t \<noteq> 2047 then None
      else Some (''json: unsupported value: '' @
        (if unat t mod 2 ^ 52 \<noteq> 0 then ''NaN'' else if unat t < 2 ^ 63 then ''+Inf'' else ''-Inf'')))"

definition chat_body :: "pipeline \<Rightarrow> string \<Rightarrow> chat_request" where
  "chat_body p markdown =
     \<lparr>Model = p_Model p,
      Messages = [\<lparr>Role = ''user'', Content = keywordPrompt @ markdown\<rparr>],
      Temp = p_Temperature p, MaxTokens = 1024, ResponseFormat = ''json_object'',
      EnableThinking = False, ChatTemplateKwargs = [(''enable_thinking'', False)]\<rparr>"

record chat_response =
  cr_choices :: "string list"
  cr_error :: "string option"

definition dec_message :: "string decoder" where
  "dec_message = dec_struct [(''message'', dec_string)]"

text \<open>A choice is represented by the content of its message, the only part that is read.\<close>

definition dec_choice :: "string decoder" where
  "dec_choice = dec_struct [(''message'', dec_struct
     [(''role'', \<lambda>j cur. map_option (\<lambda>_. cur) (dec_string j [])), (''content'', dec_string)])]"

definition dec_chat :: "chat_response decoder" where
  "dec_chat = dec_struct
     [(''choices'', at_field cr_choices cr_choices_update (dec_list dec_choice [])),
      (''error'', at_field cr_error cr_error_update (dec_pointer dec_message []))]"

definition extractKeywords :: "'w net \<Rightarrow> pipeline \<Rightarrow> string \<Rightarrow> 'w \<Rightarrow> extraction attempt \<times> 'w" where
  "extractKeywords N p markdown w =
     (case marshal_error (p_Temperature p) of
        Some e \<Rightarrow> (Failed_With RetryNone 0 (''marshal request: '' @ e), w)
      | None \<Rightarrow>
        (let rq = \<lparr>rq_method = ''POST'', rq_url = p_APIBase p @ ''/chat/completions'',
               rq_headers = [(''Content-Type'', ''application/json''),
                 (''Authorization'', ''Bearer '' @ p_APIKey p)],
               rq_body = ChatBody (chat_body p markdown), rq_timeout = llmTimeout\<rparr> in
         case bad_url N (rq_url rq) of
           Some e \<Rightarrow> (Failed_With RetryNone 0 (''build request: '' @ e), w)
         | None \<Rightarrow>
           (case http_do N w rq of
              (Inl e, w') \<Rightarrow> (Failed_With RetryTransient 0 (''HTTP: '' @ e), w')
            | (Inr resp, w') \<Rightarrow>
               ((case read_all resp of
                   (body, Some e) \<Rightarrow> Failed_With RetryTransient 0 (''read response: '' @ e)
                 | (body, None) \<Rightarrow>
                     if hr_code resp = 429 then
                       Failed_With RetryRateLimit (parseRetryAfter resp) ''rate limited (429)''
                     else if isServerError (hr_code resp) then Failed_With RetryTransient 0
                       (''API status '' @ show_int (hr_code resp) @ '': '' @ truncate_str body 200)
                     else if hr_code resp \<noteq> 200 then Failed_With RetryNone 0
                       (''API status '' @ show_int (hr_code resp) @ '': '' @ truncate_str body 200)
                     else (case unmarshal dec_chat \<lparr>cr_choices = [], cr_error = None\<rparr> body of
                         None \<Rightarrow> Failed_With RetryNone 0 (''parse response: '' @ json_err N body)
                       | Some r \<Rightarrow>
                          (case cr_error r of
                             Some m \<Rightarrow> Failed_With RetryNone 0 (''API error: '' @ m)
                           | None \<Rightarrow>
                              (case cr_choices r of
                                 [] \<Rightarrow> Failed_With RetryTransient 0 ''empty LLM response''
                               | ch # _ \<Rightarrow>
                                  (let content = trim_space ch in
                                   if content = [] then Failed_With RetryTransient 0 ''empty LLM response''
                                   else (case parseExtraction N content of
                                       Inl e \<Rightarrow> Failed_With RetryNone 0 e
                                     | Inr x \<Rightarrow> Done_With x)))))), w'))))"

definition extractKeywordsWithRetry ::
  "'w net \<Rightarrow> pipeline \<Rightarrow> string \<Rightarrow> 'w \<Rightarrow> ((string + extraction) \<times> 'w) option" where
  "extractKeywordsWithRetry N p markdown w =
     retry_loop N ChatLimiter [] (extractKeywords N p markdown) 0 0 w"

section \<open>Processing a document\<close>

definition Process :: "'w net \<Rightarrow> pipeline \<Rightarrow> 'w \<Rightarrow> cid \<Rightarrow> (proc_result \<times> 'w) option" where
  "Process N p w c =
     (case fetchFromIPFS N p c w of
        (Inl e, w1) \<Rightarrow> Some (ProcError (''fetch: '' @ e), w1)
      | (Inr (dat, pdf), w1) \<Rightarrow>
          if \<not> pdf then Some (NoEntry, w1)
          else (case convertPDFWithRetry N p dat w1 of
             None \<Rightarrow> None
           | Some (Inl e, w2) \<Rightarrow> Some (ProcError (''convert: '' @ e), w2)
           | Some (Inr markdown, w2) \<Rightarrow>
              (case extractKeywordsWithRetry N p markdown w2 of
                 None \<Rightarrow> None
               | Some (Inl e, w3) \<Rightarrow> Some (ProcError (''extract: '' @ e), w3)
               | Some (Inr r, w3) \<Rightarrow>
                   Some (Entry \<lparr>e_cid = c, e_title = ex_title r, e_broad = ex_broad r,
                     e_sub = ex_sub r, e_keywords = ex_keywords r, e_at = Some (clock N w3),
                     e_archives = []\<rparr>, w3))))"

section \<open>The contract of the indexer\<close>

lemma Process_cases:
  assumes "Process N p w c = Some (r, w')"
  obtains (err) e where "r = ProcError e" | (none) "r = NoEntry"
    | (entry) e x w1 w2 markdown where "r = Entry e" "e_cid e = c" "e_at e = Some (clock N w')" "e_archives e = []"
        "e_title e = ex_title x" "e_broad e = ex_broad x" "e_sub e = ex_sub x" "e_keywords e = ex_keywords x"
        "extractKeywords N p markdown w1 = (Done_With x, w2)"
  using assms
  by (auto simp: Process_def extractKeywordsWithRetry_def
      split: prod.splits sum.splits option.splits if_splits dest!: retry_loop_value)

interpretation doc_pipeline: processor "Process N p" for N p
proof unfold_locales
  fix w c e w' x
  show "Process N p w c = Some (Entry e, w') \<Longrightarrow> e_cid e = c" by (erule Process_cases) auto
  show "Process N p w c \<noteq> Some (RateLimited x, w')" by (auto elim: Process_cases)
qed

section \<open>Extraction\<close>

lemma clean_keywords_alt:
  "length acc < 10 \<Longrightarrow> clean_keywords acc kws
     = acc @ take (10 - length acc) (map to_lower (filter (\<lambda>k. k \<noteq> []) (map trim_space kws)))"
proof (induction kws arbitrary: acc)
  case (Cons kw kws)
  show ?case
  proof (cases "trim_space kw = []")
    case False
    show ?thesis
    proof (cases "length acc = 9")
      case True
      then show ?thesis using False by (simp add: Let_def)
    next
      case less: False
      then have l: "Suc (length acc) < 10" using Cons.prems by simp
      then have "10 - length acc = Suc (10 - Suc (length acc))" by simp
      then show ?thesis using Cons.IH [of "acc @ [to_lower (trim_space kw)]"] False l
        by (simp add: Let_def)
    qed
  qed (use Cons in simp)
qed simp

lemma dropWhile_map: "dropWhile P (map f xs) = map f (dropWhile (P \<circ> f) xs)"
  by (induction xs) auto

lemma trim_space_lower: "trim_space (to_lower s) = to_lower (trim_space s)"
  by (simp add: trim_space_def trim_by_def trim_left_by_def trim_right_by_def to_lower_def
      dropWhile_map rev_map comp_def)

lemma clean_keywords_ok:
  assumes "k \<in> set (clean_keywords [] kws)"
  shows "k \<noteq> []" "trim_space k = k" "to_lower k = k"
proof -
  have "k \<in> set (take 10 (map to_lower (filter (\<lambda>k. k \<noteq> []) (map trim_space kws))))"
    using assms by (simp add: clean_keywords_alt)
  then obtain s where "k = to_lower (trim_space s)" "trim_space s \<noteq> []"
    by (auto dest!: in_set_takeD)
  then show "k \<noteq> []" "trim_space k = k" "to_lower k = k" by (simp_all add: trim_space_lower)
qed

lemma finish_extraction_ok:
  assumes "finish_extraction N obj = Inr x"
  shows "1 \<le> length (ex_keywords x)" "length (ex_keywords x) \<le> 10"
    "k \<in> set (ex_keywords x) \<Longrightarrow> k \<noteq> [] \<and> trim_space k = k \<and> to_lower k = k"
    "trim_space (ex_title x) = ex_title x" "trim_space (ex_broad x) = ex_broad x"
    "trim_space (ex_sub x) = ex_sub x"
proof -
  let ?zero = "\<lparr>ex_title = [], ex_broad = [], ex_sub = [], ex_keywords = []\<rparr>"
  obtain r where u: "unmarshal dec_extraction ?zero obj = Some r"
    using assms by (cases "unmarshal dec_extraction ?zero obj") (auto simp: finish_extraction_def)
  have x: "x = \<lparr>ex_title = trim_space (ex_title r), ex_broad = trim_space (ex_broad r),
      ex_sub = trim_space (ex_sub r), ex_keywords = clean_keywords [] (ex_keywords r)\<rparr>"
    and ne: "clean_keywords [] (ex_keywords r) \<noteq> []"
    using assms u by (auto simp: finish_extraction_def Let_def split: if_splits)
  show "1 \<le> length (ex_keywords x)" using ne by (simp add: x Suc_le_eq)
  show "length (ex_keywords x) \<le> 10" by (simp add: x clean_keywords_alt)
  show "k \<in> set (ex_keywords x) \<Longrightarrow> k \<noteq> [] \<and> trim_space k = k \<and> to_lower k = k"
    by (simp add: x clean_keywords_ok)
qed (use assms in \<open>auto simp: finish_extraction_def Let_def split: option.splits if_splits\<close>)

lemma parseExtraction_finish:
  "parseExtraction N raw = Inr x \<Longrightarrow> \<exists>obj. finish_extraction N obj = Inr x"
  by (auto simp: parseExtraction_def Let_def split: option.splits if_splits)

lemma extractKeywords_parse:
  "extractKeywords N p markdown w = (Done_With x, w') \<Longrightarrow> \<exists>content. parseExtraction N content = Inr x"
  by (auto simp: extractKeywords_def Let_def split: option.splits prod.splits sum.splits if_splits list.splits)

section \<open>What surrounds the JSON object does not matter\<close>

definition object_text :: "string \<Rightarrow> string" where
  "object_text v = CHR ''{'' # v @ [CHR ''}'']"

definition framed :: "string \<Rightarrow> string \<Rightarrow> bool" where
  "framed v t \<longleftrightarrow> (\<exists>u w. t = u @ object_text v @ w \<and> CHR ''{'' \<notin> set u \<and> CHR ''}'' \<notin> set w)"

lemma dropWhile_framed:
  "\<not> P (hd ys) \<Longrightarrow> ys \<noteq> [] \<Longrightarrow> \<exists>u'. dropWhile P (u @ ys) = u' @ ys \<and> set u' \<subseteq> set u"
proof (induction u)
  case (Cons a u)
  then show ?case by (cases "P a") (auto intro: exI [of _ "a # u"])
qed (auto simp: dropWhile_hd_false)

lemma brace_not_space: "\<not> is_space (CHR ''{'')" "\<not> is_space (CHR ''}'')"
  by (simp_all add: is_space_def)

lemma framed_trim_space: "framed v t \<Longrightarrow> framed v (trim_space t)"
proof -
  assume "framed v t"
  then obtain u w where t: "t = u @ object_text v @ w" "CHR ''{'' \<notin> set u" "CHR ''}'' \<notin> set w"
    by (auto simp: framed_def)
  have "\<not> is_space (hd (object_text v @ w))" by (simp add: object_text_def brace_not_space)
  from dropWhile_framed [of is_space, OF this, of u] obtain u' where
    u': "trim_left_by is_space t = u' @ object_text v @ w" "set u' \<subseteq> set u"
    using t by (auto simp: trim_left_by_def object_text_def)
  have "\<not> is_space (hd (rev (u' @ object_text v)))" by (simp add: object_text_def brace_not_space)
  from dropWhile_framed [of is_space, OF this, of "rev w"] obtain w' where
    w': "dropWhile is_space (rev w @ rev (u' @ object_text v)) = w' @ rev (u' @ object_text v)" "set w' \<subseteq> set w"
    by (auto simp: object_text_def)
  have "trim_space t = rev (dropWhile is_space (rev w @ rev (u' @ object_text v)))"
    using u'(1) by (simp add: trim_space_def trim_by_def trim_right_by_def)
  then have "trim_space t = u' @ object_text v @ rev w'" unfolding w'(1) by simp
  then show ?thesis using t u' w' unfolding framed_def
    by (intro exI [of _ u'] exI [of _ "rev w'"]) auto
qed

lemma framed_trim_prefix: "framed v t \<Longrightarrow> CHR ''{'' \<notin> set p \<Longrightarrow> framed v (trim_prefix t p)"
proof -
  assume "framed v t" and p: "CHR ''{'' \<notin> set p"
  then obtain u w where t: "t = u @ object_text v @ w" "CHR ''{'' \<notin> set u" "CHR ''}'' \<notin> set w"
    by (auto simp: framed_def)
  show ?thesis
  proof (cases "prefix p t")
    case True
    then obtain z where z: "t = p @ z" by (auto simp: prefix_def)
    have "length p \<le> length u"
    proof (rule ccontr)
      assume "\<not> length p \<le> length u"
      then have "p ! length u = t ! length u" using z by (simp add: nth_append)
      also have "\<dots> = CHR ''{''" using t by (simp add: nth_append object_text_def)
      finally show False using p \<open>\<not> length p \<le> length u\<close> by (metis nth_mem not_le)
    qed
    then have "drop (length p) t = drop (length p) u @ object_text v @ w" using t by simp
    moreover have "CHR ''{'' \<notin> set (drop (length p) u)" using t(2) by (auto dest: in_set_dropD)
    ultimately show ?thesis using True t(3) unfolding framed_def trim_prefix_def
      by (intro exI [of _ "drop (length p) u"] exI [of _ w]) simp
  next
    case False
    then show ?thesis using \<open>framed v t\<close> by (simp add: trim_prefix_def)
  qed
qed

lemma framed_trim_suffix: "framed v t \<Longrightarrow> CHR ''}'' \<notin> set p \<Longrightarrow> framed v (trim_suffix t p)"
proof -
  assume fr: "framed v t" and p: "CHR ''}'' \<notin> set p"
  then obtain u w where t: "t = u @ object_text v @ w" "CHR ''{'' \<notin> set u" "CHR ''}'' \<notin> set w"
    by (auto simp: framed_def)
  show ?thesis
  proof (cases "suffix p t")
    case True
    then obtain z where z: "t = z @ p" by (auto simp: suffix_def)
    have "length p \<le> length w"
    proof (rule ccontr)
      assume less: "\<not> length p \<le> length w"
      have "rev p ! length w = rev t ! length w" using z less by (simp add: nth_append)
      also have "\<dots> = CHR ''}''" using t by (simp add: nth_append object_text_def)
      finally show False using p less by (metis length_rev not_le nth_mem set_rev)
    qed
    then have "take (length t - length p) t = u @ object_text v @ take (length w - length p) w"
      using t by simp
    moreover have "CHR ''}'' \<notin> set (take (length w - length p) w)" using t(3) by (auto dest: in_set_takeD)
    ultimately show ?thesis using True t(2) unfolding framed_def trim_suffix_def
      by (intro exI [of _ u] exI [of _ "take (length w - length p) w"]) simp
  next
    case False
    then show ?thesis using fr by (simp add: trim_suffix_def)
  qed
qed

lemma framed_strip: "framed v t \<Longrightarrow> framed v (strip_fences t)"
  unfolding strip_fences_def
  by (intro framed_trim_space framed_trim_suffix framed_trim_prefix) (auto simp: fence_def)

lemma index_byte_append: "b \<notin> set u \<Longrightarrow> index_byte (u @ b # s) b = Some (length u)"
  by (induction u) auto

lemma framed_extraction:
  assumes "framed v raw"
  shows "parseExtraction N raw = finish_extraction N (object_text v)"
proof -
  obtain u w where t: "strip_fences raw = u @ object_text v @ w" "CHR ''{'' \<notin> set u" "CHR ''}'' \<notin> set w"
    using framed_strip [OF assms] by (auto simp: framed_def)
  have i: "index_byte (strip_fences raw) (CHR ''{'') = Some (length u)"
    using t index_byte_append [of "CHR ''{''" u] by (simp add: object_text_def)
  have "index_byte (rev (strip_fences raw)) (CHR ''}'') = Some (length w)"
    using t index_byte_append [of "CHR ''}''" "rev w"] by (simp add: object_text_def)
  then have l: "last_index_byte (strip_fences raw) (CHR ''}'') = Some (Suc (length u + length v))"
    using t(1) by (simp add: last_index_byte_def object_text_def)
  have "drop (length u) (take (Suc (Suc (length u + length v))) (strip_fences raw)) = object_text v"
    using t(1) by (simp add: object_text_def)
  then show ?thesis using i l by (simp add: parseExtraction_def)
qed

end
