(* ===== verification/Crawl.thy ===== *)
theory Crawl
  imports Kubo
begin

text \<open>
  The archive crawler of \<open>src/crawl.go\<close>: classifying a CID, listing a directory (Kubo,
  dag-json or the gateway's HTML page), and the depth-first walk. The walk is stated over its
  two network operations, so that its lemmas hold for each way of listing.
\<close>

section \<open>Kinds of nodes\<close>

datatype node_kind = KindUnknown | KindDir | KindPDF | KindOther

definition kind_text :: "node_kind \<Rightarrow> string" where
  "kind_text k = (case k of KindDir \<Rightarrow> ''directory'' | KindPDF \<Rightarrow> ''pdf'' | KindOther \<Rightarrow> ''other''
     | KindUnknown \<Rightarrow> ''unknown'')"

record child_entry = ch_name :: string ch_cid :: cid

record crawler =
  c_gateway :: string
  c_api :: string
  c_maxDepth :: int
  c_maxDocs :: int

definition enumTimeout :: nanos where "enumTimeout = seconds 60"
definition classifyTimeout :: nanos where "classifyTimeout = seconds 30"
definition classifyPeek :: int where "classifyPeek = 1024"

definition defaultMaxDepth :: int where [simp]: "defaultMaxDepth = 8"
definition defaultMaxDocs :: int where [simp]: "defaultMaxDocs = 5000"

definition newCrawler :: "string \<Rightarrow> string \<Rightarrow> int \<Rightarrow> int \<Rightarrow> crawler" where
  "newCrawler gateway api maxDepth maxDocs =
     \<lparr>c_gateway = trim_right_slash gateway, c_api = trim_right_slash api,
      c_maxDepth = (if maxDepth \<le> 0 then defaultMaxDepth else maxDepth),
      c_maxDocs = (if maxDocs \<le> 0 then defaultMaxDocs else maxDocs)\<rparr>"

text \<open>\<open>path.Ext\<close>: from the last dot of the last path element.\<close>

definition path_ext :: "string \<Rightarrow> string" where
  "path_ext p =
     (let r = rev p; t = takeWhile (\<lambda>c. c \<noteq> CHR ''/'' \<and> c \<noteq> CHR ''.'') r in
      case drop (length t) r of
        [] \<Rightarrow> [] | c # _ \<Rightarrow> if c = CHR ''.'' then CHR ''.'' # rev t else [])"

definition nonPDFExt :: "string list" where
  "nonPDFExt = [
     ''.txt'', ''.md'', ''.json'', ''.xml'', ''.csv'', ''.tsv'',
     ''.html'', ''.htm'', ''.png'', ''.jpg'', ''.jpeg'', ''.gif'',
     ''.svg'', ''.webp'', ''.zip'', ''.gz'', ''.tar'', ''.bz2'',
     ''.doc'', ''.docx'', ''.ppt'', ''.pptx'', ''.xls'', ''.xlsx'',
     ''.mp4'', ''.mp3'', ''.wav'', ''.avi'', ''.mov'', ''.bin'',
     ''.epub'', ''.djvu'', ''.ps'', ''.tex'', ''.bib'', ''.yaml'', ''.yml'']"

definition classifyByName :: "string \<Rightarrow> node_kind" where
  "classifyByName name =
     (let n = to_lower (trim_space name); ext = path_ext n in
      if n = [] then KindUnknown
      else if suffix ''.pdf'' n then KindPDF
      else if ext = [] then KindUnknown
      else if ext \<in> set nonPDFExt then KindOther
      else KindUnknown)"

section \<open>Classifying and listing\<close>

definition get_request :: "string \<Rightarrow> (string \<times> string) list \<Rightarrow> nanos \<Rightarrow> http_req" where
  "get_request u hs t = \<lparr>rq_method = ''GET'', rq_url = u, rq_headers = hs, rq_body = NoBody, rq_timeout = t\<rparr>"

definition classifyAPI :: "'w net \<Rightarrow> crawler \<Rightarrow> cid \<Rightarrow> 'w \<Rightarrow> (string + node_kind) \<times> 'w" where
  "classifyAPI N c n w =
     (case kuboLS N (c_api c) n classifyTimeout w of
        (Inl e, w1) \<Rightarrow> (Inl e, w1)
      | (Inr links, w1) \<Rightarrow>
          if length links > 0 then (Inr KindDir, w1)
          else (case kuboCat N (c_api c) n classifyPeek classifyTimeout w1 of
              (Inl e, w2) \<Rightarrow> (if kuboIsDir (Some e) then Inr KindDir else Inl e, w2)
            | (Inr peek, w2) \<Rightarrow>
                (Inr (if length peek \<ge> 4 \<and> take 4 peek = ''%PDF'' then KindPDF else KindOther), w2)))"

definition Classify :: "'w net \<Rightarrow> crawler \<Rightarrow> cid \<Rightarrow> 'w \<Rightarrow> (string + node_kind) \<times> 'w" where
  "Classify N c n w =
     (if c_api c \<noteq> [] then classifyAPI N c n w
      else (let u = c_gateway c @ ''/ipfs/'' @ path_escape n in
        case bad_url N u of
          Some e \<Rightarrow> (Inl e, w)
        | None \<Rightarrow>
          (case http_do N w (get_request u [(''Range'', ''bytes=0-'' @ show_int (classifyPeek - 1))] classifyTimeout) of
             (Inl e, w1) \<Rightarrow> (Inl (''gateway request: '' @ e), w1)
           | (Inr resp, w1) \<Rightarrow>
               if hr_code resp \<noteq> 200 \<and> hr_code resp \<noteq> 206
               then (Inl (''gateway returned '' @ hr_status resp), w1)
               else (let ct = to_lower (header_get resp ''Content-Type'');
                         peek = fst (read_limited classifyPeek resp)
                 in (Inr (if prefix ''%PDF'' peek then KindPDF
                      else if contains ct ''application/pdf'' then KindPDF
                      else if contains ct ''text/html'' then KindDir
                      else KindOther), w1)))))"

definition enumerateAPI :: "'w net \<Rightarrow> crawler \<Rightarrow> cid \<Rightarrow> 'w \<Rightarrow> (string + child_entry list) \<times> 'w" where
  "enumerateAPI N c n w =
     (case kuboLS N (c_api c) n enumTimeout w of
        (Inl e, w1) \<Rightarrow> (Inl e, w1)
      | (Inr links, w1) \<Rightarrow> (Inr (map (\<lambda>l. \<lparr>ch_name = Name l, ch_cid = CID l\<rparr>) links), w1))"

record dag_link = dl_slash :: string dl_name :: string

definition dec_dag :: "dag_link list decoder" where
  "dec_dag = dec_struct [(''Links'', dec_list (dec_struct
     [(''Hash'', at_field dl_slash dl_slash_update (dec_struct [(''/'', dec_string)])),
      (''Name'', at_field dl_name dl_name_update dec_string)]) \<lparr>dl_slash = [], dl_name = []\<rparr>)]"

definition enumerateDagJSON :: "'w net \<Rightarrow> crawler \<Rightarrow> cid \<Rightarrow> 'w \<Rightarrow> (string + child_entry list) \<times> 'w" where
  "enumerateDagJSON N c n w =
     (case send_request N (get_request (c_gateway c @ ''/ipfs/'' @ path_escape n @ ''?format=dag-json'')
          [(''Accept'', ''application/vnd.ipld.dag-json'')] enumTimeout) w of
        (Inl e, w1) \<Rightarrow> (Inl e, w1)
      | (Inr resp, w1) \<Rightarrow>
         ((if hr_code resp \<noteq> 200 then Inl (''status '' @ hr_status resp)
           else let ct = header_get resp ''Content-Type'' in
             if \<not> contains ct ''json'' then Inl (''unexpected content-type '' @ [quote] @ ct @ [quote])
             else (case read_limited maxFetchSize resp of
                 (body, Some e) \<Rightarrow> Inl e
               | (body, None) \<Rightarrow>
                  (case unmarshal dec_dag [] body of
                     None \<Rightarrow> Inl (json_err N body)
                   | Some links \<Rightarrow> Inr (map (\<lambda>l. \<lparr>ch_name = dl_name l, ch_cid = dl_slash l\<rparr>)
                       (filter (\<lambda>l. dl_slash l \<noteq> []) links))))), w1))"

text \<open>
  The regular expression \<open>dirHrefRe\<close> as a matcher: neither of its two repetitions can run into
  what follows it, so there is no backtracking.
\<close>

definition href_open :: string where
  "href_open = ''href='' @ [quote] @ ''/ipfs/''"

definition match_href :: "string \<Rightarrow> (string \<times> string \<times> string) option" where
  "match_href s =
     (if \<not> prefix href_open s then None
      else let r = drop (length href_open) s;
               c = takeWhile is_alnum r;
               q = dropWhile is_alnum r;
               m = drop (length ''?filename='') q;
               name = takeWhile (\<lambda>x. x \<noteq> quote) m
           in if c = [] \<or> \<not> prefix ''?filename='' q then None
              else (case dropWhile (\<lambda>x. x \<noteq> quote) m of [] \<Rightarrow> None | _ # t \<Rightarrow> Some (c, name, t)))"

lemma match_href_shorter: "match_href s = Some (c, name, t) \<Longrightarrow> length t < length s"
proof -
  assume a: "match_href s = Some (c, name, t)"
  let ?q = "dropWhile is_alnum (drop (length href_open) s)"
  let ?m = "drop (length ''?filename='') ?q"
  have "length (dropWhile (\<lambda>x. x \<noteq> quote) ?m) \<le> length ?m" by (rule length_dropWhile_le)
  also have "\<dots> \<le> length ?q" by simp
  also have "\<dots> \<le> length (drop (length href_open) s)" by (rule length_dropWhile_le)
  also have "\<dots> \<le> length s" by simp
  finally show ?thesis using a by (auto simp: match_href_def Let_def split: if_splits list.splits)
qed

function (sequential) html_links :: "string \<Rightarrow> (string \<times> string) list" where
  "html_links [] = []"
| "html_links (x # s) = (case match_href (x # s) of
     Some (c, name, t) \<Rightarrow> (c, name) # html_links t | None \<Rightarrow> html_links s)"
  by pat_completeness auto
termination by (relation "measure length") (auto dest: match_href_shorter)

text \<open>The loop over the matches, with the child CIDs seen so far.\<close>

fun html_children :: "cid \<Rightarrow> cid list \<Rightarrow> (string \<times> string) list \<Rightarrow> child_entry list" where
  "html_children n seen [] = []"
| "html_children n seen ((childCID, rawName) # ms) =
     (if childCID = n then html_children n seen ms
      else if childCID \<in> set seen then html_children n seen ms
      else \<lparr>ch_name = (case query_unescape rawName of Some d \<Rightarrow> d | None \<Rightarrow> rawName), ch_cid = childCID\<rparr>
        # html_children n (childCID # seen) ms)"

definition enumerateHTML :: "'w net \<Rightarrow> crawler \<Rightarrow> cid \<Rightarrow> 'w \<Rightarrow> (string + child_entry list) \<times> 'w" where
  "enumerateHTML N c n w =
     (case send_request N (get_request (c_gateway c @ ''/ipfs/'' @ path_escape n @ ''/'') [] enumTimeout) w of
        (Inl e, w1) \<Rightarrow> (Inl e, w1)
      | (Inr resp, w1) \<Rightarrow>
         ((if hr_code resp \<noteq> 200 then Inl (''status '' @ hr_status resp)
           else (case read_limited maxFetchSize resp of
               (body, Some e) \<Rightarrow> Inl e
             | (body, None) \<Rightarrow> Inr (html_children n [] (html_links body)))), w1))"

definition enumerateDir :: "'w net \<Rightarrow> crawler \<Rightarrow> cid \<Rightarrow> 'w \<Rightarrow> (string + child_entry list) \<times> 'w" where
  "enumerateDir N c n w =
     (if c_api c \<noteq> [] then enumerateAPI N c n w
      else (case enumerateDagJSON N c n w of
          (Inr (ch # chs), w1) \<Rightarrow> (Inr (ch # chs), w1)
        | (_, w1) \<Rightarrow> enumerateHTML N c n w1))"

section \<open>The walk\<close>

record walk_state =
  wk_visited :: "cid list"
  wk_docs :: "cid list"
  wk_order :: "cid list"

definition child_kind ::
  "(cid \<Rightarrow> 'w \<Rightarrow> (string + node_kind) \<times> 'w) \<Rightarrow> child_entry \<Rightarrow> 'w \<Rightarrow> (string + node_kind) \<times> 'w" where
  "child_kind cls ch w =
     (let kind = classifyByName (ch_name ch) in
      if kind = KindUnknown then cls (ch_cid ch) w else (Inr kind, w))"

definition add_doc :: "cid \<Rightarrow> walk_state \<Rightarrow> walk_state" where
  "add_doc c st = (if c \<in> set (wk_docs st) then st
     else st\<lparr>wk_docs := c # wk_docs st, wk_order := wk_order st @ [c]\<rparr>)"

function (sequential) walk ::
    "(cid \<Rightarrow> 'w \<Rightarrow> (string + child_entry list) \<times> 'w) \<Rightarrow> (cid \<Rightarrow> 'w \<Rightarrow> (string + node_kind) \<times> 'w)
       \<Rightarrow> int \<Rightarrow> int \<Rightarrow> cid \<Rightarrow> int \<Rightarrow> walk_state \<Rightarrow> 'w \<Rightarrow> walk_state \<times> 'w"
  and walk_children ::
    "(cid \<Rightarrow> 'w \<Rightarrow> (string + child_entry list) \<times> 'w) \<Rightarrow> (cid \<Rightarrow> 'w \<Rightarrow> (string + node_kind) \<times> 'w)
       \<Rightarrow> int \<Rightarrow> int \<Rightarrow> child_entry list \<Rightarrow> int \<Rightarrow> walk_state \<Rightarrow> 'w \<Rightarrow> walk_state \<times> 'w" where
  "walk enm cls maxDepth maxDocs n depth st w =
     (if int (length (wk_order st)) \<ge> maxDocs then (st, w)
      else if n \<in> set (wk_visited st) then (st, w)
      else (let st1 = st\<lparr>wk_visited := n # wk_visited st\<rparr> in
        case enm n w of
          (Inl e, w1) \<Rightarrow> (st1, w1)
        | (Inr children, w1) \<Rightarrow> walk_children enm cls maxDepth maxDocs children depth st1 w1))"
| "walk_children enm cls maxDepth maxDocs [] depth st w = (st, w)"
| "walk_children enm cls maxDepth maxDocs (ch # chs) depth st w =
     (if int (length (wk_order st)) \<ge> maxDocs then (st, w)
      else if ch_cid ch \<in> set (wk_visited st) then walk_children enm cls maxDepth maxDocs chs depth st w
      else (case child_kind cls ch w of
          (Inl e, w1) \<Rightarrow> walk_children enm cls maxDepth maxDocs chs depth st w1
        | (Inr KindDir, w1) \<Rightarrow>
            if depth + 1 < maxDepth then
              (case walk enm cls maxDepth maxDocs (ch_cid ch) (depth + 1) st w1 of
                 (st', w') \<Rightarrow> walk_children enm cls maxDepth maxDocs chs depth st' w')
            else walk_children enm cls maxDepth maxDocs chs depth st w1
        | (Inr KindPDF, w1) \<Rightarrow> walk_children enm cls maxDepth maxDocs chs depth (add_doc (ch_cid ch) st) w1
        | (Inr _, w1) \<Rightarrow> walk_children enm cls maxDepth maxDocs chs depth st w1))"
  by pat_completeness auto
termination
  by (relation "inv_image (less_than <*lex*> less_than <*lex*> less_than)
      (case_sum (\<lambda>(enm, cls, maxDepth, maxDocs, n, depth, st, w). (nat (maxDepth - depth), 1 :: nat, 0))
        (\<lambda>(enm, cls, maxDepth, maxDocs, chs, depth, st, w). (nat (maxDepth - depth), 0, length chs)))")
    auto

definition empty_walk :: walk_state where
  "empty_walk = \<lparr>wk_visited = [], wk_docs = [], wk_order = []\<rparr>"

definition Crawl :: "'w net \<Rightarrow> crawler \<Rightarrow> cid \<Rightarrow> 'w \<Rightarrow> (string + cid list) \<times> 'w" where
  "Crawl N c rootCID w =
     (case Classify N c rootCID w of
        (Inl e, w1) \<Rightarrow> (Inl (''classify root: '' @ e), w1)
      | (Inr kind, w1) \<Rightarrow>
          if kind \<noteq> KindDir then (Inl (''CID is not a directory (kind='' @ kind_text kind @ '')''), w1)
          else (case walk (enumerateDir N c) (Classify N c) (c_maxDepth c) (c_maxDocs c) rootCID 0 empty_walk w1 of
              (st, w2) \<Rightarrow> (Inr (wk_order st), w2)))"

end
