(* ===== verification/Crawl_Correct.thy ===== *)
theory Crawl_Correct
  imports Crawl
begin

text \<open>
  The walk of the crawler: it stays within its limits, what it returns is there, and, when no
  directory is reachable at two depths and the limits are not hit, it returns all that is there.
\<close>

declare walk.simps [simp del]

section \<open>One child\<close>

definition child_step ::
    "(cid \<Rightarrow> 'w \<Rightarrow> (string + child_entry list) \<times> 'w) \<Rightarrow> (cid \<Rightarrow> 'w \<Rightarrow> (string + node_kind) \<times> 'w)
       \<Rightarrow> int \<Rightarrow> int \<Rightarrow> child_entry \<Rightarrow> int \<Rightarrow> walk_state \<Rightarrow> 'w \<Rightarrow> walk_state \<times> 'w" where
  "child_step enm cls maxDepth maxDocs ch depth st w =
     (if ch_cid ch \<in> set (wk_visited st) then (st, w)
      else (case child_kind cls ch w of
          (Inl e, w1) \<Rightarrow> (st, w1)
        | (Inr KindDir, w1) \<Rightarrow>
            if depth + 1 < maxDepth then walk enm cls maxDepth maxDocs (ch_cid ch) (depth + 1) st w1
            else (st, w1)
        | (Inr KindPDF, w1) \<Rightarrow> (add_doc (ch_cid ch) st, w1)
        | (Inr _, w1) \<Rightarrow> (st, w1)))"

lemma walk_children_step:
  "int (length (wk_order st)) < maxDocs \<Longrightarrow>
     walk_children enm cls maxDepth maxDocs (ch # chs) depth st w =
       (case child_step enm cls maxDepth maxDocs ch depth st w of (st', w') \<Rightarrow>
          walk_children enm cls maxDepth maxDocs chs depth st' w')"
  by (simp add: child_step_def split: prod.split sum.split node_kind.split)

lemma walk_children_stop:
  "\<not> int (length (wk_order st)) < maxDocs \<Longrightarrow>
     walk_children enm cls maxDepth maxDocs (ch # chs) depth st w = (st, w)"
  by simp

declare walk_children.simps(2) [simp del]

lemma child_step_cases:
  obtains (same) w' where "child_step enm cls maxDepth maxDocs ch depth st w = (st, w')"
      "ch_cid ch \<in> set (wk_visited st) \<or> fst (child_kind cls ch w) \<noteq> Inr KindPDF
        \<and> (fst (child_kind cls ch w) = Inr KindDir \<longrightarrow> \<not> depth + 1 < maxDepth)"
  | (dir) w1 where "ch_cid ch \<notin> set (wk_visited st)" "child_kind cls ch w = (Inr KindDir, w1)" "depth + 1 < maxDepth"
      "child_step enm cls maxDepth maxDocs ch depth st w
        = walk enm cls maxDepth maxDocs (ch_cid ch) (depth + 1) st w1"
  | (pdf) w1 where "ch_cid ch \<notin> set (wk_visited st)" "child_kind cls ch w = (Inr KindPDF, w1)"
      "child_step enm cls maxDepth maxDocs ch depth st w = (add_doc (ch_cid ch) st, w1)"
proof (cases "ch_cid ch \<in> set (wk_visited st)")
  case True
  then show ?thesis using same by (simp add: child_step_def)
next
  case False
  obtain r w1 where k: "child_kind cls ch w = (r, w1)" by fastforce
  show ?thesis
  proof (cases r)
    case (Inl e)
    then show ?thesis using False k same by (simp add: child_step_def)
  next
    case (Inr kind)
    then show ?thesis using False k same dir pdf
      by (cases kind; cases "depth + 1 < maxDepth") (simp_all add: child_step_def)
  qed
qed

text \<open>
  Induction over the walk, for statements about every state: a directory rests on its children,
  and a child on the directories one level deeper and on the children after it.
\<close>

lemma walk_induct:
  fixes maxDepth :: int
  assumes W: "\<And>n depth st w. (\<And>children st' w'. Q children depth st' w') \<Longrightarrow> P n depth st w"
    and N: "\<And>depth st w. Q [] depth st w"
    and C: "\<And>ch chs depth st w. (\<And>n st' w'. depth + 1 < maxDepth \<Longrightarrow> P n (depth + 1) st' w') \<Longrightarrow>
        (\<And>st' w'. Q chs depth st' w') \<Longrightarrow> Q (ch # chs) depth st w"
  shows "P n depth st w" and "Q chs depth st w"
proof -
  have "(\<forall>n st w. P n depth st w) \<and> (\<forall>chs st w. Q chs depth st w)" for depth
  proof (induction "nat (maxDepth - depth)" arbitrary: depth rule: less_induct)
    case less
    have deeper: "P n (depth + 1) st' w'" if "depth + 1 < maxDepth" for n st' w'
      using less [of "depth + 1"] that by simp
    have Q: "Q chs depth st w" for chs st w
    proof (induction chs arbitrary: st w)
      case (Cons ch chs)
      show ?case by (rule C) (auto intro: deeper Cons.IH)
    qed (rule N)
    then show ?case using W by blast
  qed
  then show "P n depth st w" "Q chs depth st w" by blast+
qed

lemma walk_rel:
  assumes refl: "\<And>st. R st st" and trans: "\<And>a b c. R a b \<Longrightarrow> R b c \<Longrightarrow> R a c"
    and visit: "\<And>st n. R st (st\<lparr>wk_visited := n # wk_visited st\<rparr>)"
    and add: "\<And>st c. int (length (wk_order st)) < maxDocs \<Longrightarrow> R st (add_doc c st)"
  shows "R st (fst (walk enm cls maxDepth maxDocs n depth st w))"
    and "R st (fst (walk_children enm cls maxDepth maxDocs chs depth st w))"
proof (induction n depth st w and chs depth st w rule: walk_induct [where maxDepth = maxDepth])
  case (1 n depth st w)
  obtain r w1 where e: "enm n w = (r, w1)" by fastforce
  let ?st = "st\<lparr>wk_visited := n # wk_visited st\<rparr>"
  have "R st (fst (walk_children enm cls maxDepth maxDocs children depth ?st w1))" for children
    using trans [OF visit 1] .
  then show ?case using e refl visit by (cases r) (auto simp: walk.simps Let_def)
next
  case (2 depth st w)
  then show ?case using refl by simp
next
  case (3 ch chs depth st w)
  show ?case
  proof (cases "int (length (wk_order st)) \<ge> maxDocs")
    case False
    obtain st' w' where c: "child_step enm cls maxDepth maxDocs ch depth st w = (st', w')" by fastforce
    have "R st st'"
      using c 3(1) refl add False
      by (cases rule: child_step_cases [of enm cls maxDepth maxDocs ch depth st w]) (auto, metis fst_conv)
    then show ?thesis using False c trans [OF _ 3(2)] by (simp add: walk_children_step)
  qed (simp add: refl walk_children_stop)
qed

section \<open>Limits\<close>

definition walk_ok :: "int \<Rightarrow> walk_state \<Rightarrow> bool" where
  "walk_ok maxDocs st \<longleftrightarrow> distinct (wk_order st) \<and> set (wk_docs st) = set (wk_order st)
     \<and> int (length (wk_order st)) \<le> maxDocs"

lemma walk_keeps_ok:
  "walk_ok maxDocs st \<Longrightarrow> walk_ok maxDocs (fst (walk enm cls maxDepth maxDocs n depth st w))"
proof -
  have "walk_ok maxDocs st \<longrightarrow> walk_ok maxDocs (fst (walk enm cls maxDepth maxDocs n depth st w))"
    by (rule walk_rel(1) [where R = "\<lambda>a b. walk_ok maxDocs a \<longrightarrow> walk_ok maxDocs b"])
      (auto simp: walk_ok_def add_doc_def)
  then show "walk_ok maxDocs st \<Longrightarrow> ?thesis" by blast
qed

definition grows :: "walk_state \<Rightarrow> walk_state \<Rightarrow> bool" where
  "grows a b \<longleftrightarrow> set (wk_visited a) \<subseteq> set (wk_visited b) \<and> set (wk_order a) \<subseteq> set (wk_order b)
     \<and> length (wk_order a) \<le> length (wk_order b)"

lemma walk_grows:
  "grows st (fst (walk enm cls maxDepth maxDocs n depth st w))"
  "grows st (fst (walk_children enm cls maxDepth maxDocs chs depth st w))"
  by (rule walk_rel [where R = grows]; force simp: grows_def add_doc_def)+

lemma Crawl_walk:
  "Crawl N c root w = (Inr found, w') \<Longrightarrow>
     \<exists>st w1. walk (enumerateDir N c) (Classify N c) (c_maxDepth c) (c_maxDocs c) root 0 empty_walk w1 = (st, w')
       \<and> found = wk_order st"
  by (auto simp: Crawl_def split: prod.splits sum.splits if_splits)

lemma Crawl_limits:
  assumes "Crawl N c root w = (Inr found, w')" and "c_maxDocs c \<ge> 0"
  shows "distinct found" "int (length found) \<le> c_maxDocs c"
proof -
  obtain st w1 where "walk (enumerateDir N c) (Classify N c) (c_maxDepth c) (c_maxDocs c) root 0 empty_walk w1 = (st, w')"
    and f: "found = wk_order st" using Crawl_walk [OF assms(1)] by blast
  moreover have "walk_ok (c_maxDocs c) empty_walk" using assms(2) by (simp add: walk_ok_def empty_walk_def)
  ultimately have "walk_ok (c_maxDocs c) st" using walk_keeps_ok by (metis fst_conv)
  then show "distinct found" "int (length found) \<le> c_maxDocs c" by (simp_all add: walk_ok_def f)
qed

section \<open>What is found is there\<close>

text \<open>
  Directories at a depth below the limit, by the answers the network gave at some time: the root,
  and the children of a listed directory that were taken for directories.
\<close>

inductive dir_at ::
    "(cid \<Rightarrow> 'w \<Rightarrow> (string + child_entry list) \<times> 'w) \<Rightarrow> (cid \<Rightarrow> 'w \<Rightarrow> (string + node_kind) \<times> 'w)
       \<Rightarrow> int \<Rightarrow> cid \<Rightarrow> cid \<Rightarrow> int \<Rightarrow> bool" for enm cls maxDepth root where
  root: "dir_at enm cls maxDepth root root 0"
| child: "dir_at enm cls maxDepth root n d \<Longrightarrow> enm n w = (Inr children, w') \<Longrightarrow> ch \<in> set children \<Longrightarrow>
    child_kind cls ch v = (Inr KindDir, v') \<Longrightarrow> d + 1 < maxDepth \<Longrightarrow>
    dir_at enm cls maxDepth root (ch_cid ch) (d + 1)"

definition pdf_at ::
    "(cid \<Rightarrow> 'w \<Rightarrow> (string + child_entry list) \<times> 'w) \<Rightarrow> (cid \<Rightarrow> 'w \<Rightarrow> (string + node_kind) \<times> 'w)
       \<Rightarrow> int \<Rightarrow> cid \<Rightarrow> cid \<Rightarrow> bool" where
  "pdf_at enm cls maxDepth root c \<longleftrightarrow> (\<exists>n d w children w' ch v v'. dir_at enm cls maxDepth root n d
     \<and> enm n w = (Inr children, w') \<and> ch \<in> set children
     \<and> child_kind cls ch v = (Inr KindPDF, v') \<and> ch_cid ch = c)"

abbreviation "dirs enm cls maxDepth root \<equiv> {n. \<exists>d. dir_at enm cls maxDepth root n d}"
abbreviation "pdfs enm cls maxDepth root \<equiv> {c. pdf_at enm cls maxDepth root c}"

definition within :: "cid set \<Rightarrow> cid set \<Rightarrow> walk_state \<Rightarrow> walk_state \<Rightarrow> bool" where
  "within D P a b \<longleftrightarrow> set (wk_visited b) \<subseteq> set (wk_visited a) \<union> D \<and> set (wk_order b) \<subseteq> set (wk_order a) \<union> P"

lemma within_refl: "within D P a a"
  by (simp add: within_def)

lemma within_trans: "within D P a b \<Longrightarrow> within D P b c \<Longrightarrow> within D P a c"
  by (auto simp: within_def)

lemma walk_sound:
  fixes enm cls maxDepth root
  defines "D \<equiv> dirs enm cls maxDepth root" and "P \<equiv> pdfs enm cls maxDepth root"
  shows "dir_at enm cls maxDepth root n depth \<Longrightarrow> within D P st (fst (walk enm cls maxDepth maxDocs n depth st w))"
    and "(\<exists>n w0 all w0'. dir_at enm cls maxDepth root n depth \<and> enm n w0 = (Inr all, w0') \<and> set chs \<subseteq> set all) \<Longrightarrow>
      within D P st (fst (walk_children enm cls maxDepth maxDocs chs depth st w))"
proof (induction n depth st w and chs depth st w rule: walk_induct [where maxDepth = maxDepth])
  case (1 n depth st w)
  obtain r w1 where e: "enm n w = (r, w1)" by fastforce
  let ?st = "st\<lparr>wk_visited := n # wk_visited st\<rparr>"
  have v: "within D P st ?st" using 1(2) by (auto simp: within_def D_def)
  show ?case
  proof (cases r)
    case (Inr children)
    have "within D P ?st (fst (walk_children enm cls maxDepth maxDocs children depth ?st w1))"
      using 1(1) [of children ?st w1] 1(2) e Inr by blast
    then show ?thesis using e Inr within_trans [OF v] by (auto simp: walk.simps Let_def within_refl)
  qed (use e v in \<open>simp add: walk.simps Let_def within_refl\<close>)
next
  case (3 ch chs depth st w)
  then obtain n w0 all w0' where n: "dir_at enm cls maxDepth root n depth" "enm n w0 = (Inr all, w0')"
      "ch \<in> set all" "set chs \<subseteq> set all" by auto
  show ?case
  proof (cases "int (length (wk_order st)) < maxDocs")
    case True
    obtain st' w' where c: "child_step enm cls maxDepth maxDocs ch depth st w = (st', w')" by fastforce
    have "within D P st st'"
    proof (cases rule: child_step_cases [of enm cls maxDepth maxDocs ch depth st w])
      case (same w')
      then show ?thesis using c by (simp add: within_refl)
    next
      case (dir w1)
      then have "dir_at enm cls maxDepth root (ch_cid ch) (depth + 1)"
        using n dir_at.child [OF n(1,2,3)] by blast
      moreover have "st' = fst (walk enm cls maxDepth maxDocs (ch_cid ch) (depth + 1) st w1)"
        using dir(4) c by (metis fst_conv)
      ultimately show ?thesis using 3(1) dir(3) by blast
    next
      case (pdf w1)
      then have "ch_cid ch \<in> P" using n unfolding pdf_at_def P_def by blast
      then show ?thesis using pdf c by (auto simp: add_doc_def within_def)
    qed
    moreover have "within D P st' (fst (walk_children enm cls maxDepth maxDocs chs depth st' w'))"
      using 3(2) n by blast
    ultimately show ?thesis using True c within_trans by (auto simp: walk_children_step)
  qed (simp add: walk_children_stop within_refl)
qed (simp add: within_refl)

section \<open>What is there is found\<close>

text \<open>For a network whose answers do not change.\<close>

definition answers :: "(cid \<Rightarrow> 'w \<Rightarrow> 'r \<times> 'w) \<Rightarrow> (cid \<Rightarrow> 'r) \<Rightarrow> bool" where
  "answers f F \<longleftrightarrow> (\<forall>x w. fst (f x w) = F x)"

definition kind_of :: "(cid \<Rightarrow> string + node_kind) \<Rightarrow> child_entry \<Rightarrow> string + node_kind" where
  "kind_of K ch = (let k = classifyByName (ch_name ch) in if k = KindUnknown then K (ch_cid ch) else Inr k)"

lemma child_kind_fst: "answers cls K \<Longrightarrow> fst (child_kind cls ch w) = kind_of K ch"
  by (simp add: child_kind_def kind_of_def answers_def Let_def)

definition handled :: "(cid \<Rightarrow> string + node_kind) \<Rightarrow> int \<Rightarrow> int \<Rightarrow> walk_state \<Rightarrow> child_entry \<Rightarrow> bool" where
  "handled K maxDepth depth st ch \<longleftrightarrow>
     (kind_of K ch = Inr KindDir \<and> depth + 1 < maxDepth \<longrightarrow> ch_cid ch \<in> set (wk_visited st))
     \<and> (kind_of K ch = Inr KindPDF \<longrightarrow> ch_cid ch \<in> set (wk_order st) \<union> set (wk_visited st))"

definition explored ::
    "(cid \<Rightarrow> string + child_entry list) \<Rightarrow> (cid \<Rightarrow> string + node_kind) \<Rightarrow> int \<Rightarrow> walk_state \<Rightarrow> cid \<Rightarrow> int \<Rightarrow> bool" where
  "explored E K maxDepth st v d \<longleftrightarrow>
     (\<forall>children. E v = Inr children \<longrightarrow> (\<forall>ch \<in> set children. handled K maxDepth d st ch))"

lemma handled_grows: "handled K m d st ch \<Longrightarrow> grows st st' \<Longrightarrow> handled K m d st' ch"
  by (auto simp: handled_def grows_def)

lemma explored_grows: "explored E K m st v d \<Longrightarrow> grows st st' \<Longrightarrow> explored E K m st' v d"
  by (auto simp: explored_def intro: handled_grows)

text \<open>Every visited directory outside \<open>G\<close> (those in progress) has been explored.\<close>

definition settled_outside where
  "settled_outside enm cls E K maxDepth root G st \<longleftrightarrow> set (wk_docs st) = set (wk_order st) \<and>
     (\<forall>v \<in> set (wk_visited st) - G. \<forall>d. dir_at enm cls maxDepth root v d \<longrightarrow> explored E K maxDepth st v d)"

definition one_depth where
  "one_depth enm cls maxDepth root \<longleftrightarrow>
     (\<forall>n d d'. dir_at enm cls maxDepth root n d \<longrightarrow> dir_at enm cls maxDepth root n d' \<longrightarrow> d = d')"

lemma settled_visit:
  assumes "settled_outside enm cls E K maxDepth root G st"
  shows "settled_outside enm cls E K maxDepth root (insert n G) (st\<lparr>wk_visited := n # wk_visited st\<rparr>)"
proof -
  have "grows st (st\<lparr>wk_visited := n # wk_visited st\<rparr>)" by (auto simp: grows_def)
  then show ?thesis using assms by (auto simp: settled_outside_def intro: explored_grows)
qed

lemma settled_add:
  assumes "settled_outside enm cls E K maxDepth root G st"
  shows "settled_outside enm cls E K maxDepth root G (add_doc c st)"
proof -
  have "grows st (add_doc c st)" "wk_visited (add_doc c st) = wk_visited st"
    by (auto simp: grows_def add_doc_def)
  moreover have "set (wk_docs (add_doc c st)) = set (wk_order (add_doc c st))"
    using assms by (auto simp: settled_outside_def add_doc_def)
  ultimately show ?thesis using assms unfolding settled_outside_def by (metis explored_grows)
qed

lemma settled_finish:
  assumes "settled_outside enm cls E K maxDepth root (insert n G) st"
    and "\<And>d. dir_at enm cls maxDepth root n d \<Longrightarrow> explored E K maxDepth st n d"
  shows "settled_outside enm cls E K maxDepth root G st"
  using assms unfolding settled_outside_def by blast

lemma walk_complete:
  assumes E: "answers enm E" and K: "answers cls K" and one: "one_depth enm cls maxDepth root"
  shows "dir_at enm cls maxDepth root n depth \<Longrightarrow>
      settled_outside enm cls E K maxDepth root G st \<Longrightarrow>
      int (length (wk_order (fst (walk enm cls maxDepth maxDocs n depth st w)))) < maxDocs \<Longrightarrow>
      settled_outside enm cls E K maxDepth root G (fst (walk enm cls maxDepth maxDocs n depth st w))
      \<and> n \<in> set (wk_visited (fst (walk enm cls maxDepth maxDocs n depth st w)))"
    and "\<exists>n all. dir_at enm cls maxDepth root n depth \<and> E n = Inr all \<and> set chs \<subseteq> set all \<Longrightarrow>
      settled_outside enm cls E K maxDepth root G st \<Longrightarrow>
      int (length (wk_order (fst (walk_children enm cls maxDepth maxDocs chs depth st w)))) < maxDocs \<Longrightarrow>
      settled_outside enm cls E K maxDepth root G (fst (walk_children enm cls maxDepth maxDocs chs depth st w))
      \<and> (\<forall>ch \<in> set chs. handled K maxDepth depth (fst (walk_children enm cls maxDepth maxDocs chs depth st w)) ch)"
proof (induction n depth st w and chs depth st w arbitrary: G and G rule: walk_induct [where maxDepth = maxDepth])
  case (1 n depth st w)
  let ?st = "st\<lparr>wk_visited := n # wk_visited st\<rparr>"
  obtain r w1 where e: "enm n w = (r, w1)" by fastforce
  then have r: "E n = r" using E by (metis answers_def fst_conv)
  have lim: "int (length (wk_order st)) < maxDocs"
    using 1(4) walk_grows(1) [of st enm cls maxDepth maxDocs n depth w] by (simp add: grows_def)
  show ?case
  proof (cases "n \<in> set (wk_visited st)")
    case True
    then show ?thesis using lim 1(3) by (simp add: walk.simps)
  next
    case new: False
    show ?thesis
    proof (cases r)
      case (Inl err)
      then have "walk enm cls maxDepth maxDocs n depth st w = (?st, w1)"
        using lim new e by (simp add: walk.simps)
      moreover have "settled_outside enm cls E K maxDepth root G ?st"
        using settled_visit [OF 1(3)] by (rule settled_finish) (simp add: explored_def r Inl)
      ultimately show ?thesis by simp
    next
      case (Inr children)
      let ?st' = "fst (walk_children enm cls maxDepth maxDocs children depth ?st w1)"
      have eq: "fst (walk enm cls maxDepth maxDocs n depth st w) = ?st'"
        using lim new e Inr by (simp add: walk.simps)
      have "settled_outside enm cls E K maxDepth root (insert n G) ?st"
        by (rule settled_visit [OF 1(3)])
      from 1(1) [OF _ this, where w' = w1] 1(2,4) eq r Inr have
        c: "settled_outside enm cls E K maxDepth root (insert n G) ?st'"
          "\<forall>ch \<in> set children. handled K maxDepth depth ?st' ch" by auto
      have "explored E K maxDepth ?st' n d" if "dir_at enm cls maxDepth root n d" for d
        using c(2) r Inr 1(2) that one unfolding one_depth_def explored_def by auto
      then have "settled_outside enm cls E K maxDepth root G ?st'"
        using c(1) by (rule settled_finish [rotated])
      moreover have "n \<in> set (wk_visited ?st')"
        using walk_grows(2) [of ?st enm cls maxDepth maxDocs children depth w1] by (auto simp: grows_def)
      ultimately show ?thesis using eq by simp
    qed
  qed
next
  case (2 depth st w)
  then show ?case by simp
next
  case (3 ch chs depth st w)
  then obtain n all where n: "dir_at enm cls maxDepth root n depth" "E n = Inr all"
      "ch \<in> set all" "set chs \<subseteq> set all" by auto
  obtain w0 where w0: "enm n w = (Inr all, w0)" using n(2) E by (metis answers_def prod.collapse)
  have lim: "int (length (wk_order st)) < maxDocs"
    using 3(5) walk_grows(2) [of st enm cls maxDepth maxDocs "ch # chs" depth w] by (simp add: grows_def)
  obtain st' w' where c: "child_step enm cls maxDepth maxDocs ch depth st w = (st', w')" by fastforce
  let ?st2 = "fst (walk_children enm cls maxDepth maxDocs chs depth st' w')"
  have eq: "fst (walk_children enm cls maxDepth maxDocs (ch # chs) depth st w) = ?st2"
    using lim c by (simp add: walk_children_step)
  have g: "grows st' ?st2" by (rule walk_grows)
  then have lim': "int (length (wk_order st')) < maxDocs" using 3(5) eq by (simp add: grows_def)
  have k: "fst (child_kind cls ch w) = kind_of K ch" by (rule child_kind_fst [OF K])
  have "settled_outside enm cls E K maxDepth root G st' \<and> handled K maxDepth depth st' ch"
  proof (cases rule: child_step_cases [of enm cls maxDepth maxDocs ch depth st w])
    case (dir w1)
    then have st': "st' = fst (walk enm cls maxDepth maxDocs (ch_cid ch) (depth + 1) st w1)"
      using c by (metis fst_conv)
    have "dir_at enm cls maxDepth root (ch_cid ch) (depth + 1)"
      using dir_at.child [OF n(1) w0 n(3) dir(2,3)] .
    with 3(1) [OF dir(3) this 3(4), of w1] lim' st' k dir(2)
    show ?thesis by (auto simp: handled_def)
  next
    case (pdf w1)
    then have "kind_of K ch = Inr KindPDF" "st' = add_doc (ch_cid ch) st" using k c by auto
    moreover have "settled_outside enm cls E K maxDepth root G (add_doc (ch_cid ch) st)"
      using 3(4) by (rule settled_add)
    moreover have "ch_cid ch \<in> set (wk_order (add_doc (ch_cid ch) st))"
      using 3(4) by (auto simp: settled_outside_def add_doc_def)
    ultimately show ?thesis by (simp add: handled_def)
  next
    case (same w1)
    then have "st' = st" using c by simp
    moreover have "handled K maxDepth depth st ch"
      using same(2) k by (auto simp: handled_def)
    ultimately show ?thesis using 3(4) by simp
  qed
  then have "settled_outside enm cls E K maxDepth root G st'" "handled K maxDepth depth st' ch" by auto
  with 3(2) [of G st' w'] n 3(5) eq handled_grows [OF _ g] show ?case by auto
qed

end
