(* ===== verification/Api_Key.thy ===== *)
theory Api_Key
  imports Prelude
begin

text \<open>
  The API key file of \<open>src/main.go\<close>: \<open>saveAPIKey\<close> and \<open>loadAPIKey\<close> over a file system
  of files in directories, where every operating-system call of \<open>saveAPIKey\<close> may fail. A file
  is named by its directory and its base name; \<open>filepath.Join\<close> of the two is its path.
\<close>

section \<open>Files\<close>

record disk_file =
  fl_content :: string
  fl_mode :: nat

type_synonym disk = "string \<times> string \<Rightarrow> disk_file option"

datatype os_call = Mkdir_All | Create_Temp | Chmod | Write_String | Close_File | Rename_File | Remove_File

text \<open>
  What the operating system answers: the error of a call, if any, the name \<open>CreateTemp\<close> picks,
  and how much of the key a failing write leaves in the file.
\<close>

record os =
  os_err :: "os_call \<Rightarrow> string option"
  os_temp :: string
  os_partial :: nat

definition key_file :: string where "key_file = ''.api_key''"

section \<open>Saving and loading\<close>

definition contains_newline :: "string \<Rightarrow> bool" where
  "contains_newline s \<longleftrightarrow> CHR 0x0D \<in> set s \<or> CHR 0x0A \<in> set s"

text \<open>The deferred cleanup: the temporary file is removed unless it has been renamed.\<close>

definition cleanup :: "os \<Rightarrow> string \<Rightarrow> disk \<Rightarrow> disk" where
  "cleanup osys dir d = (case os_err osys Remove_File of
     Some e \<Rightarrow> d | None \<Rightarrow> d((dir, os_temp osys) := None))"

definition saveAPIKey :: "os \<Rightarrow> string \<Rightarrow> string \<Rightarrow> disk \<Rightarrow> string option \<times> disk" where
  "saveAPIKey osys dataDir key d =
     (let key = trim_space key; tmp = (dataDir, os_temp osys) in
      if key = [] \<or> contains_newline key then (Some ''invalid API key'', d)
      else (case os_err osys Mkdir_All of Some e \<Rightarrow> (Some e, d) | None \<Rightarrow>
       (case os_err osys Create_Temp of Some e \<Rightarrow> (Some e, d) | None \<Rightarrow>
        (let d1 = d(tmp \<mapsto> \<lparr>fl_content = [], fl_mode = 384\<rparr>) in
         case os_err osys Chmod of Some e \<Rightarrow> (Some e, cleanup osys dataDir d1) | None \<Rightarrow>
          (case os_err osys Write_String of
             Some e \<Rightarrow> (Some e, cleanup osys dataDir (d1(tmp \<mapsto>
               \<lparr>fl_content = take (os_partial osys) (key @ [CHR 0x0A]), fl_mode = 384\<rparr>)))
           | None \<Rightarrow>
            (let d2 = d1(tmp \<mapsto> \<lparr>fl_content = key @ [CHR 0x0A], fl_mode = 384\<rparr>) in
             case os_err osys Close_File of Some e \<Rightarrow> (Some e, cleanup osys dataDir d2) | None \<Rightarrow>
              (case os_err osys Rename_File of Some e \<Rightarrow> (Some e, cleanup osys dataDir d2) | None \<Rightarrow>
                 (None, d2(tmp := None, (dataDir, key_file) := d2 tmp)))))))))"

text \<open>\<open>getenv\<close> is the value of \<open>SAIA_API_KEY\<close>, empty when it is not set.\<close>

fun load_from :: "string list \<Rightarrow> disk \<Rightarrow> string option" where
  "load_from [] d = None"
| "load_from (dir # dirs) d =
     (case d (dir, key_file) of
        Some f \<Rightarrow> (let key = trim_space (fl_content f) in
           if key \<noteq> [] then Some key else load_from dirs d)
      | None \<Rightarrow> load_from dirs d)"

definition loadAPIKey :: "string \<Rightarrow> string \<Rightarrow> disk \<Rightarrow> string" where
  "loadAPIKey getenv dataDir d =
     (case load_from [dataDir, ''.''] d of
        Some key \<Rightarrow> key
      | None \<Rightarrow> if getenv \<noteq> [] then getenv else [])"

section \<open>Lemmas\<close>

text \<open>\<open>CreateTemp\<close> picks a name that does not exist and extends the pattern.\<close>

definition fresh_temp :: "os \<Rightarrow> string \<Rightarrow> disk \<Rightarrow> bool" where
  "fresh_temp osys dir d \<longleftrightarrow> d (dir, os_temp osys) = None \<and> os_temp osys \<noteq> key_file"

lemma trim_space_newline: "trim_space (k @ [CHR 0x0A]) = trim_space k"
proof -
  have "dropWhile is_space (rev (dropWhile is_space (k @ [CHR 0x0A])))
      = dropWhile is_space (rev (dropWhile is_space k))"
  proof (cases "\<forall>c \<in> set k. is_space c")
    case True
    then have "dropWhile is_space (k @ [CHR 0x0A]) = dropWhile is_space [CHR 0x0A]"
      "dropWhile is_space k = []" by simp_all
    then have "dropWhile is_space (k @ [CHR 0x0A]) = []" "dropWhile is_space k = []"
      by (simp_all add: is_space_def)
    then show ?thesis by (simp only: rev.simps dropWhile.simps)
  next
    case False
    then have "dropWhile is_space (k @ [CHR 0x0A]) = dropWhile is_space k @ [CHR 0x0A]"
      by (simp add: dropWhile_append)
    then show ?thesis by (simp add: is_space_def)
  qed
  then show ?thesis by (simp add: trim_space_def trim_by_def trim_left_by_def trim_right_by_def)
qed

lemma save_ok:
  assumes "saveAPIKey osys dir key d = (None, d')"
  shows "trim_space key \<noteq> []" "\<not> contains_newline (trim_space key)"
    "d' = d((dir, os_temp osys) := None,
            (dir, key_file) := Some \<lparr>fl_content = trim_space key @ [CHR 0x0A], fl_mode = 384\<rparr>)"
  using assms by (auto simp: saveAPIKey_def Let_def split: if_splits option.splits)

lemma save_error_shape:
  assumes "saveAPIKey osys dir key d = (Some e, d')"
  shows "d' = d \<or> (\<exists>f. d' = cleanup osys dir (d((dir, os_temp osys) \<mapsto> f)))"
  using assms by (auto simp: saveAPIKey_def Let_def split: if_splits option.splits)

lemma save_error:
  assumes "saveAPIKey osys dir key d = (Some e, d')"
  shows "p \<noteq> (dir, os_temp osys) \<Longrightarrow> d' p = d p"
    "d (dir, os_temp osys) = None \<Longrightarrow> os_err osys Remove_File = None \<Longrightarrow> d' = d"
  using save_error_shape [OF assms] by (auto simp: cleanup_def split: option.splits)

end
