(* ===== verification/Service.thy ===== *)
theory Service
  imports Job_Queue Pipeline Crawl_Correct Api_Key
begin

text \<open>
  The parts put together as \<open>src/main.go\<close> and \<open>src/indexer.go\<close> do: \<open>PipelineConfig\<close>, the
  pipeline and the crawler built from it, and a job run with the key of the moment. The
  environment of \<open>Indexer\<close> is here the pipeline and the crawler of the model over one network.
\<close>

section \<open>Configuration\<close>

record config =
  cfg_APIBase :: string
  cfg_Model :: string
  cfg_Gateway :: string
  cfg_IPFSAPI :: string
  cfg_PublicGateway :: string
  cfg_Workers :: int
  cfg_ConvertRPS :: int
  cfg_ChatRPS :: int
  cfg_MaxTextLen :: int
  cfg_ConvertTO :: nanos
  cfg_Spacing :: nanos
  cfg_Temperature :: "64 word"
  cfg_MaxDepth :: int
  cfg_MaxDocs :: int
  cfg_DataDir :: string

text \<open>The command-line flags of \<open>main\<close> and their defaults; the temperature is the bit pattern of 0.2.\<close>

record flags =
  fl_outputDir :: string
  fl_gateway :: string
  fl_ipfsAPI :: string
  fl_publicGateway :: string
  fl_workers :: int
  fl_convertRPS :: int
  fl_chatRPS :: int
  fl_maxText :: int
  fl_convertTO :: nanos
  fl_model :: string
  fl_apiBase :: string
  fl_spacing :: nanos
  fl_temp :: "64 word"
  fl_maxDepth :: int
  fl_maxDocs :: int
  fl_port :: int

definition defaultModel :: string where "defaultModel = ''qwen3.6-35b-a3b''"
definition defaultAPIBase :: string where "defaultAPIBase = ''https://chat-ai.academiccloud.de/v1''"
definition defaultTemp :: "64 word" where "defaultTemp = 0x3FC999999999999A"
definition defaultConvertRPS :: int where "defaultConvertRPS = 1"
definition defaultChatRPS :: int where "defaultChatRPS = 4"
definition defaultMaxTextLen :: int where "defaultMaxTextLen = 16000"
definition defaultConvertTimeout :: nanos where "defaultConvertTimeout = seconds 180"
definition defaultPort :: int where "defaultPort = 8384"

definition default_flags :: flags where
  "default_flags =
     \<lparr>fl_outputDir = ''data'', fl_gateway = ''https://ipfs.io'', fl_ipfsAPI = [], fl_publicGateway = [],
      fl_workers = 8, fl_convertRPS = defaultConvertRPS, fl_chatRPS = defaultChatRPS,
      fl_maxText = defaultMaxTextLen, fl_convertTO = defaultConvertTimeout, fl_model = defaultModel,
      fl_apiBase = defaultAPIBase, fl_spacing = 100 * 10 ^ 6, fl_temp = defaultTemp,
      fl_maxDepth = defaultMaxDepth, fl_maxDocs = defaultMaxDocs, fl_port = defaultPort\<rparr>"

definition config_of_flags :: "flags \<Rightarrow> config" where
  "config_of_flags f =
     \<lparr>cfg_APIBase = fl_apiBase f, cfg_Model = fl_model f, cfg_Gateway = fl_gateway f, cfg_IPFSAPI = fl_ipfsAPI f,
      cfg_PublicGateway = fl_publicGateway f, cfg_Workers = fl_workers f, cfg_ConvertRPS = fl_convertRPS f,
      cfg_ChatRPS = fl_chatRPS f, cfg_MaxTextLen = fl_maxText f, cfg_ConvertTO = fl_convertTO f,
      cfg_Spacing = fl_spacing f, cfg_Temperature = fl_temp f, cfg_MaxDepth = fl_maxDepth f,
      cfg_MaxDocs = fl_maxDocs f, cfg_DataDir = fl_outputDir f\<rparr>"

definition linkGateway :: "config \<Rightarrow> string" where
  "linkGateway cfg = trim_right_slash (cfg_PublicGateway cfg)"

definition pipeline_of :: "config \<Rightarrow> string \<Rightarrow> pipeline" where
  "pipeline_of cfg apiKey =
     \<lparr>p_APIKey = apiKey, p_APIBase = cfg_APIBase cfg, p_Model = cfg_Model cfg,
      p_Gateway = cfg_Gateway cfg, p_IPFSAPI = cfg_IPFSAPI cfg, p_Temperature = cfg_Temperature cfg,
      p_ConvertRPS = cfg_ConvertRPS cfg, p_ChatRPS = cfg_ChatRPS cfg, p_MaxTextLen = cfg_MaxTextLen cfg,
      p_ConvertTO = cfg_ConvertTO cfg\<rparr>"

definition crawler_of :: "config \<Rightarrow> crawler" where
  "crawler_of cfg = newCrawler (cfg_Gateway cfg) (cfg_IPFSAPI cfg) (cfg_MaxDepth cfg) (cfg_MaxDocs cfg)"

definition live_env :: "'w net \<Rightarrow> config \<Rightarrow> ('w \<Rightarrow> nat list) \<Rightarrow> string \<Rightarrow> 'w env" where
  "live_env N cfg sch apiKey =
     \<lparr>proc = Process N (pipeline_of cfg apiKey), clk = clock N, sched = sch,
      crawl = (\<lambda>w a. Some (Crawl N (crawler_of cfg) a w)), api_key = (\<lambda>w. apiKey),
      spacing = cfg_Spacing cfg\<rparr>"

definition run_job ::
  "'w net \<Rightarrow> config \<Rightarrow> ('w \<Rightarrow> nat list) \<Rightarrow> string \<Rightarrow> disk \<Rightarrow> job \<Rightarrow> 'w \<Rightarrow> store \<Rightarrow> ('w \<times> store) option" where
  "run_job N cfg sch getenv d j w s =
     process (live_env N cfg sch (loadAPIKey getenv (cfg_DataDir cfg) d)) (cfg_Workers cfg) j w s"

section \<open>Lemmas\<close>

lemma live_env_simps [simp]:
  "proc (live_env N cfg sch k) = Process N (pipeline_of cfg k)" "clk (live_env N cfg sch k) = clock N"
  "api_key (live_env N cfg sch k) w = k" "spacing (live_env N cfg sch k) = cfg_Spacing cfg"
  "crawl (live_env N cfg sch k) w a = Some (Crawl N (crawler_of cfg) a w)"
  "sched (live_env N cfg sch k) = sch"
  by (simp_all add: live_env_def)

lemma crawler_of_limits: "c_maxDocs (crawler_of cfg) > 0" "c_maxDepth (crawler_of cfg) > 0"
  by (simp_all add: crawler_of_def newCrawler_def)

lemma crawl_distinct: "Crawl N (crawler_of cfg) a w = (Inr found, w') \<Longrightarrow> distinct found"
  using Crawl_limits(1) crawler_of_limits(1) by (metis less_imp_le)

end
