(* ===== verification/Indexer_Properties.thy ===== *)
theory Indexer_Properties
  imports Service Store_Properties
begin

text \<open>
  What the background indexer promises: jobs end with everything settled, errors end in a
  recorded failure, the pool handles each document once, and the queue loses nothing.
\<close>

section \<open>Lemmas\<close>

lemma budget_zero: "budget d c = 0 \<longleftrightarrow> is_indexed d c \<or> is_failed d c"
  by (auto simp: budget_def is_failed_def)

lemma doc_list_add_archive [simp]: "doc_list a (add_archive_db now b owner d) = doc_list a d"
  by (simp add: doc_list_def member_rows_def add_archive_db_def)

lemma find_update_arch:
  assumes "archive_exists a d" and "\<And>r. r_cid (f r) = r_cid r"
  shows "\<exists>r. sql_find r_cid a (archives d) = Some r \<and> sql_find r_cid a (archives (update_arch a f d)) = Some (f r)"
proof -
  from assms(1) obtain r where r: "sql_find r_cid a (archives d) = Some r"
    by (cases "sql_find r_cid a (archives d)") (auto simp: archive_exists_def)
  then show ?thesis using assms(2) by (auto simp: update_arch_def sql_find_update dest: sql_find_SomeD)
qed

lemma update_arch_other [simp]:
  "documents (update_arch a f d) = documents d" "failures (update_arch a f d) = failures d"
  "archive_docs (update_arch a f d) = archive_docs d"
  by (simp_all add: update_arch_def)

lemma add_archive_other [simp]:
  "documents (add_archive_db now a owner d) = documents d" "failures (add_archive_db now a owner d) = failures d"
  "archive_docs (add_archive_db now a owner d) = archive_docs d"
  by (simp_all add: add_archive_db_def)

lemma pool_work_init: "pool_work (pool_init n pend s) = 3 * length pend"
  by (simp add: pool_work_def) (simp add: pool_init_def)

lemma waiting_pos: "sending q \<noteq> [] \<or> jobs q \<noteq> [] \<Longrightarrow> 0 < int (length (sending q)) + int (length (jobs q))"
  by (cases "sending q"; cases "jobs q") auto

section \<open>A network to run on\<close>

text \<open>
  A peer without state that answers every request with a gateway's directory page that lists one
  PDF; fetched as a document, the page is not a PDF.
\<close>

definition listing_page :: string where
  "listing_page = ''<a href='' @ [quote] @ ''/ipfs/QmPaper?filename=a.pdf'' @ [quote] @ ''>a.pdf</a>''"

definition page_net :: "unit net" where
  "page_net = \<lparr>http_do = (\<lambda>w rq. (Inr \<lparr>hr_code = 200, hr_status = ''200 OK'',
       hr_headers = [(''Content-Type'', ''text/html'')], hr_body = listing_page, hr_broken = None\<rparr>, w)),
     bad_url = (\<lambda>u. None), json_err = (\<lambda>b. ''bad JSON''), clock = (\<lambda>w. 7), eff = (\<lambda>e w. Some w)\<rparr>"

definition small_config :: config where
  "small_config = \<lparr>cfg_APIBase = ''https://llm'', cfg_Model = ''m'', cfg_Gateway = ''https://ipfs.io'',
     cfg_IPFSAPI = [], cfg_PublicGateway = [], cfg_Workers = 2, cfg_ConvertRPS = 1, cfg_ChatRPS = 4,
     cfg_MaxTextLen = 100, cfg_ConvertTO = 0, cfg_Spacing = 1, cfg_Temperature = 0, cfg_MaxDepth = 8,
     cfg_MaxDocs = 10, cfg_DataDir = ''data''\<rparr>"

definition key_disk :: disk where
  "key_disk = [(''data'', key_file) \<mapsto> \<lparr>fl_content = ''secret'', fl_mode = 384\<rparr>]"

lemma key_disk_load: "loadAPIKey [] ''data'' key_disk = ''secret''"
  by code_simp

lemma page_fetch: "fetchFromIPFS page_net (pipeline_of small_config k) c w = (Inr (listing_page, False), w)"
proof -
  have "isPDF listing_page = False" by code_simp
  moreover have "int (length listing_page) \<le> maxFetchSize" by code_simp
  ultimately show ?thesis
    by (simp add: fetchFromIPFS_def send_request_def page_net_def small_config_def pipeline_of_def read_limited_def)
qed

lemma page_process: "Process page_net (pipeline_of small_config k) w c = Some (NoEntry, w)"
  by (simp add: Process_def page_fetch)

lemma page_crawl: "Crawl page_net (crawler_of small_config) ''QmRoot'' w = (Inr [''QmPaper''], w)"
  by (cases w) code_simp

section \<open>Properties\<close>



text \<open>
  Property C23. The loop that re-runs the pool terminates: three rounds settle any list of distinct
  documents, because a document fails at most three times, and a round gives each pending document
  one attempt.
\<close>

theorem indexing_terminates:
  assumes "\<forall>w c. Process N p w c \<noteq> None" and "proc E = Process N p"
    and "workers > 0" and "spacing E > 0" and "drv s = []" and "store_ok (db s)" and "distinct docs"
  shows "\<exists>w' s'. index_rounds 3 E workers docs w s = Some (w', s')
    \<and> index_loop E workers docs w s = Some (w', s') \<and> store_ok (db s')
    \<and> (\<forall>c \<in> set docs. is_indexed (db s') c \<or> is_failed (db s') c)"
proof -
  have "\<forall>c \<in> set docs. budget (db s) c \<le> 3" using assms(6) by (simp add: store_ok_def budget_le)
  from doc_pipeline.index_rounds_settle [OF assms(2,1) _ assms(5-7) this, of workers w] assms(3,4)
  obtain w' s' where "index_rounds 3 E workers docs w s = Some (w', s')" "store_ok (db s')"
    "\<forall>c \<in> set docs. budget (db s') c = 0" by blast
  then show ?thesis using index_loop_rounds by (auto simp: budget_zero)
qed

theorem indexing_terminates_witness:
  "\<exists>w' s'. index_loop (live_env page_net small_config (\<lambda>w. [1]) ''k'') 2 [''a'', ''b''] () fresh_store = Some (w', s')"
proof -
  have "store_ok (db fresh_store)" using reach_inv [OF fresh_reach] by simp
  moreover have "cfg_Spacing small_config > 0" by (simp add: small_config_def)
  ultimately show ?thesis
    using indexing_terminates [of page_net "pipeline_of small_config ''k''"
        "live_env page_net small_config (\<lambda>w. [1]) ''k''" 2 fresh_store "[''a'', ''b'']" "()"]
    by (simp add: page_process) blast
qed



text \<open>
  When crawling an archive fails, the job ends with the archive marked failed with
  the error of the crawl, no worker runs, and documents, failures and memberships are unchanged.
\<close>

theorem archive_crawl_error:
  assumes "loadAPIKey getenv (cfg_DataDir cfg) d \<noteq> []"
    and "Crawl N (crawler_of cfg) a w = (Inl e, w')" and "drv s = []" and "doc_list a (db s) = []"
  shows "\<exists>s' r. run_job N cfg sch getenv d (JobArchive a owner) w s = Some (w', s')
    \<and> sql_find r_cid a (archives (db s')) = Some r \<and> r_status r = Failed \<and> r_error r = e
    \<and> documents (db s') = documents (db s) \<and> failures (db s') = failures (db s)
    \<and> archive_docs (db s') = archive_docs (db s)"
proof -
  let ?d1 = "add_archive_db (clock N w) a (trim_space owner) (db s)"
  let ?d2 = "update_arch a (\<lambda>r. r\<lparr>r_status := Crawling\<rparr>) ?d1"
  have "archive_exists a ?d2" by (simp add: archive_exists_update archive_exists_add)
  from find_update_arch [OF this, of "\<lambda>r. r\<lparr>r_status := Failed, r_error := e\<rparr>"] obtain r where
    "sql_find r_cid a (archives (update_arch a (\<lambda>r. r\<lparr>r_status := Failed, r_error := e\<rparr>) ?d2))
      = Some (r\<lparr>r_status := Failed, r_error := e\<rparr>)" by auto
  then show ?thesis using assms
    by (simp add: run_job_def process_def indexArchive_def archive_docs_phase_def AddArchive_run
        ArchiveDocCIDs_run MarkArchiveCrawling_def MarkArchiveFailed_def updateArchive_run Let_def)
qed

theorem archive_crawl_error_witness:
  "\<exists>s' r. run_job (page_net\<lparr>bad_url := \<lambda>u. Some ''bad''\<rparr>) small_config (\<lambda>w. []) [] key_disk (JobArchive ''A'' []) () fresh_store
      = Some ((), s') \<and> sql_find r_cid ''A'' (archives (db s')) = Some r \<and> r_error r = ''classify root: bad''"
proof -
  have k: "loadAPIKey [] (cfg_DataDir small_config) key_disk \<noteq> []"
    using key_disk_load by (simp add: small_config_def)
  have c: "Crawl (page_net\<lparr>bad_url := \<lambda>u. Some ''bad''\<rparr>) (crawler_of small_config) ''A'' () = (Inl ''classify root: bad'', ())"
    by code_simp
  have "doc_list ''A'' (db fresh_store) = []" by code_simp
  from archive_crawl_error [OF k c _ this, of "\<lambda>w. []" "[]"] show ?thesis by auto
qed

text \<open>
  Without an API key nothing is fetched and no document changes: an archive job marks
  the archive failed, and a document job is dropped.
\<close>

theorem job_without_key:
  assumes "loadAPIKey getenv (cfg_DataDir cfg) d = []" and "drv s = []"
  shows "run_job N cfg sch getenv d (JobDocs cids) w s = Some (w, s)
    \<and> (\<exists>s'. run_job N cfg sch getenv d (JobArchive a owner) w s = Some (w, s')
      \<and> documents (db s') = documents (db s) \<and> failures (db s') = failures (db s)
      \<and> archive_docs (db s') = archive_docs (db s)
      \<and> (\<forall>r. sql_find r_cid a (archives (db s)) = Some r \<longrightarrow> sql_find r_cid a (archives (db s'))
          = Some (r\<lparr>r_status := Failed, r_error := ''no API key configured for indexing''\<rparr>)))"
  using assms
  by (auto simp: run_job_def process_def MarkArchiveFailed_def updateArchive_run update_arch_def
      sql_find_update dest: sql_find_SomeD)

theorem job_without_key_witness:
  "run_job page_net small_config (\<lambda>w. []) [] (\<lambda>f. None) (JobDocs [''QmDoc'']) () fresh_store = Some ((), fresh_store)"
  using job_without_key [of "[]" small_config "\<lambda>f. None" fresh_store page_net "\<lambda>w. []" "[''QmDoc'']" "()"] by (simp add: loadAPIKey_def)

text \<open>
  Property C15. However the dispatcher and the workers interleave, a finished run of the pool has
  settled each pending document exactly once, in one of the orders \<open>indexPending\<close> ranges over;
  it has taken three steps for each document.
\<close>

theorem pool_settles_each_once:
  assumes "pool_run n (pool_init n pend s) k p" and "pool_final p"
  shows "\<exists>xs ks. pstore p = fold settle_act xs s \<and> map (snd \<circ> snd) xs = completion_order ks pend
    \<and> (\<forall>x \<in> set xs. fits (fst (snd x)) (snd (snd x))) \<and> k = 3 * length pend"
proof -
  have "pool_inv n pend s p" using pool_run_inv [OF assms(1) pool_inv_init] .
  moreover have f: "in_flight p = {#}" "todo p = []" "chan p = []"
    using assms(2) by (auto simp: pool_final_def in_flight_final)
  ultimately obtain xs where xs: "pstore p = fold settle_act xs s"
    "\<forall>x \<in> set xs. fits (fst (snd x)) (snd (snd x))" "mset (map (snd \<circ> snd) xs) = mset pend"
    by (auto simp: pool_inv_def)
  moreover obtain ks where "completion_order ks pend = map (snd \<circ> snd) xs"
    using completion_order_surj [OF xs(3)] by blast
  moreover have "k = 3 * length pend"
    using pool_run_work [OF assms(1)] f unfolding pool_work_init by (simp add: pool_work_def)
  ultimately show ?thesis by (intro exI [of _ xs] exI [of _ ks]) simp
qed

lemma one_worker_run:
  "pool_run 1 (pool_init 1 [''a''] s) 3 \<lparr>todo = [], chan = [], slots = [None], pstore = RecordSkip 9 ''a'' s\<rparr>"
proof -
  let ?p0 = "pool_init 1 [''a''] s"
  let ?p1 = "?p0\<lparr>todo := [], chan := chan ?p0 @ [''a'']\<rparr>"
  let ?p2 = "?p1\<lparr>chan := [], slots := (slots ?p1)[0 := Some ''a'']\<rparr>"
  let ?p3 = "?p2\<lparr>slots := (slots ?p2)[0 := None], pstore := settle 9 OSkip ''a'' (pstore ?p2)\<rparr>"
  have 1: "pool_step 1 ?p0 ?p1" by (rule pool_step.send) (simp_all add: pool_init_def)
  have 2: "pool_step 1 ?p1 ?p2" by (rule pool_step.recv) (simp_all add: pool_init_def)
  have 3: "pool_step 1 ?p2 ?p3" by (rule pool_step.fin) (simp_all add: pool_init_def fits_def)
  have "pool_run 1 ?p0 (Suc (Suc (Suc 0))) ?p3"
    by (rule pool_run.more [OF pool_run.more [OF pool_run.more [OF pool_run.stop 1] 2] 3])
  then show ?thesis by (simp add: pool_init_def numeral_3_eq_3)
qed

theorem pool_settles_each_once_witness:
  "\<exists>xs ks. RecordSkip 9 ''a'' fresh_store = fold settle_act xs fresh_store
    \<and> map (snd \<circ> snd) xs = completion_order ks [''a'']"
  using pool_settles_each_once [OF one_worker_run, of fresh_store] by (auto simp: pool_final_def)

text \<open>
  With at least one worker the pool never deadlocks: from every state a run reaches,
  either everything is settled or a step is possible, and no run exceeds three steps a document.
\<close>

theorem pool_never_stuck:
  assumes "n > 0" and "pool_run n (pool_init n pend s) k p"
  shows "(pool_final p \<or> (\<exists>q. pool_step n p q)) \<and> k \<le> 3 * length pend"
  using pool_progress [OF pool_run_inv [OF assms(2) pool_inv_init] assms(1)] pool_run_work [OF assms(2)]
  unfolding pool_work_init by auto

theorem pool_never_stuck_witness:
  "pool_final (pool_init 1 [''a''] fresh_store) \<or> (\<exists>q. pool_step 1 (pool_init 1 [''a''] fresh_store) q)"
  using pool_never_stuck [of 1 "[''a'']" fresh_store 0 "pool_init 1 [''a''] fresh_store"] pool_run.stop by simp

text \<open>
  Property C31. In every reachable state the queue reports exactly the jobs that have been
  submitted and that the worker has not yet counted, at most 4096 of them wait in the channel, the
  indexing flag is up while a job runs, and when the worker waits with the flag still up, there is
  a job on its way.
\<close>

theorem queue_count_exact:
  assumes "queue_reach sub snt q"
  shows "Queued q = int (length (sending q) + length (jobs q) + (case phase q of Received j \<Rightarrow> 1 | _ \<Rightarrow> 0))
    \<and> length (jobs q) \<le> 4096
    \<and> (\<forall>j. phase q = Running j \<longrightarrow> indexing_active q)
    \<and> (phase q = Blocked \<and> indexing_active q \<longrightarrow> Queued q > 0)"
  using queue_reach_inv [OF assms]
  by (auto simp: queue_inv_def Queued_def job_cap_def busy_def in_hand_def waiting_pos split: phase.splits)

theorem queue_count_exact_witness:
  "Queued (enqueue (JobDocs [''a'']) NewIndexer) = 1"
  using queue_count_exact [OF queue_reach.submit [OF queue_reach.new], of "JobDocs [''a'']"]
  by (simp add: enqueue_def NewIndexer_def)



end
