(* ===== verification/Pipeline_Properties.thy ===== *)
theory Pipeline_Properties
  imports Pipeline
begin

text \<open>
  What the processing pipeline promises: well-formed entries, bounded sizes and waits, retries that
  give up at the right point, and a limiter that holds its bounds.
\<close>

section \<open>Lemmas\<close>

lemma retry_loop_first:
  assumes "effects N [Acquire lmt] w = Some w1" and "call w1 = (Done_With x, w2)" and "effects N rel w2 = Some w3"
  shows "retry_loop N lmt rel call rt tt w = Some (Inr x, w3)"
  using assms by (subst retry_loop.simps) simp

lemma framed_self: "framed v (object_text v)"
  unfolding framed_def by (intro exI [of _ "[]"]) simp

lemma read_limited_fst: "read_limited n r = (dat, e) \<Longrightarrow> 0 \<le> n \<Longrightarrow> int (length dat) \<le> n"
  using read_limited_length [of n r] by simp

lemma parse_retry_unfold:
  "parseRetryAfter resp = retry_header resp [''Retry-After'', ''retry-after'', ''ratelimit-reset'']"
  by (rule parseRetryAfter_def)

lemma isPDF_prefix: "isPDF dat = prefix ''%PDF'' dat"
proof
  assume "isPDF dat"
  then have "dat = ''%PDF'' @ drop 4 dat" using append_take_drop_id [of 4 dat] by (simp add: isPDF_def)
  then show "prefix ''%PDF'' dat" by (rule prefixI)
qed (auto simp: isPDF_def prefix_def)

definition decisive :: "'a attempt list \<Rightarrow> 'a attempt \<Rightarrow> bool" where
  "decisive rs r \<longleftrightarrow> (if transient r then length (filter transient rs) = maxTransientRetries else \<not> retryable r)"

definition final_result :: "'a attempt \<Rightarrow> string + 'a" where
  "final_result r = (case r of Done_With x \<Rightarrow> Inr x | Failed_With cls ra e \<Rightarrow> Inl e)"

lemma scripted_decisive:
  assumes "decisive rs r" and "tt = (if transient r then maxTransientRetries else tt)"
  shows "snd (scripted lmt rel [r] rt tt) = Some (final_result r)"
proof (cases r)
  case (Done_With x)
  then show ?thesis by (simp add: final_result_def)
next
  case (Failed_With cls ra e)
  then show ?thesis using assms
    by (cases cls) (auto simp: decisive_def final_result_def after_failure_def split: if_splits)
qed

section \<open>A pipeline that answers\<close>

definition answer_net :: "unit net" where
  "answer_net = \<lparr>http_do = (\<lambda>w rq. (Inr \<lparr>hr_code = 200, hr_status = ''200 OK'', hr_headers = [],
       hr_body = (if suffix ''/documents/convert'' (rq_url rq)
          then ''{'' @ [quote] @ ''markdown'' @ [quote] @ '':'' @ [quote] @ ''Text'' @ [quote] @ ''}''
          else if suffix ''/chat/completions'' (rq_url rq)
          then ''{'' @ [quote] @ ''choices'' @ [quote] @ '':[{'' @ [quote] @ ''message'' @ [quote] @ '':{''
            @ [quote] @ ''content'' @ [quote] @ '':'' @ [quote] @ ''{'' @ [backslash, quote] @ ''keywords''
            @ [backslash, quote] @ '':['' @ [backslash, quote] @ '' Graph '' @ [backslash, quote] @ '']}''
            @ [quote] @ ''}}]}''
          else ''%PDF-1.4''), hr_broken = None\<rparr>, w)),
     bad_url = (\<lambda>u. None), json_err = (\<lambda>b. ''bad JSON''), clock = (\<lambda>w. 7), eff = (\<lambda>e w. Some w)\<rparr>"

definition answer_pipeline :: pipeline where
  "answer_pipeline = \<lparr>p_APIKey = ''k'', p_APIBase = ''https://llm'', p_Model = ''m'', p_Gateway = ''https://ipfs'',
     p_IPFSAPI = [], p_Temperature = 0, p_ConvertRPS = 1, p_ChatRPS = 4, p_MaxTextLen = 100, p_ConvertTO = 0\<rparr>"

lemma answer_fetch: "fetchFromIPFS answer_net answer_pipeline ''Qm'' () = (Inr (''%PDF-1.4'', True), ())"
  by code_simp

lemma answer_convert: "convertPDF answer_net answer_pipeline ''%PDF-1.4'' () = (Done_With ''Text'', ())"
  by code_simp

lemma answer_extract: "extractKeywords answer_net answer_pipeline ''Text'' ()
    = (Done_With \<lparr>ex_title = [], ex_broad = [], ex_sub = [], ex_keywords = [''graph'']\<rparr>, ())"
  by code_simp

lemma answer_effects: "effects answer_net es () = Some ()"
  by (induction es) (simp_all add: answer_net_def)

lemma answer_process: "Process answer_net answer_pipeline () ''Qm''
    = Some (Entry \<lparr>e_cid = ''Qm'', e_title = [], e_broad = [], e_sub = [], e_keywords = [''graph''],
        e_at = Some 7, e_archives = []\<rparr>, ())"
proof -
  have "convertPDFWithRetry answer_net answer_pipeline ''%PDF-1.4'' () = Some (Inr ''Text'', ())"
    unfolding convertPDFWithRetry_def by (rule retry_loop_first) (rule answer_effects answer_convert)+
  moreover have "extractKeywordsWithRetry answer_net answer_pipeline ''Text'' ()
      = Some (Inr \<lparr>ex_title = [], ex_broad = [], ex_sub = [], ex_keywords = [''graph'']\<rparr>, ())"
    unfolding extractKeywordsWithRetry_def
    by (rule retry_loop_first) (rule answer_effects answer_extract)+
  moreover have "clock answer_net () = 7" by (simp add: answer_net_def)
  ultimately show ?thesis by (simp add: Process_def answer_fetch)
qed

section \<open>Properties\<close>

text \<open>
  Property C20. Whatever the peers answer, an entry that processing a document produces carries the
  CID asked for and the time it was finished, between one and ten keywords, each of them not empty,
  trimmed and in lower case, and a trimmed title, field and topic; processing never reports the
  error of being rate limited.
\<close>

theorem entry_well_formed:
  assumes "Process N p w c = Some (r, w')"
  shows "(\<forall>x. r \<noteq> RateLimited x) \<and> (\<forall>e. r = Entry e \<longrightarrow> e_cid e = c \<and> e_at e = Some (clock N w') \<and> e_archives e = []
    \<and> 1 \<le> length (e_keywords e) \<and> length (e_keywords e) \<le> 10
    \<and> (\<forall>k \<in> set (e_keywords e). k \<noteq> [] \<and> trim_space k = k \<and> to_lower k = k)
    \<and> trim_space (e_title e) = e_title e \<and> trim_space (e_broad e) = e_broad e \<and> trim_space (e_sub e) = e_sub e)"
  using assms
proof (cases rule: Process_cases)
  case (entry e x w1 w2 markdown)
  obtain obj where "finish_extraction N obj = Inr x"
    using extractKeywords_parse [OF entry(9)] parseExtraction_finish by blast
  from finish_extraction_ok [OF this] show ?thesis using entry by auto
qed auto

theorem entry_well_formed_witness:
  "\<exists>e. Process answer_net answer_pipeline () ''Qm'' = Some (Entry e, ()) \<and> length (e_keywords e) \<le> 10"
  using entry_well_formed [OF answer_process] answer_process by simp

text \<open>
  Property C36. What the model writes around its JSON object does not matter: prose, code fences
  and white space before the first brace and after the last one leave the extraction as it is for
  the bare object.
\<close>

theorem extraction_ignores_frame:
  assumes "CHR ''{'' \<notin> set before" and "CHR ''}'' \<notin> set after"
  shows "parseExtraction N (before @ ''{'' @ body @ ''}'' @ after) = parseExtraction N (''{'' @ body @ ''}'')"
proof -
  have "framed body (before @ ''{'' @ body @ ''}'' @ after)"
    unfolding framed_def using assms by (intro exI [of _ before] exI [of _ after]) (simp add: object_text_def)
  moreover have "framed body (''{'' @ body @ ''}'')" using framed_self [of body] by (simp add: object_text_def)
  ultimately show ?thesis by (simp add: framed_extraction del: append.simps append_Cons)
qed

theorem extraction_ignores_frame_witness:
  "parseExtraction answer_net (''Sure: '' @ ''{'' @ [] @ ''}'' @ '' done.'') = parseExtraction answer_net (''{'' @ [] @ ''}'')"
  by (rule extraction_ignores_frame) simp_all

text \<open>
  The back-off after attempt n is two seconds doubled n times, raised to the hint of
  the server and capped at a minute; it never decreases with the attempts.
\<close>

theorem backoff_closed_form:
  "backoffDuration n hint = min (60 * 10 ^ 9) (max (2 * 10 ^ 9 * 2 ^ n) hint)
   \<and> 2 * 10 ^ 9 \<le> backoffDuration n hint \<and> backoffDuration n hint \<le> backoffDuration (n + k) hint"
  using backoffDuration_closed [of n hint] backoffDuration_bounds(1) [of n hint]
    backoffDuration_mono [of n "n + k" hint]
  by (simp add: backoff_consts)

text \<open>
  Property C19. Against any sequence of answers, the retry loop runs through every rate-limited
  answer and at most two transient failures; it ends with the first success, the first failure
  that is not retryable, or the third transient failure, and returns that answer. No wait on the way
  is shorter than two seconds, no sleep longer than a minute and no cooldown longer than a day.
\<close>

theorem retry_policy:
  assumes "logs_effects N" and "answers p = rs @ r # rest" and "list_all retryable rs"
    and "length (filter transient rs) \<le> maxTransientRetries" and "decisive rs r"
    and "list_all effect_ok rel"
  shows "\<exists>p' l. retry_loop N lmt rel (peer_call dflt) 0 0 p = Some (final_result r, p')
    \<and> done_effects p' = done_effects p @ l \<and> list_all effect_ok l"
proof -
  obtain rt where "snd (scripted lmt rel (rs @ [r]) 0 0) = snd (scripted lmt rel [r] rt (length (filter transient rs)))"
    using scripted_skip [OF assms(3), of 0 lmt rel "[r]" 0] assms(4) by auto
  moreover have "length (filter transient rs) = (if transient r then maxTransientRetries else length (filter transient rs))"
    using assms(5) by (simp add: decisive_def)
  ultimately have "snd (scripted lmt rel (rs @ [r]) 0 0) = Some (final_result r)"
    using scripted_decisive [OF assms(5)] by metis
  then obtain l where l: "scripted lmt rel (rs @ [r]) 0 0 = (l, Some (final_result r))" by (metis prod.collapse)
  obtain p' where "retry_loop N lmt rel (peer_call dflt) 0 0 p = Some (final_result r, p')" "done_effects p' = done_effects p @ l"
    using retry_loop_scripted [OF assms(1) l, of p rest dflt] assms(2) by auto
  moreover have "list_all effect_ok l"
    using scripted_effects [OF l] assms(6) by (simp add: list_all_iff)
  ultimately show ?thesis by blast
qed

definition peer_net :: "(string peer) net" where
  "peer_net = \<lparr>http_do = (\<lambda>w rq. (Inl ''unused'', w)), bad_url = (\<lambda>u. None), json_err = (\<lambda>b. []),
     clock = (\<lambda>w. 0), eff = (\<lambda>e p. Some (p\<lparr>done_effects := done_effects p @ [e]\<rparr>))\<rparr>"

theorem retry_policy_witness:
  "\<exists>p'. retry_loop peer_net ConvertLimiter [Release ConvertLimiter] (peer_call (Done_With [])) 0 0
     \<lparr>answers = [Failed_With RetryRateLimit (seconds 5) ''429'', Failed_With RetryTransient 0 ''502'', Done_With ''text''],
      done_effects = []\<rparr> = Some (Inr ''text'', p')"
proof -
  have "logs_effects peer_net" by (simp add: logs_effects_def peer_net_def)
  from retry_policy [OF this, of "\<lparr>answers = [Failed_With RetryRateLimit (seconds 5) ''429'',
        Failed_With RetryTransient 0 ''502'', Done_With ''text''], done_effects = []\<rparr>"
      "[Failed_With RetryRateLimit (seconds 5) ''429'', Failed_With RetryTransient 0 ''502'']" "Done_With ''text''" "[]"
      "[Release ConvertLimiter]" ConvertLimiter "Done_With []"]
  show ?thesis by (auto simp: decisive_def maxTransientRetries_def effect_ok_def final_result_def)
qed

text \<open>
  A wait the server asks for is taken as it is up to 9223372036 seconds and is at
  least one second; a larger number of seconds wraps round, so the result can be negative.
\<close>

theorem retry_after_value:
  "(header_get resp ''Retry-After'' = v \<and> atoi v = Some secs \<and> 0 < secs \<and> secs \<le> 9223372036 \<and> v \<noteq> []
      \<longrightarrow> parseRetryAfter resp = secs * 10 ^ 9)
   \<and> (\<exists>r. header_get r ''Retry-After'' = ''9223372037'' \<and> parseRetryAfter r < 0)"
proof (intro conjI impI)
  assume a: "header_get resp ''Retry-After'' = v \<and> atoi v = Some secs \<and> 0 < secs \<and> secs \<le> 9223372036 \<and> v \<noteq> []"
  then have "wrap64 (secs * 10 ^ 9) = secs * 10 ^ 9" by (intro wrap64_id) simp_all
  then show "parseRetryAfter resp = secs * 10 ^ 9" using a by (simp add: parseRetryAfter_def)
next
  let ?r = "\<lparr>hr_code = 429, hr_status = [], hr_headers = [(''Retry-After'', ''9223372037'')], hr_body = [], hr_broken = None\<rparr>"
  have "header_get ?r ''Retry-After'' = ''9223372037''" "parseRetryAfter ?r < 0" by code_simp+
  then show "\<exists>r. header_get r ''Retry-After'' = ''9223372037'' \<and> parseRetryAfter r < 0" by blast
qed

theorem retry_after_value_witness:
  "parseRetryAfter \<lparr>hr_code = 429, hr_status = [], hr_headers = [(''Retry-After'', ''120'')], hr_body = [], hr_broken = None\<rparr>
     = 120 * 10 ^ 9"
proof -
  let ?r = "\<lparr>hr_code = 429, hr_status = [], hr_headers = [(''Retry-After'', ''120'')], hr_body = [], hr_broken = None\<rparr>"
  have "header_get ?r ''Retry-After'' = ''120''" "atoi ''120'' = Some 120" by code_simp+
  then show ?thesis using retry_after_value [of ?r "''120''" 120] by simp
qed

text \<open>
  Property C37. What is handed on is bounded: a fetched document has at most 20 MB and its PDF flag
  says whether it starts with the magic bytes; the text of a conversion is not empty and has at most
  the configured number of bytes.
\<close>

theorem document_size_bounds:
  "(fetchFromIPFS N p c w = (Inr (dat, pdf), w') \<longrightarrow> length dat \<le> 20971520 \<and> pdf = prefix ''%PDF'' dat)
   \<and> (convertPDF N p dat2 w2 = (Done_With md, w3) \<longrightarrow> md \<noteq> [] \<and> int (length md) \<le> maxText p)"
proof (intro conjI impI)
  assume f: "fetchFromIPFS N p c w = (Inr (dat, pdf), w')"
  note pre = isPDF_prefix
  have "int (length dat) \<le> maxFetchSize"
    using f by (auto simp: fetchFromIPFS_def split: if_splits prod.splits sum.splits option.splits)
  then show "length dat \<le> 20971520" by (simp add: maxFetchSize_def)
  show "pdf = prefix ''%PDF'' dat"
    using f pre by (auto simp: fetchFromIPFS_def split: if_splits prod.splits sum.splits option.splits)
next
  assume c: "convertPDF N p dat2 w2 = (Done_With md, w3)"
  have "maxText p > 0" by (simp add: maxText_def)
  then show "md \<noteq> []" "int (length md) \<le> maxText p"
    using c by (auto simp: convertPDF_def Let_def split: if_splits prod.splits sum.splits option.splits)
qed

theorem document_size_bounds_witness:
  "maxText answer_pipeline \<ge> 4 \<and> prefix ''%PDF'' ''%PDF-1.4''"
  using document_size_bounds [of answer_net answer_pipeline "''Qm''" "()" "''%PDF-1.4''" True "()" "''%PDF-1.4''" "()" "''Text''" "()"]
    answer_fetch answer_convert by simp

text \<open>
  Property C22. However the workers interleave, a concurrency limiter for n lets at most n of them
  be inside at once (one when n is not positive), and no token is lost or invented.
\<close>

theorem limiter_in_flight:
  assumes "gate_run (gate_init (newConcurrencyLimiter n) t k) g"
  shows "int (inside g) \<le> max 1 n \<and> int (tokens (lim g) + inside g) = max 1 n"
proof -
  let ?g = "gate_init (newConcurrencyLimiter n) t k"
  have "gate_inv ?g"
    using inside_init [of "newConcurrencyLimiter n" t k]
    by (simp add: gate_inv_def) (simp add: gate_init_def newConcurrencyLimiter_def Let_def)
  moreover have "int (burst (lim ?g)) = max 1 n"
    by (simp add: gate_init_def newConcurrencyLimiter_def Let_def max_def)
  ultimately show ?thesis using gate_run_inv [OF assms] by (auto simp: gate_inv_def)
qed

theorem limiter_in_flight_witness:
  "int (inside (gate_init (newConcurrencyLimiter 1) 0 4)) \<le> 1"
  using limiter_in_flight [OF gate_run.stop, of 1 0 4] by simp

text \<open>
  The limiter of the chat calls lets through no more calls than its burst plus the
  tokens its ticker has added, in any run of its workers.
\<close>

theorem limiter_rate:
  assumes "counted_run (gate_init (newRateLimiter rps b) t k) calls refills g"
  shows "int calls \<le> max 1 b + int refills"
proof -
  have "\<not> hold (lim (gate_init (newRateLimiter rps b) t k))"
    "int (tokens (lim (gate_init (newRateLimiter rps b) t k))) = max 1 b"
    by (simp_all add: gate_init_def newRateLimiter_def Let_def max_def)
  then show ?thesis using counted_tokens [OF assms] by linarith
qed

theorem limiter_rate_witness:
  "\<exists>g. counted_run (gate_init (newRateLimiter 4 1) 0 1) 1 0 g \<and> int 1 \<le> max 1 1 + int 0"
proof -
  let ?g0 = "gate_init (newRateLimiter 4 1) 0 1"
  let ?g1 = "?g0\<lparr>places := (places ?g0)[0 := Past_Check]\<rparr>"
  let ?g2 = "?g1\<lparr>places := (places ?g1)[0 := Inside], lim := (lim ?g1)\<lparr>tokens := tokens (lim ?g1) - 1\<rparr>\<rparr>"
  note sim = gate_init_def newRateLimiter_def Let_def
  have 1: "gate_step ?g0 ?g1" by (rule gate_step.pass) (simp_all add: sim)
  have 2: "gate_step ?g1 ?g2" by (rule gate_step.take_token) (simp_all add: sim)
  have "counted_run ?g0 1 0 ?g2"
    using counted_run.more [OF counted_run.more [OF counted_run.stop 1] 2] by (simp add: inside_def sim)
  then show ?thesis using limiter_rate by blast
qed



end
