(* ===== verification/Crawl_Properties.thy ===== *)
theory Crawl_Properties
  imports Indexer_Properties
begin

text \<open>
  What the crawler, the directory page and the API key file promise. The crawler is compared with
  the directories and PDFs reachable by the answers of the network (\<open>dir_at\<close>, \<open>pdf_at\<close>).
\<close>

section \<open>Completeness of the walk\<close>

abbreviation "crawl_dir N c root \<equiv> dir_at (enumerateDir N c) (Classify N c) (c_maxDepth c) root"
abbreviation "crawl_pdf N c root \<equiv> pdf_at (enumerateDir N c) (Classify N c) (c_maxDepth c) root"

lemma settled_visits_all:
  assumes K: "answers cls K" and E: "answers enm E"
    and s: "settled_outside enm cls E K maxDepth root {} st" and r: "root \<in> set (wk_visited st)"
  shows "dir_at enm cls maxDepth root n d \<Longrightarrow> n \<in> set (wk_visited st)"
proof (induction rule: dir_at.induct)
  case root
  then show ?case by (rule r)
next
  case (child n d w children w' ch v v')
  have "explored E K maxDepth st n d" using s child by (auto simp: settled_outside_def)
  moreover have "E n = Inr children" using E child(2) by (metis answers_def fst_conv)
  ultimately have "handled K maxDepth d st ch" using child(3) by (simp add: explored_def)
  moreover have "kind_of K ch = Inr KindDir" using child_kind_fst [OF K] child(4) by (metis fst_conv)
  ultimately show ?case using child(5) by (simp add: handled_def)
qed

lemma settled_finds_all:
  assumes "answers cls K" and "answers enm E"
    and "settled_outside enm cls E K maxDepth root {} st" and "root \<in> set (wk_visited st)"
    and "pdf_at enm cls maxDepth root x"
  shows "x \<in> set (wk_order st) \<union> set (wk_visited st)"
proof -
  from assms(5) obtain n d w children w' ch v v' where p: "dir_at enm cls maxDepth root n d"
    "enm n w = (Inr children, w')" "ch \<in> set children" "child_kind cls ch v = (Inr KindPDF, v')" "ch_cid ch = x"
    by (auto simp: pdf_at_def)
  have "n \<in> set (wk_visited st)" using settled_visits_all [OF assms(1-4) p(1)] .
  then have "explored E K maxDepth st n d" using assms(3) p(1) by (auto simp: settled_outside_def)
  moreover have "E n = Inr children" using assms(2) p(2) by (metis answers_def fst_conv)
  ultimately have "handled K maxDepth d st ch" using p(3) by (simp add: explored_def)
  moreover have "kind_of K ch = Inr KindPDF" using child_kind_fst [OF assms(1)] p(4) by (metis fst_conv)
  ultimately show ?thesis using p(5) by (simp add: handled_def)
qed

section \<open>Two small networks\<close>

lemma page_links: "html_links listing_page = [(''QmPaper'', ''a.pdf'')]"
  by code_simp

lemma page_dag: "enumerateDagJSON page_net (crawler_of small_config) n w
    = (Inl (''unexpected content-type '' @ [quote] @ ''text/html'' @ [quote]), w)"
proof -
  have "canonical_from True ''Content-Type'' = ''Content-Type''" "\<not> contains ''text/html'' ''json''" by code_simp+
  then show ?thesis
    by (simp add: enumerateDagJSON_def send_request_def page_net_def header_get_def get_request_def)
qed

lemma page_html: "enumerateHTML page_net (crawler_of small_config) n w = (Inr (html_children n [] [(''QmPaper'', ''a.pdf'')]), w)"
proof -
  have "int (length listing_page) < maxFetchSize" by code_simp
  then show ?thesis
    by (simp add: enumerateHTML_def send_request_def page_net_def get_request_def read_limited_def page_links)
qed

lemma page_name: "query_unescape ''a.pdf'' = Some ''a.pdf''"
  by code_simp

lemma page_enumerate:
  "enumerateDir page_net (crawler_of small_config) n w = (Inr (html_children n [] [(''QmPaper'', ''a.pdf'')]), w)"
  by (simp add: enumerateDir_def page_dag page_html) (simp add: crawler_of_def newCrawler_def small_config_def trim_right_slash_def trim_right_by_def)

text \<open>Directories \<open>R\<close> with \<open>A\<close> and \<open>B\<close>, \<open>A\<close> with \<open>B\<close>, \<open>B\<close> with \<open>C\<close>, and \<open>C\<close> with one PDF.\<close>

definition anchor :: "string \<Rightarrow> string \<Rightarrow> string" where
  "anchor c name = ''<a href='' @ [quote] @ ''/ipfs/'' @ c @ ''?filename='' @ name @ [quote] @ ''>''"

definition gap_net :: "unit net" where
  "gap_net = \<lparr>http_do = (\<lambda>w rq. (Inr \<lparr>hr_code = 200, hr_status = ''200 OK'', hr_headers = [(''Content-Type'', ''text/html'')],
       hr_body = (if suffix ''/ipfs/R/'' (rq_url rq) then anchor ''A'' ''a'' @ anchor ''B'' ''b''
         else if suffix ''/ipfs/A/'' (rq_url rq) then anchor ''B'' ''b''
         else if suffix ''/ipfs/B/'' (rq_url rq) then anchor ''C'' ''c''
         else if suffix ''/ipfs/C/'' (rq_url rq) then anchor ''P'' ''p.pdf'' else []), hr_broken = None\<rparr>, w)),
     bad_url = (\<lambda>u. None), json_err = (\<lambda>b. ''bad JSON''), clock = (\<lambda>w. 7), eff = (\<lambda>e w. Some w)\<rparr>"

definition gap_crawler :: crawler where
  "gap_crawler = newCrawler ''g'' [] 3 10"

lemma gap_lists:
  "enumerateDir gap_net gap_crawler ''R'' () = (Inr [\<lparr>ch_name = ''a'', ch_cid = ''A''\<rparr>, \<lparr>ch_name = ''b'', ch_cid = ''B''\<rparr>], ())"
  "enumerateDir gap_net gap_crawler ''B'' () = (Inr [\<lparr>ch_name = ''c'', ch_cid = ''C''\<rparr>], ())"
  "enumerateDir gap_net gap_crawler ''C'' () = (Inr [\<lparr>ch_name = ''p.pdf'', ch_cid = ''P''\<rparr>], ())"
  by code_simp+

lemma gap_kinds:
  "child_kind (Classify gap_net gap_crawler) \<lparr>ch_name = ''b'', ch_cid = ''B''\<rparr> () = (Inr KindDir, ())"
  "child_kind (Classify gap_net gap_crawler) \<lparr>ch_name = ''c'', ch_cid = ''C''\<rparr> () = (Inr KindDir, ())"
  "child_kind (Classify gap_net gap_crawler) \<lparr>ch_name = ''p.pdf'', ch_cid = ''P''\<rparr> () = (Inr KindPDF, ())"
  by code_simp+

lemma gap_crawl: "Crawl gap_net gap_crawler ''R'' () = (Inr [], ())"
  by code_simp

lemma gap_depth [simp]: "c_maxDepth gap_crawler = 3" "c_maxDocs gap_crawler = 10"
  by (simp_all add: gap_crawler_def newCrawler_def)

lemma dir_child:
  "dir_at enm cls maxDepth root n d \<Longrightarrow> enm n w = (Inr children, w') \<Longrightarrow>
     child_kind cls \<lparr>ch_name = nm, ch_cid = c\<rparr> v = (Inr KindDir, v') \<Longrightarrow>
     \<lparr>ch_name = nm, ch_cid = c\<rparr> \<in> set children \<Longrightarrow> d + 1 < maxDepth \<Longrightarrow> dir_at enm cls maxDepth root c (d + 1)"
  using dir_at.child [of enm cls maxDepth root n d w children w' "\<lparr>ch_name = nm, ch_cid = c\<rparr>"] by simp

lemma gap_pdf: "crawl_pdf gap_net gap_crawler ''R'' ''P''"
proof -
  have "crawl_dir gap_net gap_crawler ''R'' ''B'' (0 + 1)"
    using dir_child [where enm = "enumerateDir gap_net gap_crawler" and cls = "Classify gap_net gap_crawler",
        OF dir_at.root gap_lists(1) gap_kinds(1)] by simp
  from dir_child [where enm = "enumerateDir gap_net gap_crawler" and cls = "Classify gap_net gap_crawler",
        OF this gap_lists(2) gap_kinds(2)] have "crawl_dir gap_net gap_crawler ''R'' ''C'' 2" by simp
  then show ?thesis using gap_lists(3) gap_kinds(3) unfolding pdf_at_def by fastforce
qed

section \<open>A crawl as a walk\<close>

lemma Crawl_within:
  assumes "walk (enumerateDir N c) (Classify N c) (c_maxDepth c) (c_maxDocs c) root 0 empty_walk w1 = (st, w')"
  shows "set (wk_visited st) \<subseteq> {n. \<exists>d. crawl_dir N c root n d}" "set (wk_order st) \<subseteq> {x. crawl_pdf N c root x}"
  using walk_sound(1) [OF dir_at.root [of "enumerateDir N c" "Classify N c" "c_maxDepth c" root],
      of empty_walk "c_maxDocs c" w1] assms
  by (simp_all add: within_def empty_walk_def)

section \<open>Directory links\<close>

lemma path_unescape_append: "path_unescape (path_escape s @ t) = map_option (append s) (path_unescape t)"
proof (induction s)
  case (Cons c s)
  then show ?case
    using unreserved_plain [of c] percent_unescape [of False c "path_escape s @ t"]
    by (cases "path_unescape t") (auto simp: path_escape_def)
qed (cases "path_unescape t"; simp add: path_escape_def)

lemma path_unescape_join:
  "path_unescape (join ''/'' (map path_escape segs) @ t) = map_option (append (join ''/'' segs)) (path_unescape t)"
proof (induction "''/''" segs rule: join.induct)
  case 1
  then show ?case by (cases "path_unescape t") simp_all
next
  case (2 x)
  then show ?case by (simp add: path_unescape_append)
next
  case (3 x y zs)
  then show ?case by (cases "path_unescape t") (simp_all add: path_unescape_append)
qed

section \<open>Properties\<close>

text \<open>
  Property C17. A crawl that succeeds returns different documents, no more than the limit, each of
  them listed as a PDF in a directory that is reachable from the archive within the depth limit.
\<close>

theorem crawl_sound:
  assumes "Crawl N c root w = (Inr found, w')" and "c_maxDocs c \<ge> 0"
  shows "distinct found \<and> int (length found) \<le> c_maxDocs c \<and> (\<forall>x \<in> set found. crawl_pdf N c root x)"
proof -
  obtain st w1 where st: "walk (enumerateDir N c) (Classify N c) (c_maxDepth c) (c_maxDocs c) root 0 empty_walk w1 = (st, w')"
    "found = wk_order st" using Crawl_walk [OF assms(1)] by blast
  show ?thesis using Crawl_limits [OF assms] Crawl_within(2) [OF st(1)] st(2) by blast
qed

theorem crawl_sound_witness:
  "crawl_pdf page_net (crawler_of small_config) ''QmRoot'' ''QmPaper''"
  using crawl_sound [OF page_crawl [of "()"]] crawler_of_limits(1) [of small_config] by simp

text \<open>
  Property C18. When the answers of the network do not change, no directory is reachable at two
  depths and the limit on documents is not hit, a crawl finds every PDF reachable within the depth
  limit (other than one that is itself walked as a directory).
\<close>

theorem crawl_complete:
  assumes "Crawl N c root w = (Inr found, w')" and "int (length found) < c_maxDocs c"
    and "answers (enumerateDir N c) E" and "answers (Classify N c) K"
    and "one_depth (enumerateDir N c) (Classify N c) (c_maxDepth c) root"
    and "crawl_pdf N c root x" and "\<forall>d. \<not> crawl_dir N c root x d"
  shows "x \<in> set found"
proof -
  obtain st w1 where st: "walk (enumerateDir N c) (Classify N c) (c_maxDepth c) (c_maxDocs c) root 0 empty_walk w1 = (st, w')"
    "found = wk_order st" using Crawl_walk [OF assms(1)] by blast
  have "settled_outside (enumerateDir N c) (Classify N c) E K (c_maxDepth c) root {} empty_walk"
    by (simp add: settled_outside_def empty_walk_def)
  from walk_complete(1) [OF assms(3-5) dir_at.root this, of "c_maxDocs c" w1] st assms(2)
  have "settled_outside (enumerateDir N c) (Classify N c) E K (c_maxDepth c) root {} st" "root \<in> set (wk_visited st)"
    by simp_all
  from settled_finds_all [OF assms(4,3) this assms(6)] have "x \<in> set found \<union> set (wk_visited st)" using st(2) by simp
  moreover have "set (wk_visited st) \<subseteq> {n. \<exists>d. crawl_dir N c root n d}"
    by (rule Crawl_within(1) [OF st(1)])
  ultimately show ?thesis using assms(7) by blast
qed

theorem crawl_complete_witness: "''QmPaper'' \<in> set [''QmPaper'']"
proof (rule crawl_complete [OF page_crawl [of "()"]])
  let ?enm = "enumerateDir page_net (crawler_of small_config)" and ?cls = "Classify page_net (crawler_of small_config)"
  have nodir: "n = ''QmRoot'' \<and> d = 0" if "crawl_dir page_net (crawler_of small_config) ''QmRoot'' n d" for n d
    using that
  proof (induction rule: dir_at.induct)
    case (child n d w children w' ch v v')
    then have "ch = \<lparr>ch_name = ''a.pdf'', ch_cid = ''QmPaper''\<rparr>"
      using child(2,3) page_enumerate [of n w] page_name by (auto split: if_splits)
    moreover have "classifyByName ''a.pdf'' = KindPDF" by code_simp
    ultimately show ?case using child(4) by (simp add: child_kind_def Let_def)
  qed simp
  show "one_depth ?enm ?cls (c_maxDepth (crawler_of small_config)) ''QmRoot''"
    unfolding one_depth_def using nodir by blast
  show "\<forall>d. \<not> crawl_dir page_net (crawler_of small_config) ''QmRoot'' ''QmPaper'' d" using nodir by auto
  show "answers ?enm (\<lambda>x. fst (?enm x ()))" "answers ?cls (\<lambda>x. fst (?cls x ()))" by (simp_all add: answers_def)
  show "crawl_pdf page_net (crawler_of small_config) ''QmRoot'' ''QmPaper''"
  proof -
    have "?enm ''QmRoot'' () = (Inr [\<lparr>ch_name = ''a.pdf'', ch_cid = ''QmPaper''\<rparr>], ())"
      unfolding page_enumerate by code_simp
    moreover have "child_kind ?cls \<lparr>ch_name = ''a.pdf'', ch_cid = ''QmPaper''\<rparr> () = (Inr KindPDF, ())" by code_simp
    ultimately show ?thesis unfolding pdf_at_def using dir_at.root by fastforce
  qed
qed (simp add: small_config_def crawler_of_def newCrawler_def)


text \<open>
  Property C39. In the directory page, the link of an entry stands for the path of the directory
  followed by the name, whatever bytes they hold, and neither the link nor the text shown can close
  the attribute or the element around it.
\<close>

theorem directory_links:
  "path_unescape (ipfsPathHref base name) =
     Some (''/ipfs/'' @ join ''/'' (filter (\<lambda>seg. seg \<noteq> []) (split_byte (CHR ''/'') base) @ [name]))
   \<and> set (ipfsPathHref base name) \<inter> {CHR ''<'', CHR ''>'', quote} = {}
   \<and> set (html_escape name) \<inter> {CHR ''<'', CHR ''>'', quote} = {}
   \<and> writeKuboDir base links = ''<!DOCTYPE html><html><body><ul>''
      @ concat (map (\<lambda>l. ''<li><a href='' @ [quote] @ ipfsPathHref (trim_by (\<lambda>c. c = CHR ''/'') base) (Name l)
          @ [quote] @ ''>'' @ html_escape (Name l) @ ''</a></li>'') (filter listed links))
      @ ''</ul></body></html>''"
proof (intro conjI)
  let ?segs = "filter (\<lambda>seg. seg \<noteq> []) (split_byte (CHR ''/'') base)"
  have pre: "path_unescape (''/ipfs/'' @ t) = map_option (append ''/ipfs/'') (path_unescape t)" for t
    by (cases "path_unescape t") simp_all
  have join_snoc: "xs \<noteq> [] \<Longrightarrow> join ''/'' (xs @ [y]) = join ''/'' xs @ ''/'' @ y" for xs y
    by (induction "''/''" xs rule: join.induct) simp_all
  have "path_unescape (path_escape name) = Some name" by simp
  then show "path_unescape (ipfsPathHref base name) = Some (''/ipfs/'' @ join ''/'' (?segs @ [name]))"
    unfolding ipfsPathHref_def Let_def pre path_unescape_join
    by (cases "?segs = []") (simp_all add: join_snoc)
  show "set (ipfsPathHref base name) \<inter> {CHR ''<'', CHR ''>'', quote} = {}"
    by (auto dest!: href_chars) (auto simp: href_char_def is_alnum_def is_digit_def is_upper_def is_lower_def char_in_def quote_def)
  show "set (html_escape name) \<inter> {CHR ''<'', CHR ''>'', quote} = {}"
    by (auto dest!: html_escape_chars simp: quote_def)
  show "writeKuboDir base links = ''<!DOCTYPE html><html><body><ul>''
      @ concat (map (\<lambda>l. ''<li><a href='' @ [quote] @ ipfsPathHref (trim_by (\<lambda>c. c = CHR ''/'') base) (Name l)
          @ [quote] @ ''>'' @ html_escape (Name l) @ ''</a></li>'') (filter listed links))
      @ ''</ul></body></html>''"
    by (simp only: writeKuboDir_def dir_item_def [abs_def])
qed

end
