(* ===== verification/Sessions.thy ===== *)
theory Sessions
  imports Go_Net
begin

text \<open>
  The admin sessions of \<open>src/server.go\<close>: tokens with an expiry time, in memory. A token is the
  hexadecimal form of 32 random bytes; what the random source returns is an argument.
\<close>

section \<open>Operations\<close>

type_synonym sessionStore = "string \<Rightarrow> int option"

definition sessionTTL :: nanos where
  "sessionTTL = seconds (12 * 60 * 60)"

definition newSessionStore :: sessionStore where
  "newSessionStore = (\<lambda>tok. None)"

definition hex_encode :: "string \<Rightarrow> string" where
  "hex_encode b = concat (map (\<lambda>c. [low_hex (of_char c div 16), low_hex (of_char c mod 16)]) b)"

definition create :: "string + string \<Rightarrow> int \<Rightarrow> sessionStore \<Rightarrow> (string + string) \<times> sessionStore" where
  "create rnd now ss =
     (case rnd of
        Inl e \<Rightarrow> (Inl e, ss)
      | Inr b \<Rightarrow> (let tok = hex_encode b in (Inr tok, ss(tok \<mapsto> now + sessionTTL))))"

definition valid :: "int \<Rightarrow> string \<Rightarrow> sessionStore \<Rightarrow> bool \<times> sessionStore" where
  "valid now tok ss =
     (if tok = [] then (False, ss)
      else (case ss tok of
          None \<Rightarrow> (False, ss)
        | Some exp \<Rightarrow> if now > exp then (False, ss(tok := None)) else (True, ss)))"

definition destroy :: "string \<Rightarrow> sessionStore \<Rightarrow> sessionStore" where
  "destroy tok ss = ss(tok := None)"

definition retain :: "string \<Rightarrow> sessionStore \<Rightarrow> sessionStore" where
  "retain tok ss = (case ss tok of None \<Rightarrow> (\<lambda>t. None) | Some exp \<Rightarrow> [tok \<mapsto> exp])"

text \<open>The cookie of the request, if it has one.\<close>

definition authed :: "int \<Rightarrow> string option \<Rightarrow> sessionStore \<Rightarrow> bool \<times> sessionStore" where
  "authed now cookie ss = (case cookie of None \<Rightarrow> (False, ss) | Some tok \<Rightarrow> valid now tok ss)"

section \<open>Lemmas\<close>

lemma low_hex_inj: "m < 16 \<Longrightarrow> n < 16 \<Longrightarrow> low_hex m = low_hex n \<Longrightarrow> m = n"
  by (auto simp: low_hex_def of_char_eq_iff [symmetric] take_bit_nat_eq_self split: if_splits
      dest!: arg_cong [where f = "of_char :: char \<Rightarrow> nat"])

lemma hex_encode_length: "length (hex_encode b) = 2 * length b"
  by (induction b) (simp_all add: hex_encode_def)

lemma valid_dom: "dom (snd (valid now tok ss)) \<subseteq> dom ss"
  by (auto simp: valid_def split: option.splits if_splits)

lemma authed_dom: "dom (snd (authed now ck ss)) \<subseteq> dom ss"
  using valid_dom by (auto simp: authed_def split: option.splits)

lemma valid_iff: "fst (valid now tok ss) \<longleftrightarrow> tok \<noteq> [] \<and> (\<exists>exp. ss tok = Some exp \<and> now \<le> exp)"
  by (auto simp: valid_def split: option.splits)

lemma authed_iff:
  "fst (authed now ck ss) \<longleftrightarrow> (\<exists>tok exp. ck = Some tok \<and> tok \<noteq> [] \<and> ss tok = Some exp \<and> now \<le> exp)"
  by (auto simp: authed_def valid_iff split: option.splits)

lemma retain_dom: "dom (retain tok ss) \<subseteq> {tok} \<inter> dom ss"
  by (auto simp: retain_def split: option.splits if_splits)

end
