(* ===== verification/Web.thy ===== *)
theory Web
  imports Prelude
begin

text \<open>
  The pages of \<open>src/web.go\<close>: the embedded files are read and parsed once, at the first page that
  is asked for, and each page is rendered from its parsed template with the gateway for its links.
  The files, the parser and what a template writes are parameters: \<open>text/template\<close> is not part
  of the program.
\<close>

type_synonym template = "string \<Rightarrow> string + string"

record web =
  webOnce :: bool
  webTmpl :: "string \<Rightarrow> template option"

definition fresh_web :: web where
  "fresh_web = \<lparr>webOnce = False, webTmpl = (\<lambda>page. None)\<rparr>"

definition load_page ::
  "(string \<Rightarrow> string + string) \<Rightarrow> (string \<Rightarrow> string \<Rightarrow> string + template) \<Rightarrow> string
     \<Rightarrow> (string \<Rightarrow> template option) \<Rightarrow> (string \<Rightarrow> template option)" where
  "load_page readFile parse page tmpl =
     (case readFile (''web/'' @ page @ ''.html'') of
        Inl e \<Rightarrow> tmpl
      | Inr dat \<Rightarrow> (case parse page dat of Inl e \<Rightarrow> tmpl | Inr t \<Rightarrow> tmpl(page \<mapsto> t)))"

definition load_pages ::
  "(string \<Rightarrow> string + string) \<Rightarrow> (string \<Rightarrow> string \<Rightarrow> string + template) \<Rightarrow> web \<Rightarrow> web" where
  "load_pages readFile parse w =
     (if webOnce w then w
      else \<lparr>webOnce = True, webTmpl = fold (load_page readFile parse) [''dashboard'', ''admin''] (webTmpl w)\<rparr>)"

definition renderPage ::
  "(string \<Rightarrow> string + string) \<Rightarrow> (string \<Rightarrow> string \<Rightarrow> string + template)
     \<Rightarrow> string \<Rightarrow> string \<Rightarrow> web \<Rightarrow> string \<times> web" where
  "renderPage readFile parse name gateway w =
     (let w = load_pages readFile parse w in
      (case webTmpl w name of
         None \<Rightarrow> ''<!DOCTYPE html><html><body><p>page not found</p></body></html>''
       | Some t \<Rightarrow>
           (case t gateway of
              Inl e \<Rightarrow> ''<!DOCTYPE html><html><body><p>render error</p></body></html>''
            | Inr out \<Rightarrow> out), w))"

text \<open>Rendering a page a second time, whatever was rendered in between, gives the same page.\<close>

lemma load_pages_idem [simp]: "load_pages fs parse (load_pages fs parse w) = load_pages fs parse w"
  by (simp add: load_pages_def)

lemma renderPage_loads [simp]: "snd (renderPage fs parse n g w) = load_pages fs parse w"
  by (simp add: renderPage_def Let_def)

lemma renderPage_stable:
  "fst (renderPage fs parse n g (snd (renderPage fs parse n' g' w))) = fst (renderPage fs parse n g w)"
  by (simp add: renderPage_def Let_def)

end
