(* ===== verification/Server.thy ===== *)
theory Server
  imports Service Sessions Web
begin

text \<open>
  The HTTP server of \<open>src/server.go\<close> and the start of \<open>src/main.go\<close>: each handler as a
  function of a request and the state of the process. \<open>'w service\<close> holds what is fixed or lies
  outside: the network, the configuration, the environment variable, FTS5, the operating system, the
  random source, the embedded files and the template parser, content sniffing and the reverse proxy of the standard library.
  A reply lists the values its JSON object carries. Handlers run one at a time here; the number of
  queued jobs a reply reports is the one right after its own job was submitted.
\<close>

section \<open>Numbers in a query string\<close>

definition defaultSearchLimit :: int where "defaultSearchLimit = 20"
definition maxSearchLimit :: int where "maxSearchLimit = 100"

definition parseIntDefault :: "string \<Rightarrow> int \<Rightarrow> int" where
  "parseIntDefault s def = (if s = [] then def else (case atoi s of None \<Rightarrow> def | Some n \<Rightarrow> n))"

definition clampInt :: "int \<Rightarrow> int \<Rightarrow> int \<Rightarrow> int" where
  "clampInt n lo hi = (if n < lo then lo else if n > hi then hi else n)"

section \<open>Requests, replies and the state\<close>

record request =
  in_method :: string
  in_path :: string
  in_query :: "string \<Rightarrow> string"
  in_form :: "string \<Rightarrow> string"
  in_cookie :: "string option"

type_synonym searchResult = "index_entry \<times> archive_ref list"

datatype reply =
    JSON_Error int string
  | HTTP_Error int string
  | Not_Found
  | Redirect string
  | Html string
  | Head_OK
  | File_Reply string string
  | Proxied int string
  | Search_Empty
  | Search_Reply string "searchResult list" int int int
  | Suggest_Reply "suggestion list"
  | Recent_Reply "recent_search list"
  | Stats_Reply store_stats string string
  | No_Key_Reply
  | Review_Reply sub_kind cid
  | Submit_Reply sub_kind cid int
  | Failures_Reply "failed_doc list" int
  | Retry_Reply cid int
  | Archives_Reply "archive list" int
  | Archive_Search_Reply string "archive list" int
  | Archive_Reply archive "index_entry list" "failed_doc list"
  | Login_Reply string
  | Logout_Reply
  | Session_Reply bool bool
  | Submissions_Reply "submission list" int bool
  | Key_Updated
  | Review_Mode_Reply bool
  | Approved_Reply cid sub_kind int
  | Denied_Reply cid
  | Removed_Reply string cid

record 'w service =
  sv_net :: "'w net"
  sv_cfg :: config
  sv_getenv :: string
  sv_fts :: fts_engine
  sv_os :: os
  sv_random :: "'w \<Rightarrow> string + string"
  sv_webfs :: "string \<Rightarrow> string + string"
  sv_parse :: "string \<Rightarrow> string \<Rightarrow> string + template"
  sv_detect :: "string \<Rightarrow> string"
  sv_gateway_ok :: "string \<Rightarrow> bool"
  sv_forward :: "string \<Rightarrow> request \<Rightarrow> 'w \<Rightarrow> (string + int \<times> string) \<times> 'w"

record 'w server =
  ss_store :: store
  ss_queue :: job_queue
  ss_sessions :: sessionStore
  ss_disk :: disk
  ss_web :: web
  ss_world :: 'w

abbreviation server_now :: "'w service \<Rightarrow> 'w server \<Rightarrow> int" where
  "server_now S s \<equiv> clock (sv_net S) (ss_world s)"

abbreviation server_key :: "'w service \<Rightarrow> 'w server \<Rightarrow> string" where
  "server_key S s \<equiv> loadAPIKey (sv_getenv S) (cfg_DataDir (sv_cfg S)) (ss_disk s)"

type_synonym 'w handler = "'w service \<Rightarrow> request \<Rightarrow> 'w server \<Rightarrow> reply \<times> 'w server"

definition not_post :: "request \<Rightarrow> bool" where
  "not_post r \<longleftrightarrow> in_method r \<noteq> ''POST''"

definition not_allowed :: reply where
  "not_allowed = JSON_Error 405 ''method not allowed''"

definition requireAdmin :: "'w handler \<Rightarrow> 'w handler" where
  "requireAdmin h S r s =
     (let (ok, ss) = authed (server_now S s) (in_cookie r) (ss_sessions s);
          s1 = s\<lparr>ss_sessions := ss\<rparr>
      in if \<not> ok then (JSON_Error 401 ''unauthorized'', s1) else h S r s1)"

text \<open>\<open>ix.EnqueueArchive\<close> and \<open>ix.EnqueueDocs\<close> on the state of the process.\<close>

definition enqueue_archive :: "'w service \<Rightarrow> cid \<Rightarrow> string \<Rightarrow> 'w server \<Rightarrow> 'w server" where
  "enqueue_archive S c owner s =
     (case EnqueueArchive (server_now S s) c owner (ss_store s, ss_queue s) of
        (st, q) \<Rightarrow> s\<lparr>ss_store := st, ss_queue := q\<rparr>)"

definition enqueue_docs :: "cid list \<Rightarrow> 'w server \<Rightarrow> 'w server" where
  "enqueue_docs cids s = s\<lparr>ss_queue := EnqueueDocs cids (ss_queue s)\<rparr>"

section \<open>The /ipfs links\<close>

definition gatewayProxy :: "string \<Rightarrow> 'w handler" where
  "gatewayProxy gateway S r s =
     (let target = trim_right_slash gateway in
      if \<not> sv_gateway_ok S target then (HTTP_Error 502 ''gateway proxy is not configured'', s)
      else (case sv_forward S target r (ss_world s) of
          (Inl e, w) \<Rightarrow> (HTTP_Error 502 ''gateway unavailable'', s\<lparr>ss_world := w\<rparr>)
        | (Inr (code, body), w) \<Rightarrow> (Proxied code body, s\<lparr>ss_world := w\<rparr>)))"

definition ipfs_path :: "string \<Rightarrow> string" where
  "ipfs_path path = trim_by (\<lambda>c. c = CHR ''/'') (trim_prefix path ''/ipfs/'')"

definition indexedIPFSRoot :: "string \<Rightarrow> string option" where
  "indexedIPFSRoot path =
     (let p = ipfs_path path in
      if p = [] \<or> contains p ''..'' then None
      else (let root = (case index_byte p (CHR ''/'') of None \<Rightarrow> p | Some i \<Rightarrow> take i p) in
        if length root < 10 \<or> length root > 128 then None
        else if list_all is_alnum root then Some root else None))"

definition get_or_head :: "request \<Rightarrow> bool" where
  "get_or_head r \<longleftrightarrow> in_method r = ''GET'' \<or> in_method r = ''HEAD''"

definition indexedIPFS :: "'w handler \<Rightarrow> 'w handler" where
  "indexedIPFS nxt S r s =
     (if \<not> get_or_head r then (HTTP_Error 405 ''method not allowed'', s)
      else (case indexedIPFSRoot (in_path r) of
          None \<Rightarrow> (Not_Found, s)
        | Some root \<Rightarrow>
            (case IndexedCID root (ss_store s) of (known, st) \<Rightarrow>
               if \<not> known then (Not_Found, s\<lparr>ss_store := st\<rparr>) else nxt S r (s\<lparr>ss_store := st\<rparr>))))"

definition ipfsAPIProxy :: "string \<Rightarrow> 'w handler" where
  "ipfsAPIProxy api S r s =
     (let p = ipfs_path (in_path r); N = sv_net S in
      if \<not> get_or_head r then (HTTP_Error 405 ''method not allowed'', s)
      else if p = [] \<or> contains p ''..'' then (HTTP_Error 400 ''missing cid'', s)
      else if in_method r = ''HEAD'' then (Head_OK, s)
      else (case kuboCatStream N api p 0 (seconds (10 * 60)) (ss_world s) of
          (Inl e, w1) \<Rightarrow>
            if kuboIsDir (Some e) then
              (case kuboLS N api p enumTimeout w1 of
                 (Inl le, w2) \<Rightarrow> (HTTP_Error 502 le, s\<lparr>ss_world := w2\<rparr>)
               | (Inr links, w2) \<Rightarrow> (Html (writeKuboDir p links), s\<lparr>ss_world := w2\<rparr>))
            else (HTTP_Error 502 ''ipfs api unavailable'', s\<lparr>ss_world := w1\<rparr>)
        | (Inr rc, w1) \<Rightarrow>
            (File_Reply (sv_detect S (take 512 (hr_body rc))) (hr_body rc), s\<lparr>ss_world := w1\<rparr>)))"

section \<open>Pages and searching\<close>

definition h_page :: "string \<Rightarrow> 'w handler" where
  "h_page name S r s =
     (case renderPage (sv_webfs S) (sv_parse S) name (linkGateway (sv_cfg S)) (ss_web s) of
        (html, w) \<Rightarrow> (Html html, s\<lparr>ss_web := w\<rparr>))"

fun enrich :: "index_entry list \<Rightarrow> store \<Rightarrow> searchResult list \<times> store" where
  "enrich [] st = ([], st)"
| "enrich (e # es) st =
     (let (refs, st1) = ArchiveRefs (e_archives e) st; (rest, st2) = enrich es st1
      in ((e, refs) # rest, st2))"

definition h_search :: "'w handler" where
  "h_search S r s =
     (let query = trim_space (in_query r ''q'') in
      if query = [] then (Search_Empty, s)
      else (let offset = clampInt (parseIntDefault (in_query r ''offset'') 0) 0 (2 ^ 30);
                limit = clampInt (parseIntDefault (in_query r ''limit'') defaultSearchLimit) 1 maxSearchLimit;
                ((results, total), st1) = SearchPage (sv_fts S) query offset limit (ss_store s);
                st2 = (if offset = 0 then RecordSearch (server_now S s div 10 ^ 9) query total st1 else st1);
                (enriched, st3) = enrich results st2
            in (Search_Reply query enriched total offset limit, s\<lparr>ss_store := st3\<rparr>)))"

definition h_suggest :: "'w handler" where
  "h_suggest S r s =
     (let (out, st) = Suggest (trim_space (in_query r ''q'')) (ss_store s)
      in (Suggest_Reply out, s\<lparr>ss_store := st\<rparr>))"

definition h_recent :: "'w handler" where
  "h_recent S r s = (Recent_Reply (GetRecentSearches (ss_store s)), s)"

definition h_stats :: "'w handler" where
  "h_stats S r s =
     (let (stats, st) = Stats (ss_store s)
      in (Stats_Reply (stats\<lparr>st_indexing := indexing_active (ss_queue s), st_queued := Job_Queue.Queued (ss_queue s)\<rparr>)
            (cfg_Model (sv_cfg S)) (cfg_APIBase (sv_cfg S)), s\<lparr>ss_store := st\<rparr>))"

section \<open>Submitting and retrying\<close>

definition h_submit :: "'w handler" where
  "h_submit S r s =
     (let c = trim_space (in_form r ''cid''); owner = trim_space (in_form r ''owner'') in
      if not_post r then (not_allowed, s)
      else if c = [] then (JSON_Error 400 ''missing cid'', s)
      else (case IsDenied c (ss_store s) of (denied, st) \<Rightarrow>
        let s1 = s\<lparr>ss_store := st\<rparr> in
        if denied then (JSON_Error 403 ''this CID has been denylisted by an administrator'', s1)
        else if server_key S s1 = [] then (No_Key_Reply, s1)
        else (case Classify (sv_net S) (crawler_of (sv_cfg S)) c (ss_world s1) of
            (Inl e, w) \<Rightarrow> (JSON_Error 502 (''could not fetch CID from gateway: '' @ e), s1\<lparr>ss_world := w\<rparr>)
          | (Inr kind, w) \<Rightarrow>
             (let s2 = s1\<lparr>ss_world := w\<rparr>;
                  subKind = (if kind = KindDir then SubArchive else SubDocument) in
              if review_enabled (ss_store s2) then
                (Review_Reply subKind c,
                 s2\<lparr>ss_store := AddSubmission (server_now S s2) c subKind owner (ss_store s2)\<rparr>)
              else if kind = KindDir then
                (let s3 = enqueue_archive S c owner s2 in (Submit_Reply SubArchive c (Job_Queue.Queued (ss_queue s3)), s3))
              else (let s3 = enqueue_docs [c] s2 in (Submit_Reply SubDocument c (Job_Queue.Queued (ss_queue s3)), s3))))))"

definition h_failures :: "'w handler" where
  "h_failures S r s =
     (let (fs, st) = Failures (ss_store s) in (Failures_Reply fs (int (length fs)), s\<lparr>ss_store := st\<rparr>))"

definition h_retry :: "'w handler" where
  "h_retry S r s =
     (let c = trim_space (in_form r ''cid'') in
      if not_post r then (not_allowed, s)
      else if c = [] then (JSON_Error 400 ''missing cid'', s)
      else (case RetryFailure c (ss_store s) of (found, st) \<Rightarrow>
        let s1 = s\<lparr>ss_store := st\<rparr> in
        if \<not> found then (JSON_Error 404 ''no failed document with that cid'', s1)
        else (case ArchivesContaining c (ss_store s1) of (archs, st2) \<Rightarrow>
          let s2 = s1\<lparr>ss_store := st2\<rparr>;
              s3 = (if length archs > 0 then fold (\<lambda>a. enqueue_archive S a []) archs s2 else enqueue_docs [c] s2)
          in (Retry_Reply c (Job_Queue.Queued (ss_queue s3)), s3))))"

section \<open>Archives\<close>

definition h_archives :: "'w handler" where
  "h_archives S r s =
     (let (archs, st) = Archives (ss_store s) in (Archives_Reply archs (int (length archs)), s\<lparr>ss_store := st\<rparr>))"

definition h_archives_search :: "'w handler" where
  "h_archives_search S r s =
     (let query = trim_space (in_query r ''q''); (archs, st) = SearchArchives query (ss_store s)
      in (Archive_Search_Reply query archs (int (length archs)), s\<lparr>ss_store := st\<rparr>))"

definition h_archive :: "'w handler" where
  "h_archive S r s =
     (let c = trim_space (in_query r ''cid'') in
      if c = [] then (JSON_Error 400 ''missing cid'', s)
      else (case GetArchive c (ss_store s) of
          (None, st) \<Rightarrow> (JSON_Error 404 ''archive not found'', s\<lparr>ss_store := st\<rparr>)
        | (Some (a, docs), st) \<Rightarrow>
            (let (fs, st2) = ArchiveFailures c st in (Archive_Reply a docs fs, s\<lparr>ss_store := st2\<rparr>))))"

section \<open>The administrator\<close>

definition h_login :: "'w handler" where
  "h_login S r s =
     (let adminKey = server_key S s; key = trim_space (in_form r ''key'') in
      if not_post r then (not_allowed, s)
      else if adminKey = [] then (JSON_Error 503 ''no API key configured on the server'', s)
      else if key \<noteq> adminKey then (JSON_Error 401 ''invalid key'', s)
      else (case create (sv_random S (ss_world s)) (server_now S s) (ss_sessions s) of
          (Inl e, ss) \<Rightarrow> (JSON_Error 500 ''could not create session'', s\<lparr>ss_sessions := ss\<rparr>)
        | (Inr tok, ss) \<Rightarrow> (Login_Reply tok, s\<lparr>ss_sessions := ss\<rparr>)))"

definition h_logout :: "'w handler" where
  "h_logout S r s =
     (Logout_Reply, case in_cookie r of None \<Rightarrow> s
        | Some tok \<Rightarrow> s\<lparr>ss_sessions := destroy tok (ss_sessions s)\<rparr>)"

definition h_session :: "'w handler" where
  "h_session S r s =
     (let (ok, ss) = authed (server_now S s) (in_cookie r) (ss_sessions s)
      in (Session_Reply ok (review_enabled (ss_store s)), s\<lparr>ss_sessions := ss\<rparr>))"

definition h_submissions :: "'w handler" where
  "h_submissions S r s =
     (let (subs, st) = Submissions (ss_store s)
      in (Submissions_Reply subs (int (length subs)) (review_enabled st), s\<lparr>ss_store := st\<rparr>))"

definition h_api_key :: "'w handler" where
  "h_api_key S r s =
     (let key = trim_space (in_form r ''key'') in
      if not_post r then (not_allowed, s)
      else if key = [] \<or> contains_newline key then (JSON_Error 400 ''invalid API key'', s)
      else (case saveAPIKey (sv_os S) (cfg_DataDir (sv_cfg S)) key (ss_disk s) of
          (Some e, d) \<Rightarrow> (JSON_Error 500 ''could not save API key'', s\<lparr>ss_disk := d\<rparr>)
        | (None, d) \<Rightarrow> (Key_Updated, s\<lparr>ss_disk := d, ss_sessions :=
            (case in_cookie r of None \<Rightarrow> ss_sessions s | Some tok \<Rightarrow> retain tok (ss_sessions s))\<rparr>)))"

definition h_review_mode :: "'w handler" where
  "h_review_mode S r s =
     (let v = trim_space (to_lower (in_form r ''enabled''));
          enabled = (v = ''true'' \<or> v = ''1'' \<or> v = ''on'' \<or> v = ''yes'') in
      if not_post r then (not_allowed, s)
      else (Review_Mode_Reply enabled, s\<lparr>ss_store := SetReviewEnabled enabled (ss_store s)\<rparr>))"

definition h_approve :: "'w handler" where
  "h_approve S r s =
     (let c = trim_space (in_form r ''cid'') in
      if not_post r then (not_allowed, s)
      else if c = [] then (JSON_Error 400 ''missing cid'', s)
      else (case TakeSubmission c (ss_store s) of
          (None, st) \<Rightarrow> (JSON_Error 404 ''no pending submission with that cid'', s\<lparr>ss_store := st\<rparr>)
        | (Some sub, st) \<Rightarrow>
            (let s1 = s\<lparr>ss_store := st\<rparr>;
                 s2 = (if sb_kind sub = SubArchive then enqueue_archive S c (sb_owner sub) s1 else enqueue_docs [c] s1)
             in (Approved_Reply c (sb_kind sub) (Job_Queue.Queued (ss_queue s2)), s2))))"

definition h_deny :: "'w handler" where
  "h_deny S r s =
     (let c = trim_space (in_form r ''cid'') in
      if not_post r then (not_allowed, s)
      else if c = [] then (JSON_Error 400 ''missing cid'', s)
      else (Denied_Reply c, s\<lparr>ss_store := Deny (server_now S s) c (ss_store s)\<rparr>))"

definition h_delete_archive :: "'w handler" where
  "h_delete_archive S r s =
     (let c = trim_space (in_form r ''cid'') in
      if not_post r then (not_allowed, s)
      else if c = [] then (JSON_Error 400 ''missing cid'', s)
      else (case DeleteArchive c (ss_store s) of (found, st) \<Rightarrow>
        if \<not> found then (JSON_Error 404 ''archive not found'', s\<lparr>ss_store := st\<rparr>)
        else (Removed_Reply ''archive removed'' c, s\<lparr>ss_store := SaveAll st\<rparr>)))"

definition h_delete_document :: "'w handler" where
  "h_delete_document S r s =
     (let c = trim_space (in_form r ''cid'') in
      if not_post r then (not_allowed, s)
      else if c = [] then (JSON_Error 400 ''missing cid'', s)
      else (case DeleteDocument c (ss_store s) of (found, st) \<Rightarrow>
        if \<not> found then (JSON_Error 404 ''document not found'', s\<lparr>ss_store := st\<rparr>)
        else (Removed_Reply ''document removed'' c, s\<lparr>ss_store := SaveAll st\<rparr>)))"

section \<open>The routes\<close>

definition h_ipfs :: "'w handler" where
  "h_ipfs S = (if cfg_IPFSAPI (sv_cfg S) \<noteq> [] then indexedIPFS (ipfsAPIProxy (cfg_IPFSAPI (sv_cfg S))) S
     else indexedIPFS (gatewayProxy (cfg_Gateway (sv_cfg S))) S)"

definition admin_routes :: "(string \<times> 'w handler) list" where
  "admin_routes =
     [(''/api/admin/submissions'', h_submissions), (''/api/admin/api-key'', h_api_key),
      (''/api/admin/review-mode'', h_review_mode), (''/api/admin/approve'', h_approve),
      (''/api/admin/deny'', h_deny), (''/api/admin/delete-archive'', h_delete_archive),
      (''/api/admin/delete-document'', h_delete_document)]"

definition open_routes :: "(string \<times> 'w handler) list" where
  "open_routes =
     [(''/admin'', h_page ''admin''), (''/api/search'', h_search), (''/api/suggest'', h_suggest),
      (''/api/recent'', h_recent), (''/api/stats'', h_stats), (''/api/submit'', h_submit),
      (''/api/failures'', h_failures), (''/api/retry'', h_retry), (''/api/archives'', h_archives),
      (''/api/archives/search'', h_archives_search), (''/api/archive'', h_archive),
      (''/api/admin/login'', h_login), (''/api/admin/logout'', h_logout), (''/api/admin/session'', h_session)]"

text \<open>
  The pattern \<open>ServeMux\<close> picks for a clean path (it redirects any other path to its clean
  form): an exact route, the subtree \<open>/ipfs/\<close>, or the page at the root.
\<close>

definition serve :: "'w handler" where
  "serve S r s =
     (case map_of open_routes (in_path r) of
        Some h \<Rightarrow> h S r s
      | None \<Rightarrow>
         (case map_of admin_routes (in_path r) of
            Some h \<Rightarrow> requireAdmin h S r s
          | None \<Rightarrow>
              if prefix ''/ipfs/'' (in_path r) then h_ipfs S r s
              else if in_path r = ''/ipfs'' then (Redirect ''/ipfs/'', s)
              else h_page ''dashboard'' S r s))"

section \<open>Starting up\<close>

text \<open>\<open>NewStore\<close> on the database of the data directory, once its schema is in place.\<close>

definition NewStore :: "database \<Rightarrow> bool list \<Rightarrow> store" where
  "NewStore d outcomes =
     (let s0 = \<lparr>db = d, drv = outcomes, recent = [], skipped = 0, pending = 0, review_enabled = False\<rparr>;
          (v, s1) = loadReviewEnabled s0;
          s2 = s1\<lparr>review_enabled := v\<rparr>;
          s3 = snd (db_scan 0 (\<lambda>d. length (documents d)) s2);
          s4 = snd (db_scan 0 (\<lambda>d. length (labels d)) s3)
      in snd (db_scan 0 (\<lambda>d. length (archives d)) s4))"

definition startup :: "int \<Rightarrow> store \<Rightarrow> store \<times> job_queue" where
  "startup now s =
     (let (requeued, s1) = RequeueRateLimited s;
          (resumable, s2) = ResumableArchives s1
      in fold (\<lambda>c. EnqueueArchive now c []) resumable (s2, NewIndexer))"

text \<open>The process as \<open>main\<close> starts it on what the disk holds.\<close>

definition boot :: "int \<Rightarrow> database \<Rightarrow> bool list \<Rightarrow> disk \<Rightarrow> 'w \<Rightarrow> 'w server" where
  "boot now d outcomes dsk w =
     (let (st, q) = startup now (NewStore d outcomes)
      in \<lparr>ss_store = st, ss_queue = q, ss_sessions = newSessionStore, ss_disk = dsk, ss_web = fresh_web,
          ss_world = w\<rparr>)"

end
