(* ===== verification/Server_Properties.thy ===== *)
theory Server_Properties
  imports Server Indexer_Properties
begin

text \<open>
  What the HTTP server promises: who may do what, for how long a login lasts, which CIDs the
  \<open>/ipfs\<close> links reach, and what a submission, an approval, a retry and a restart put on the queue.
\<close>

section \<open>Frames\<close>

lemma enqueue_archive_simps [simp]:
  "ss_sessions (enqueue_archive S c owner s) = ss_sessions s" "ss_world (enqueue_archive S c owner s) = ss_world s"
  "ss_disk (enqueue_archive S c owner s) = ss_disk s"
  "ss_queue (enqueue_archive S c owner s) = enqueue (JobArchive c owner) (ss_queue s)"
  by (simp_all add: enqueue_archive_def EnqueueArchive_def)

lemma enqueue_docs_simps [simp]:
  "ss_sessions (enqueue_docs cs s) = ss_sessions s" "ss_world (enqueue_docs cs s) = ss_world s"
  "ss_disk (enqueue_docs cs s) = ss_disk s" "ss_store (enqueue_docs cs s) = ss_store s"
  "ss_queue (enqueue_docs [c] s) = enqueue (JobDocs [c]) (ss_queue s)"
  by (simp_all add: enqueue_docs_def EnqueueDocs_def)

lemma fold_enqueue_sessions [simp]:
  "ss_sessions (fold (\<lambda>a. enqueue_archive S a []) archs s) = ss_sessions s"
  by (induction archs arbitrary: s) simp_all

lemma sending_enqueue [simp]: "sending (enqueue j q) = sending q @ [j]" "queued (enqueue j q) = queued q + 1"
  by (simp_all add: enqueue_def)

text \<open>No handler but login and logout, the key change and the session checks touches the sessions.\<close>

lemmas quiet_handlers = h_page_def h_search_def h_suggest_def h_recent_def h_stats_def h_submit_def h_failures_def
  h_retry_def h_archives_def h_archives_search_def h_archive_def h_submissions_def h_review_mode_def
  h_approve_def h_deny_def h_delete_archive_def h_delete_document_def

lemma quiet_sessions [simp]:
  "ss_sessions (snd (h_page n S r s)) = ss_sessions s" "ss_sessions (snd (h_search S r s)) = ss_sessions s"
  "ss_sessions (snd (h_suggest S r s)) = ss_sessions s" "ss_sessions (snd (h_recent S r s)) = ss_sessions s"
  "ss_sessions (snd (h_stats S r s)) = ss_sessions s" "ss_sessions (snd (h_failures S r s)) = ss_sessions s"
  "ss_sessions (snd (h_archives S r s)) = ss_sessions s" "ss_sessions (snd (h_archives_search S r s)) = ss_sessions s"
  "ss_sessions (snd (h_archive S r s)) = ss_sessions s" "ss_sessions (snd (h_submissions S r s)) = ss_sessions s"
  "ss_sessions (snd (h_review_mode S r s)) = ss_sessions s" "ss_sessions (snd (h_deny S r s)) = ss_sessions s"
  "ss_sessions (snd (h_delete_archive S r s)) = ss_sessions s" "ss_sessions (snd (h_delete_document S r s)) = ss_sessions s"
  by (simp_all add: quiet_handlers Let_def split: prod.splits option.splits)

lemma quiet_sessions2 [simp]:
  "ss_sessions (snd (h_submit S r s)) = ss_sessions s" "ss_sessions (snd (h_retry S r s)) = ss_sessions s"
  "ss_sessions (snd (h_approve S r s)) = ss_sessions s"
  by (simp_all add: quiet_handlers Let_def split: prod.splits option.splits sum.splits)

lemma ipfs_sessions [simp]: "ss_sessions (snd (h_ipfs S r s)) = ss_sessions s"
  by (simp add: h_ipfs_def indexedIPFS_def ipfsAPIProxy_def gatewayProxy_def Let_def
      split: prod.splits option.splits sum.splits)

lemma requireAdmin_refuses:
  "\<not> fst (authed (server_now S s) (in_cookie r) (ss_sessions s)) \<Longrightarrow> requireAdmin h S r s = (JSON_Error 401 ''unauthorized'',
     s\<lparr>ss_sessions := snd (authed (server_now S s) (in_cookie r) (ss_sessions s))\<rparr>)"
  by (cases "authed (server_now S s) (in_cookie r) (ss_sessions s)") (simp add: requireAdmin_def)

lemma requireAdmin_passes:
  assumes "in_cookie r = Some tok" and "tok \<noteq> []" and "ss_sessions s tok = Some exp" and "server_now S s \<le> exp"
  shows "requireAdmin h S r s = h S r s"
proof -
  have "authed (server_now S s) (in_cookie r) (ss_sessions s) = (True, ss_sessions s)"
    using assms by (simp add: authed_def valid_def)
  then show ?thesis by (simp add: requireAdmin_def)
qed

lemma no_login_reply [simp]:
  "fst (h_page n S r s) \<noteq> Login_Reply tok" "fst (h_search S r s) \<noteq> Login_Reply tok"
  "fst (h_suggest S r s) \<noteq> Login_Reply tok" "fst (h_recent S r s) \<noteq> Login_Reply tok"
  "fst (h_stats S r s) \<noteq> Login_Reply tok" "fst (h_submit S r s) \<noteq> Login_Reply tok"
  "fst (h_failures S r s) \<noteq> Login_Reply tok" "fst (h_retry S r s) \<noteq> Login_Reply tok"
  "fst (h_archives S r s) \<noteq> Login_Reply tok" "fst (h_archives_search S r s) \<noteq> Login_Reply tok"
  "fst (h_archive S r s) \<noteq> Login_Reply tok" "fst (h_submissions S r s) \<noteq> Login_Reply tok"
  "fst (h_review_mode S r s) \<noteq> Login_Reply tok" "fst (h_approve S r s) \<noteq> Login_Reply tok"
  "fst (h_deny S r s) \<noteq> Login_Reply tok" "fst (h_delete_archive S r s) \<noteq> Login_Reply tok"
  "fst (h_delete_document S r s) \<noteq> Login_Reply tok" "fst (h_api_key S r s) \<noteq> Login_Reply tok"
  "fst (h_session S r s) \<noteq> Login_Reply tok" "fst (h_logout S r s) \<noteq> Login_Reply tok"
  "fst (h_ipfs S r s) \<noteq> Login_Reply tok"
  by (simp_all add: quiet_handlers h_api_key_def h_session_def h_logout_def h_ipfs_def indexedIPFS_def
      ipfsAPIProxy_def gatewayProxy_def not_allowed_def Let_def split: prod.split option.split sum.split)

section \<open>Where sessions come from\<close>

definition login_ok :: "'w service \<Rightarrow> request \<Rightarrow> 'w server \<Rightarrow> string \<Rightarrow> bool" where
  "login_ok S r s tok \<longleftrightarrow> in_path r = ''/api/admin/login'' \<and> in_method r = ''POST''
     \<and> server_key S s \<noteq> [] \<and> trim_space (in_form r ''key'') = server_key S s \<and> fst (serve S r s) = Login_Reply tok"

lemma authed_keeps: "snd (authed now ck ss) t = Some x \<Longrightarrow> ss t = Some x"
  by (auto simp: authed_def valid_def split: option.splits if_splits)

lemma retain_keeps: "retain tok ss t = Some x \<Longrightarrow> ss t = Some x"
  by (auto simp: retain_def split: option.splits if_splits)

lemma api_key_keeps: "ss_sessions (snd (h_api_key S r s)) t = Some x \<Longrightarrow> ss_sessions s t = Some x"
  by (auto simp: h_api_key_def Let_def split: prod.splits option.splits if_splits dest: retain_keeps)

lemma logout_keeps: "ss_sessions (snd (h_logout S r s)) t = Some x \<Longrightarrow> ss_sessions s t = Some x"
  by (auto simp: h_logout_def destroy_def split: option.splits if_splits)

lemma session_keeps: "ss_sessions (snd (h_session S r s)) t = Some x \<Longrightarrow> ss_sessions s t = Some x"
  by (auto simp: h_session_def Let_def split: prod.splits dest: authed_keeps [rotated] intro: authed_keeps)
    (metis authed_keeps snd_conv)

lemma require_keeps:
  assumes "ss_sessions (snd (requireAdmin h S r s)) t = Some x"
    and "\<And>s'. ss_sessions (snd (h S r s')) t = Some x \<Longrightarrow> ss_sessions s' t = Some x"
  shows "ss_sessions s t = Some x"
proof -
  obtain ok ss where a: "authed (server_now S s) (in_cookie r) (ss_sessions s) = (ok, ss)" by fastforce
  have "ss t = Some x"
    using assms(1) assms(2) [of "s\<lparr>ss_sessions := ss\<rparr>"] a by (auto simp: requireAdmin_def Let_def split: if_splits)
  then show ?thesis using authed_keeps a by (metis snd_conv)
qed

lemma login_adds:
  assumes "ss_sessions (snd (h_login S r s)) t = Some x"
  shows "ss_sessions s t = Some x \<or> in_method r = ''POST'' \<and> server_key S s \<noteq> []
    \<and> trim_space (in_form r ''key'') = server_key S s \<and> fst (h_login S r s) = Login_Reply t \<and> x = server_now S s + sessionTTL"
  using assms
  by (auto simp: h_login_def create_def not_post_def Let_def split: prod.splits option.splits sum.splits if_splits)

lemma serve_sessions:
  assumes "ss_sessions (snd (serve S r s)) t = Some x"
  shows "ss_sessions s t = Some x \<or> login_ok S r s t \<and> x = server_now S s + sessionTTL"
proof (cases "map_of open_routes (in_path r) :: 'a handler option")
  case None
  show ?thesis
  proof (cases "map_of admin_routes (in_path r) :: 'a handler option")
    case None2: None
    then show ?thesis using assms None by (auto simp: serve_def split: if_splits)
  next
    case (Some h)
    then have "serve S r s = requireAdmin h S r s" using None by (simp add: serve_def)
    moreover have "ss_sessions (snd (h S r s')) t = Some x \<Longrightarrow> ss_sessions s' t = Some x" for s'
      using map_of_SomeD [OF Some] api_key_keeps [of S r s' t x] by (auto simp: admin_routes_def)
    ultimately show ?thesis using require_keeps [of h S r s t x] assms by simp
  qed
next
  case (Some h)
  then have s: "serve S r s = h S r s" by (simp add: serve_def)
  show ?thesis
  proof (cases "in_path r = ''/api/admin/login''")
    case True
    then have "h = h_login" using Some by (simp add: open_routes_def)
    then show ?thesis using login_adds [of S r s t x] assms s True by (auto simp: login_ok_def)
  next
    case False
    then show ?thesis
      using map_of_SomeD [OF Some] assms s logout_keeps [of S r s t x] session_keeps [of S r s t x]
      by (auto simp: open_routes_def)
  qed
qed

text \<open>A history: the requests with the world each of them met.\<close>

definition step_at :: "'w service \<Rightarrow> request \<times> 'w \<Rightarrow> 'w server \<Rightarrow> 'w server" where
  "step_at S rw s = snd (serve S (fst rw) (s\<lparr>ss_world := snd rw\<rparr>))"

lemma history_sessions:
  "ss_sessions (fold (step_at S) hist s) t = Some x \<Longrightarrow> ss_sessions s = newSessionStore \<Longrightarrow>
     \<exists>pre r w post. hist = pre @ (r, w) # post \<and> login_ok S r ((fold (step_at S) pre s)\<lparr>ss_world := w\<rparr>) t
       \<and> x = clock (sv_net S) w + sessionTTL"
proof (induction hist rule: rev_induct)
  case Nil
  then show ?case by (simp add: newSessionStore_def)
next
  case (snoc rw hist)
  let ?s = "(fold (step_at S) hist s)\<lparr>ss_world := snd rw\<rparr>"
  from snoc.prems(1) have "ss_sessions (snd (serve S (fst rw) ?s)) t = Some x"
    by (simp add: step_at_def [of S rw])
  then consider "ss_sessions ?s t = Some x" | "login_ok S (fst rw) ?s t" "x = server_now S ?s + sessionTTL"
    using serve_sessions by blast
  then show ?case
  proof cases
    case 1
    then obtain pre r w post where "hist = pre @ (r, w) # post"
      "login_ok S r ((fold (step_at S) pre s)\<lparr>ss_world := w\<rparr>) t" "x = clock (sv_net S) w + sessionTTL"
      using snoc by auto
    then show ?thesis by (intro exI [of _ pre] exI [of _ r] exI [of _ w] exI [of _ "post @ [rw]"]) simp
  next
    case 2
    then show ?thesis
      by (intro exI [of _ hist] exI [of _ "fst rw"] exI [of _ "snd rw"] exI [of _ "[]"]) simp
  qed
qed

section \<open>A small server\<close>

definition small_service :: "unit service" where
  "small_service = \<lparr>sv_net = page_net, sv_cfg = small_config, sv_getenv = [],
     sv_fts = \<lparr>fts_ok = \<lambda>_. True, fts_hit = \<lambda>_ _. True, fts_rank = \<lambda>_ _. 0\<rparr>,
     sv_os = \<lparr>os_err = \<lambda>c. None, os_temp = ''.api_key.1'', os_partial = 0\<rparr>, sv_random = \<lambda>w. Inr ''ab'',
     sv_webfs = \<lambda>f. Inr f, sv_parse = \<lambda>n t. Inr (\<lambda>g. Inr (t @ g)), sv_detect = \<lambda>b. ''application/pdf'', sv_gateway_ok = \<lambda>u. True,
     sv_forward = \<lambda>u r w. (Inr (200, ''body''), w)\<rparr>"

definition small_server :: "store \<Rightarrow> unit server" where
  "small_server st = \<lparr>ss_store = st, ss_queue = NewIndexer, ss_sessions = [''tok'' \<mapsto> 100], ss_disk = key_disk, ss_web = fresh_web, ss_world = ()\<rparr>"

definition post_to :: "string \<Rightarrow> (string \<times> string) list \<Rightarrow> string option \<Rightarrow> request" where
  "post_to path form cookie = \<lparr>in_method = ''POST'', in_path = path, in_query = \<lambda>k. [],
     in_form = (\<lambda>k. case map_of form k of None \<Rightarrow> [] | Some v \<Rightarrow> v), in_cookie = cookie\<rparr>"

lemma small_simps [simp]:
  "sv_net small_service = page_net" "sv_cfg small_service = small_config" "sv_getenv small_service = []"
  "clock page_net w = 7" "cfg_DataDir small_config = ''data''"
  "ss_store (small_server st) = st" "ss_queue (small_server st) = NewIndexer" "ss_disk (small_server st) = key_disk"
  "ss_sessions (small_server st) = [''tok'' \<mapsto> 100]" "ss_world (small_server st) = ()"
  by (simp_all add: small_service_def page_net_def small_config_def small_server_def)

lemma post_simps [simp]:
  "in_method (post_to path form ck) = ''POST''" "in_path (post_to path form ck) = path"
  "in_cookie (post_to path form ck) = ck"
  by (simp_all add: post_to_def)

section \<open>Properties\<close>

text \<open>
  Property C12. Without a live session cookie, every administrative route answers 401 and changes
  nothing: not the store, the queue, the key file or the network; at most the expired session of the
  cookie is dropped.
\<close>

theorem admin_routes_guarded:
  assumes "in_path r \<in> {''/api/admin/submissions'', ''/api/admin/api-key'', ''/api/admin/review-mode'',
      ''/api/admin/approve'', ''/api/admin/deny'', ''/api/admin/delete-archive'', ''/api/admin/delete-document''}"
    and "\<forall>tok exp. in_cookie r = Some tok \<and> ss_sessions s tok = Some exp \<longrightarrow> tok = [] \<or> exp < clock (sv_net S) (ss_world s)"
  shows "fst (serve S r s) = JSON_Error 401 ''unauthorized''
    \<and> snd (serve S r s) = s\<lparr>ss_sessions := ss_sessions (snd (serve S r s))\<rparr>
    \<and> dom (ss_sessions (snd (serve S r s))) \<subseteq> dom (ss_sessions s)"
proof -
  have "\<exists>h. serve S r s = requireAdmin h S r s"
    using assms(1) unfolding serve_def open_routes_def admin_routes_def by (elim insertE) auto
  then obtain h where h: "serve S r s = requireAdmin h S r s" by blast
  have "\<not> fst (authed (server_now S s) (in_cookie r) (ss_sessions s))"
    using assms(2) by (fastforce simp: authed_iff)
  then have "serve S r s = (JSON_Error 401 ''unauthorized'',
      s\<lparr>ss_sessions := snd (authed (server_now S s) (in_cookie r) (ss_sessions s))\<rparr>)"
    unfolding h by (rule requireAdmin_refuses)
  then show ?thesis using authed_dom by simp
qed

theorem admin_routes_guarded_witness:
  "fst (serve small_service (post_to ''/api/admin/deny'' [(''cid'', ''c'')] (Some ''guess'')) (small_server fresh_store))
     = JSON_Error 401 ''unauthorized''"
  using admin_routes_guarded [of "post_to ''/api/admin/deny'' [(''cid'', ''c'')] (Some ''guess'')" "small_server fresh_store" small_service]
  by simp

text \<open>
  Property C7. A session that is live after any history of requests, at any times, goes back to one
  of them: a POST to the login route with the key that was configured then, whose reply set exactly
  this token, not more than twelve hours before.
\<close>

theorem session_provenance:
  assumes "ss_sessions s = newSessionStore"
    and "fst (valid now tok (ss_sessions (fold (step_at S) history s)))"
  shows "\<exists>before r w after. history = before @ (r, w) # after \<and> in_path r = ''/api/admin/login'' \<and> in_method r = ''POST''
    \<and> server_key S (fold (step_at S) before s) \<noteq> []
    \<and> trim_space (in_form r ''key'') = server_key S (fold (step_at S) before s)
    \<and> fst (serve S r ((fold (step_at S) before s)\<lparr>ss_world := w\<rparr>)) = Login_Reply tok
    \<and> now \<le> clock (sv_net S) w + 12 * 60 * 60 * 10 ^ 9"
proof -
  from assms(2) obtain exp where "ss_sessions (fold (step_at S) history s) tok = Some exp" "now \<le> exp"
    by (auto simp: valid_iff)
  with history_sessions [OF this(1) assms(1)] show ?thesis
    by (fastforce simp: login_ok_def sessionTTL_def seconds_def)
qed

definition login_request :: request where
  "login_request = post_to ''/api/admin/login'' [(''key'', '' secret'')] None"

lemma login_reply:
  "serve small_service login_request (small_server fresh_store)
     = (Login_Reply (hex_encode ''ab''), (small_server fresh_store)\<lparr>ss_sessions :=
         [''tok'' \<mapsto> 100, hex_encode ''ab'' \<mapsto> 7 + sessionTTL]\<rparr>)"
proof -
  have "trim_space '' secret'' = ''secret''" by code_simp
  moreover have "in_form login_request ''key'' = '' secret''" by (simp add: login_request_def post_to_def)
  ultimately show ?thesis
    by (simp add: serve_def open_routes_def h_login_def key_disk_load not_post_def create_def Let_def)
      (simp add: login_request_def small_service_def Let_def)
qed

theorem session_provenance_witness:
  "\<exists>w. snd (login_request, w) = () \<and> 9 \<le> clock page_net w + 12 * 60 * 60 * 10 ^ 9"
proof -
  let ?s = "(small_server fresh_store)\<lparr>ss_sessions := newSessionStore\<rparr>"
  have "in_form login_request ''key'' = '' secret''" "trim_space '' secret'' = ''secret''"
    by (simp add: login_request_def post_to_def) code_simp
  then have "ss_sessions (step_at small_service (login_request, ()) ?s) = [hex_encode ''ab'' \<mapsto> 7 + sessionTTL]"
    by (simp add: step_at_def serve_def open_routes_def h_login_def key_disk_load not_post_def create_def Let_def)
      (simp add: login_request_def small_service_def newSessionStore_def Let_def)
  then have "fst (valid 9 (hex_encode ''ab'') (ss_sessions (fold (step_at small_service) [(login_request, ())] ?s)))"
    by (simp add: valid_iff hex_encode_def sessionTTL_def seconds_def)
  from session_provenance [OF _ this] show ?thesis by auto
qed

text \<open>
  Property C32. A login with the configured key (spaces around it do not matter) sets a token that is
  valid for twelve hours from then on and no longer, keeps every other session, and the token is dead
  after a logout that presents it.
\<close>

theorem login_lasts_twelve_hours:
  assumes "in_path r = ''/api/admin/login''" and "in_method r = ''POST''" and "server_key S s \<noteq> []"
    and "trim_space (in_form r ''key'') = server_key S s" and "sv_random S (ss_world s) = Inr bytes" and "bytes \<noteq> []"
  shows "\<exists>tok. fst (serve S r s) = Login_Reply tok \<and> length tok = 2 * length bytes
    \<and> (fst (valid t tok (ss_sessions (snd (serve S r s)))) \<longleftrightarrow> t \<le> clock (sv_net S) (ss_world s) + 12 * 60 * 60 * 10 ^ 9)
    \<and> (\<forall>k. k = tok \<or> ss_sessions (snd (serve S r s)) k = ss_sessions s k)
    \<and> (in_path r' = ''/api/admin/logout'' \<and> in_cookie r' = Some tok
         \<longrightarrow> \<not> fst (valid t tok (ss_sessions (snd (serve S r' (snd (serve S r s)))))))"
proof -
  have s: "serve S r s = (Login_Reply (hex_encode bytes),
      s\<lparr>ss_sessions := (ss_sessions s)(hex_encode bytes \<mapsto> server_now S s + sessionTTL)\<rparr>)"
    using assms by (simp add: serve_def open_routes_def h_login_def not_post_def create_def Let_def)
  have "hex_encode bytes \<noteq> []" using assms(6) by (cases bytes) (simp_all add: hex_encode_def)
  moreover have "in_path r' = ''/api/admin/logout'' \<Longrightarrow> serve S r' s' = h_logout S r' s'" for s'
    by (simp add: serve_def open_routes_def)
  ultimately show ?thesis unfolding s
    by (intro exI [of _ "hex_encode bytes"])
      (auto simp: valid_iff hex_encode_length sessionTTL_def seconds_def h_logout_def destroy_def)
qed

theorem login_lasts_twelve_hours_witness:
  "\<exists>tok. fst (serve small_service login_request (small_server fresh_store)) = Login_Reply tok \<and> length tok = 4"
proof -
  have "trim_space (in_form login_request ''key'') = ''secret''" by code_simp
  moreover have "in_path login_request = ''/api/admin/login''" "in_method login_request = ''POST''"
    "sv_random small_service () = Inr ''ab''" by (simp_all add: login_request_def small_service_def)
  ultimately show ?thesis
    using login_lasts_twelve_hours [of login_request small_service "small_server fresh_store" "''ab''" 0 login_request]
    by (auto simp: key_disk_load)
qed

text \<open>
  The API key of the server is compared untrimmed with the trimmed key of the login
  form: when the configured key has white space around it, as an environment variable may, no
  request logs in.
\<close>

theorem untrimmed_key_locks_out:
  assumes "trim_space (server_key S s) \<noteq> server_key S s"
  shows "fst (serve S r s) \<noteq> Login_Reply tok"
proof
  assume a: "fst (serve S r s) = Login_Reply tok"
  have no: "fst (h_login S r s) \<noteq> Login_Reply tok"
    using assms by (auto simp: h_login_def not_allowed_def Let_def split: sum.splits prod.splits)
      (metis trim_space_idem)+
  have "fst (requireAdmin h S r s) \<noteq> Login_Reply tok" if "h \<in> snd ` set admin_routes" for h
    using that by (cases "authed (server_now S s) (in_cookie r) (ss_sessions s)") (auto simp: requireAdmin_def admin_routes_def Let_def split: if_splits)
  moreover have "fst (h S r s) \<noteq> Login_Reply tok" if "h \<in> snd ` set open_routes" for h
    using that no by (auto simp: open_routes_def)
  ultimately show False using a
    by (auto simp: serve_def split: option.splits if_splits dest!: map_of_SomeD) force+
qed

theorem untrimmed_key_locks_out_witness:
  "fst (serve (small_service\<lparr>sv_getenv := ''key ''\<rparr>) (post_to ''/api/admin/login'' [(''key'', ''key '')] None)
     ((small_server fresh_store)\<lparr>ss_disk := (\<lambda>f. None)\<rparr>)) \<noteq> Login_Reply tok"
proof (rule untrimmed_key_locks_out)
  have "trim_space ''key '' \<noteq> ''key ''" by code_simp
  then show "trim_space (server_key (small_service\<lparr>sv_getenv := ''key ''\<rparr>) ((small_server fresh_store)\<lparr>ss_disk := (\<lambda>f. None)\<rparr>))
      \<noteq> server_key (small_service\<lparr>sv_getenv := ''key ''\<rparr>) ((small_server fresh_store)\<lparr>ss_disk := (\<lambda>f. None)\<rparr>)"
    by (simp add: loadAPIKey_def)
qed


definition get_from :: "string \<Rightarrow> (string \<times> string) list \<Rightarrow> request" where
  "get_from path query = \<lparr>in_method = ''GET'', in_path = path,
     in_query = (\<lambda>k. case map_of query k of None \<Rightarrow> [] | Some v \<Rightarrow> v), in_form = (\<lambda>k. []), in_cookie = None\<rparr>"




text \<open>
  Approving a submission, with a live session, queues exactly the job it was submitted
  for and takes it out of the review queue, so that a second approval finds nothing.
\<close>

theorem approval_queues_once:
  assumes "in_path r = ''/api/admin/approve''" and "in_method r = ''POST''" and "drv (ss_store s) = []"
    and "in_cookie r = Some tok" and "tok \<noteq> []" and "ss_sessions s tok = Some exp" and "clock (sv_net S) (ss_world s) \<le> exp"
    and "trim_space (in_form r ''cid'') = c" and "c \<noteq> []"
    and "sql_find s_cid c (submissions (db (ss_store s))) = Some row"
  shows "\<exists>s'. serve S r s = (Approved_Reply c (s_kind row) (Job_Queue.Queued (ss_queue s')), s')
    \<and> ss_queue s' = enqueue (if s_kind row = SubArchive then JobArchive c (s_owner row) else JobDocs [c]) (ss_queue s)
    \<and> fst (serve S r s') = JSON_Error 404 ''no pending submission with that cid''"
proof -
  let ?st = "(ss_store s)\<lparr>db := delete_submission c (db (ss_store s))\<rparr>"
  let ?s1 = "s\<lparr>ss_store := ?st\<rparr>"
  let ?s2 = "if s_kind row = SubArchive then enqueue_archive S c (s_owner row) ?s1 else enqueue_docs [c] ?s1"
  have p: "serve S r s' = h_approve S r s'" if "ss_sessions s' = ss_sessions s" "ss_world s' = ss_world s" for s'
    using assms(1,4-7) that requireAdmin_passes [of r tok s' exp S h_approve]
    by (simp add: serve_def open_routes_def admin_routes_def)
  have "TakeSubmission c (ss_store s) = (Some (submission_of row), ?st)"
    using assms(3,10) by (simp add: TakeSubmission_run del: sql_find_None)
  then have 1: "serve S r s = (Approved_Reply c (s_kind row) (Job_Queue.Queued (ss_queue ?s2)), ?s2)"
    using assms(2,8,9) by (simp add: p h_approve_def not_post_def Let_def submission_of_def)
  have "drv (ss_store ?s2) = [] \<and> sql_find s_cid c (submissions (db (ss_store ?s2))) = None"
    using assms(3) by (auto simp: enqueue_archive_def EnqueueArchive_def AddArchive_run add_archive_db_def
        delete_submission_def sql_delete_def update_arch_def)
  then have "TakeSubmission c (ss_store ?s2) = (None, ss_store ?s2)" by (simp add: TakeSubmission_run)
  then have "fst (serve S r ?s2) = JSON_Error 404 ''no pending submission with that cid''"
    using assms(2,8,9) by (simp add: p h_approve_def not_post_def Let_def)
  then show ?thesis using 1 by (intro exI [of _ ?s2]) simp
qed

theorem approval_queues_once_witness:
  "\<exists>s'. serve small_service (post_to ''/api/admin/approve'' [(''cid'', ''QmA'')] (Some ''tok''))
      (small_server (AddSubmission 3 ''QmA'' SubArchive ''me'' fresh_store)) = (Approved_Reply ''QmA'' SubArchive 1, s')"
proof -
  let ?st = "AddSubmission 3 ''QmA'' SubArchive ''me'' fresh_store"
  let ?r = "post_to ''/api/admin/approve'' [(''cid'', ''QmA'')] (Some ''tok'')"
  have "sql_find s_cid ''QmA'' (submissions (db ?st)) = Some \<lparr>s_cid = ''QmA'', s_kind = SubArchive, s_owner = ''me'', s_at = 3\<rparr>"
    "trim_space (in_form ?r ''cid'') = ''QmA''" "drv ?st = []" by code_simp+
  then show ?thesis
    using approval_queues_once [of ?r "small_server ?st" "''tok''" 100 small_service "''QmA''"
        "\<lparr>s_cid = ''QmA'', s_kind = SubArchive, s_owner = ''me'', s_at = 3\<rparr>"]
    by (auto simp: enqueue_def NewIndexer_def Job_Queue.Queued_def)
qed

text \<open>
  Property C27. Saving an API key is all or nothing. When it succeeds, loading gives the trimmed key,
  the file is readable by its owner only and no temporary file is left; when it fails, whatever step
  failed, loading gives the key it gave before. No other file changes.
\<close>

theorem api_key_roundtrip:
  assumes "fresh_temp osys dir d" and "saveAPIKey osys dir key d = (err, d')"
  shows "(err = None \<longrightarrow> loadAPIKey getenv dir d' = trim_space key \<and> trim_space key \<noteq> []
        \<and> (\<exists>f. d' (dir, key_file) = Some f \<and> fl_mode f = 384) \<and> d' (dir, os_temp osys) = None)
    \<and> (err \<noteq> None \<longrightarrow> loadAPIKey getenv dir d' = loadAPIKey getenv dir d \<and> d' (dir, key_file) = d (dir, key_file))
    \<and> (\<forall>p. p \<noteq> (dir, key_file) \<and> p \<noteq> (dir, os_temp osys) \<longrightarrow> d' p = d p)"
proof (cases err)
  case None
  note ok = save_ok [OF assms(2) [unfolded None]]
  show ?thesis
    using assms(1) ok(1) trim_space_newline [of "trim_space key"] None
    by (simp add: ok(3) loadAPIKey_def fresh_temp_def Let_def)
next
  case (Some e)
  note er = save_error(1) [OF assms(2) [unfolded Some]]
  have k: "d' (x, key_file) = d (x, key_file)" for x
    using er [of "(x, key_file)"] assms(1) by (auto simp: fresh_temp_def)
  have "load_from dirs d' = load_from dirs d" for dirs by (induction dirs) (auto simp: k Let_def split: option.split)
  then show ?thesis using er k Some by (simp add: loadAPIKey_def)
qed

theorem api_key_roundtrip_witness:
  "loadAPIKey [] ''data'' (snd (saveAPIKey (sv_os small_service) ''data'' '' new key '' key_disk)) = ''new key''"
proof -
  have "trim_space '' new key '' = ''new key''" by code_simp
  moreover have "fst (saveAPIKey (sv_os small_service) ''data'' '' new key '' key_disk) = None"
    by (simp add: saveAPIKey_def contains_newline_def calculation Let_def small_service_def)
  moreover have "fresh_temp (sv_os small_service) ''data'' key_disk"
    by (simp add: fresh_temp_def key_disk_def small_service_def key_file_def)
  ultimately show ?thesis
    using api_key_roundtrip [of "sv_os small_service" "''data''" key_disk "'' new key ''" None] by (metis prod.collapse)
qed

text \<open>
  Changing the API key, with a live session, makes the new key the one logins and jobs
  use, and ends every session but the one that made the change.
\<close>

theorem key_change_ends_sessions:
  assumes "in_path r = ''/api/admin/api-key''" and "in_method r = ''POST''"
    and "in_cookie r = Some tok" and "tok \<noteq> []" and "ss_sessions s tok = Some exp" and "clock (sv_net S) (ss_world s) \<le> exp"
    and "fresh_temp (sv_os S) (cfg_DataDir (sv_cfg S)) (ss_disk s)" and "fst (serve S r s) = Key_Updated"
  shows "server_key S (snd (serve S r s)) = trim_space (in_form r ''key'')
    \<and> ss_sessions (snd (serve S r s)) = [tok \<mapsto> exp]
    \<and> ss_store (snd (serve S r s)) = ss_store s \<and> ss_queue (snd (serve S r s)) = ss_queue s"
proof -
  let ?k = "trim_space (in_form r ''key'')"
  have p: "serve S r s = h_api_key S r s"
    using assms(1,3-6) requireAdmin_passes [of r tok s exp S h_api_key]
    by (simp add: serve_def open_routes_def admin_routes_def)
  obtain err d where sv: "saveAPIKey (sv_os S) (cfg_DataDir (sv_cfg S)) ?k (ss_disk s) = (err, d)" by fastforce
  have s: "err = None" "serve S r s = (Key_Updated, s\<lparr>ss_disk := d, ss_sessions := retain tok (ss_sessions s)\<rparr>)"
    using assms(2,3,8) sv unfolding p by (auto simp: h_api_key_def not_post_def Let_def split: if_splits option.splits)
  have ok: "?k \<noteq> []" "d = (ss_disk s)((cfg_DataDir (sv_cfg S), os_temp (sv_os S)) := None,
      (cfg_DataDir (sv_cfg S), key_file) := Some \<lparr>fl_content = ?k @ [CHR 0x0A], fl_mode = 384\<rparr>)"
    using save_ok [OF sv [unfolded s(1)]] by simp_all
  have "loadAPIKey (sv_getenv S) (cfg_DataDir (sv_cfg S)) d = ?k"
    using ok assms(7) trim_space_newline [of ?k] by (simp add: loadAPIKey_def Let_def)
  then show ?thesis using assms(5) by (simp add: s(2) retain_def)
qed

theorem key_change_ends_sessions_witness:
  "ss_sessions (snd (serve small_service (post_to ''/api/admin/api-key'' [(''key'', ''fresh'')] (Some ''tok''))
     ((small_server fresh_store)\<lparr>ss_sessions := [''tok'' \<mapsto> 100, ''old'' \<mapsto> 90]\<rparr>))) = [''tok'' \<mapsto> 100]"
proof -
  let ?r = "post_to ''/api/admin/api-key'' [(''key'', ''fresh'')] (Some ''tok'')"
  let ?s = "(small_server fresh_store)\<lparr>ss_sessions := [''tok'' \<mapsto> 100, ''old'' \<mapsto> 90]\<rparr>"
  have "trim_space ''fresh'' = ''fresh''" by code_simp
  then have "fst (serve small_service ?r ?s) = Key_Updated"
    using requireAdmin_passes [of ?r "''tok''" ?s 100 small_service h_api_key]
    by (simp add: serve_def open_routes_def admin_routes_def h_api_key_def not_post_def Let_def contains_newline_def
        saveAPIKey_def) (simp add: post_to_def small_service_def contains_newline_def saveAPIKey_def Let_def)
  moreover have "fresh_temp (sv_os small_service) ''data'' key_disk"
    by (simp add: fresh_temp_def key_disk_def small_service_def key_file_def)
  ultimately show ?thesis
    using key_change_ends_sessions [of ?r "''tok''" ?s 100 small_service] by simp
qed

text \<open>
  A restart queues exactly the archives that were queued, crawling or indexing, each
  once and in table order, without changing any archive, and forgets the failures caused by rate
  limits.
\<close>

theorem restart_resumes:
  assumes "drv s = []"
  shows "sending (snd (startup now s)) = map (\<lambda>a. JobArchive a [])
      (map r_cid (filter (\<lambda>a. r_status a \<in> {arch_status.Queued, Crawling, Indexing}) (archives (db s))))
    \<and> archives (db (fst (startup now s))) = archives (db s)
    \<and> failures (db (fst (startup now s))) = filter (\<lambda>f. \<not> like ''%rate limited%'' (f_reason f)) (failures (db s))"
proof -
  let ?s1 = "s\<lparr>db := (db s)\<lparr>failures := filter (\<lambda>f. \<not> like ''%rate limited%'' (f_reason f)) (failures (db s))\<rparr>\<rparr>"
  let ?res = "map r_cid (filter (\<lambda>a. r_status a \<in> {arch_status.Queued, Crawling, Indexing}) (archives (db s)))"
  have "fold (\<lambda>c. EnqueueArchive now c []) cs (?s1, q) = (?s1, fold (\<lambda>c. enqueue (JobArchive c [])) cs q)"
    if "set cs \<subseteq> r_cid ` set (archives (db s))" for cs q
    using that
  proof (induction cs arbitrary: q)
    case (Cons c cs)
    then have "archive_exists c (db ?s1)" by (auto simp: archive_exists_def sql_exists_def list_ex_iff)
    then have "snd (AddArchive now c [] ?s1) = ?s1"
      using assms(1) by (simp add: AddArchive_run add_archive_db_def)
    then show ?case using Cons by (simp add: EnqueueArchive_def)
  qed simp
  note eq = this
  have send: "sending (fold (\<lambda>c. enqueue (JobArchive c [])) cs q) = sending q @ map (\<lambda>c. JobArchive c []) cs" for cs q
    by (induction cs arbitrary: q) simp_all
  obtain n where 1: "RequeueRateLimited s = (n, ?s1)"
    using Requeue_run [OF assms(1)] by (cases "RequeueRateLimited s") (simp add: sql_delete_def)
  have 2: "ResumableArchives ?s1 = (?res, ?s1)"
    using assms(1) by (simp add: ResumableArchives_def tx_simps comp_def)
  have "startup now s = fold (\<lambda>c. EnqueueArchive now c []) ?res (?s1, NewIndexer)"
    by (simp only: startup_def 1 2 Let_def prod.case)
  also have "\<dots> = (?s1, fold (\<lambda>c. enqueue (JobArchive c [])) ?res NewIndexer)" by (rule eq) auto
  finally show ?thesis by (simp add: send) (simp add: NewIndexer_def)
qed

theorem restart_resumes_witness:
  "sending (snd (startup 9 (snd (AddArchive 1 ''A'' [] fresh_store)))) = [JobArchive ''A'' []]"
proof -
  let ?s = "snd (AddArchive 1 ''A'' [] fresh_store)"
  have "drv ?s = []" by (simp add: AddArchive_run)
  moreover have "archives (db ?s) = [new_arch_row 1 ''A'' []]" by code_simp
  ultimately show ?thesis using restart_resumes [of ?s 9] by (simp add: new_arch_row_def)
qed

text \<open>
  Retrying needs no session and asks neither the denylist nor the review mode: for any
  request, a failed document that no archive lists is queued again.
\<close>

theorem retry_is_open:
  assumes "in_path r = ''/api/retry''" and "in_method r = ''POST''" and "drv (ss_store s) = []"
    and "trim_space (in_form r ''cid'') = c" and "c \<noteq> []"
    and "c \<in> f_cid ` set (failures (db (ss_store s)))" and "c \<notin> m_doc ` set (archive_docs (db (ss_store s)))"
  shows "ss_queue (snd (serve S r s)) = enqueue (JobDocs [c]) (ss_queue s)
    \<and> failure_count c (db (ss_store (snd (serve S r s)))) = None"
proof -
  have h: "serve S r s = h_retry S r s" using assms(1) by (simp add: serve_def open_routes_def)
  have f: "sql_exists f_cid c (failures (db (ss_store s)))" using assms(6) by (auto simp: sql_exists_def list_ex_iff)
  show ?thesis unfolding h using assms(2-5,7) f
    by (auto simp: h_retry_def not_post_def RetryFailure_run ArchivesContaining_def tx_simps Let_def filter_empty_conv image_iff
        failure_count_delete split: prod.splits)
qed

theorem retry_is_open_witness:
  "ss_queue (snd (serve small_service (post_to ''/api/retry'' [(''cid'', ''QmBad'')] None)
      (small_server (Deny 4 ''QmBad'' (RecordFailure 3 ''QmBad'' ''x'' fresh_store)))))
     = enqueue (JobDocs [''QmBad'']) NewIndexer"
proof -
  let ?st = "Deny 4 ''QmBad'' (RecordFailure 3 ''QmBad'' ''x'' fresh_store)"
  let ?r = "post_to ''/api/retry'' [(''cid'', ''QmBad'')] None"
  have e: "trim_space (in_form ?r ''cid'') = ''QmBad''" "drv ?st = []" "map f_cid (failures (db ?st)) = [''QmBad'']"
    "archive_docs (db ?st) = []" by code_simp+
  have "''QmBad'' \<in> f_cid ` set (failures (db ?st))" using e(3) by (metis list.set_intros(1) set_map)
  moreover have "''QmBad'' \<notin> m_doc ` set (archive_docs (db ?st))" using e(4) by simp
  ultimately show ?thesis
    using retry_is_open [of ?r "small_server ?st" "''QmBad''" small_service]
      e(1,2) by simp
qed

end
