(* ===== verification/Interference.thy ===== *)
theory Interference
  imports Server_Properties
begin

text \<open>
  What a request can do to the tables and the queue while the indexer is at work. The requests of
  \<open>src/server.go\<close> and the goroutines of \<open>src/indexer.go\<close> share the store and the queue;
  \<open>guarantee\<close> says what every request keeps, and it is what the steps of the indexer rely on.
  \<open>core_ok\<close> is the part of the consistency of the tables that survives every interleaving.
\<close>

section \<open>The part of the invariant that survives\<close>

definition core_ok :: "database \<Rightarrow> bool" where
  "core_ok d \<longleftrightarrow> docs_ok d \<and> labels_ok d \<and> failures_ok d \<and> settled_once d
     \<and> distinct (map r_cid (archives d)) \<and> distinct (map m_key (archive_docs d))"

text \<open>The tables of documents, labels and failures alone, for the lemmas on \<open>store_ok\<close>.\<close>

definition doc_part :: "database \<Rightarrow> database" where
  "doc_part d = d\<lparr>archives := [], archive_docs := []\<rparr>"

lemma core_ok_iff:
  "core_ok d \<longleftrightarrow> store_ok (doc_part d) \<and> distinct (map r_cid (archives d)) \<and> distinct (map m_key (archive_docs d))"
  by (auto simp: core_ok_def doc_part_def store_ok_def docs_ok_def labels_ok_def failures_ok_def settled_once_def
      members_ok_def is_failed_def attempts_def failure_count_def)

lemma store_ok_core: "store_ok d \<Longrightarrow> core_ok d"
  by (simp add: core_ok_def store_ok_def members_ok_def)

lemma core_ok_cong:
  assumes "documents d' = documents d" "documents_fts d' = documents_fts d" "labels d' = labels d"
    "failures d' = failures d" "map r_cid (archives d') = map r_cid (archives d)" "archive_docs d' = archive_docs d"
  shows "core_ok d' = core_ok d"
  using assms by (simp add: core_ok_def docs_ok_def labels_ok_def failures_ok_def settled_once_def
      is_failed_def attempts_def failure_count_def)

lemma doc_part_simps [simp]:
  "doc_part (upsert_failure u f d) = upsert_failure u f (doc_part d)"
  "doc_part (d\<lparr>failures := fs\<rparr>) = (doc_part d)\<lparr>failures := fs\<rparr>"
  "doc_part (update_arch a g d) = doc_part d" "failures (doc_part d) = failures d" "documents (doc_part d) = documents d"
  "is_indexed (doc_part d) = is_indexed d"
  by (simp_all add: doc_part_def upsert_failure_def update_arch_def is_indexed_def fun_eq_iff)

lemma doc_part_add: "doc_part (add_db e d) = add_db e (doc_part d)"
  by (cases d) (simp add: doc_part_def add_db_def upsert_doc_def Let_def stored_rowid_def split: option.split)

lemma doc_part_delete: "doc_part (delete_doc_db c d) = delete_doc_db c (doc_part d)"
  by (simp add: doc_part_def delete_doc_db_def delete_doc_members_def delete_failure_def delete_labels_def
      delete_doc_def delete_fts_def lower_counts_def doc_rowid_def sql_update_def sql_delete_def split: option.splits)

lemma update_arch_keys [simp]:
  "(\<And>r. r_cid (g r) = r_cid r) \<Longrightarrow> map r_cid (archives (update_arch a g d)) = map r_cid (archives d)"
  by (simp add: update_arch_def)

lemma core_add: "core_ok d \<Longrightarrow> core_ok (add_db e d)"
  by (simp add: core_ok_iff doc_part_add store_ok_add)

lemma core_bump: "core_ok d \<Longrightarrow> \<not> is_indexed d c \<Longrightarrow> core_ok (upsert_failure fail_bump (fail_row_of c 1 now r) d)"
  by (simp add: core_ok_iff store_ok_bump)

lemma core_skip: "core_ok d \<Longrightarrow> \<not> is_indexed d c \<Longrightarrow> 0 \<le> n \<Longrightarrow> core_ok (upsert_failure fail_set (fail_row_of c n now r) d)"
  by (simp add: core_ok_iff store_ok_skip)

lemma core_delete_failures: "core_ok d \<Longrightarrow> core_ok (d\<lparr>failures := sql_delete P (failures d)\<rparr>)"
  using store_ok_delete_failures [of "doc_part d" P] by (simp add: core_ok_iff)

lemma core_update: "core_ok d \<Longrightarrow> (\<And>r. r_cid (g r) = r_cid r) \<Longrightarrow> core_ok (update_arch a g d)"
  by (simp add: core_ok_iff)

lemma core_delete: "core_ok d \<Longrightarrow> core_ok (delete_doc_db c d)"
  by (simp add: core_ok_iff doc_part_delete store_ok_delete lower_counts_def)

lemma core_add_archive: "core_ok d \<Longrightarrow> core_ok (add_archive_db now c owner d)"
proof (cases "archive_exists c d")
  case True
  then show "core_ok d \<Longrightarrow> ?thesis" by (simp add: add_archive_db_def core_update)
next
  case False
  then show "core_ok d \<Longrightarrow> ?thesis"
    by (simp add: core_ok_iff add_archive_db_def archive_exists_def new_arch_row_def doc_part_def image_iff eq_commute)
qed

lemma core_set_docs:
  assumes "core_ok d" and "distinct docs"
  shows "core_ok (set_docs_db a docs d)"
proof -
  have "distinct (map m_key (map (member_row_of a) (enumerate 0 docs)))"
    using assms(2) by (rule new_members_distinct)
  moreover have "distinct (map m_key (sql_delete (\<lambda>m. m_arch m = a) (archive_docs d)))"
    using assms(1) by (intro distinct_sql_delete) (simp add: core_ok_def)
  ultimately show ?thesis
    using assms by (auto simp: core_ok_iff set_docs_distinct doc_part_def update_arch_def member_row_of_def)
qed

lemma core_remove_members: "core_ok d \<Longrightarrow> core_ok (fold (remove_member_db a) cs d)"
  by (induction cs arbitrary: d) (simp_all add: remove_member_db_def core_delete)

lemma core_delete_archive: "core_ok d \<Longrightarrow> core_ok (delete_archive_db a d)"
proof -
  assume "core_ok d"
  then have "core_ok (fold (remove_member_db a) (map m_doc (member_rows a d)) d)" by (rule core_remove_members)
  then show ?thesis
    by (simp add: delete_archive_db_def core_ok_iff doc_part_def delete_archive_row_def delete_members_def)
qed

section \<open>The guarantee\<close>

text \<open>The jobs that are submitted and not yet run, and the archives among them.\<close>

definition in_worker :: "phase \<Rightarrow> job set" where
  "in_worker p = (case p of Received j \<Rightarrow> {j} | Counted j \<Rightarrow> {j} | _ \<Rightarrow> {})"

definition jobs_in :: "job_queue \<Rightarrow> job set" where
  "jobs_in q = set (jobs q) \<union> set (sending q) \<union> in_worker (phase q)"

definition queued_archives :: "job_queue \<Rightarrow> cid set" where
  "queued_archives q = {a. \<exists>owner. JobArchive a owner \<in> jobs_in q}"

definition unfinished :: "database \<Rightarrow> cid set" where
  "unfinished d = r_cid ` {r \<in> set (archives d). r_status r \<in> {arch_status.Queued, Crawling, Indexing}}"

definition pending_in :: "cid \<Rightarrow> database \<Rightarrow> cid set" where
  "pending_in a d = {c \<in> m_doc ` set (member_rows a d). budget d c > 0}"

text \<open>
  What a request keeps: the tables, the archives it leaves unfinished and the members it makes
  pending are accounted for in the queue, members are never added and documents never indexed.
\<close>

definition guarantee :: "store \<times> job_queue \<Rightarrow> store \<times> job_queue \<Rightarrow> bool" where
  "guarantee x y \<longleftrightarrow> drv (fst x) = [] \<and> core_ok (db (fst x)) \<longrightarrow>
     drv (fst y) = [] \<and> core_ok (db (fst y)) \<and> phase (snd y) = phase (snd x)
     \<and> jobs_in (snd x) \<subseteq> jobs_in (snd y)
     \<and> (\<forall>cs. JobDocs cs \<in> jobs_in (snd y) \<longrightarrow> JobDocs cs \<in> jobs_in (snd x) \<or> length cs = 1)
     \<and> unfinished (db (fst y)) \<subseteq> unfinished (db (fst x)) \<union> queued_archives (snd y)
     \<and> (\<forall>a. set (member_rows a (db (fst y))) \<subseteq> set (member_rows a (db (fst x))))
     \<and> (\<forall>a. pending_in a (db (fst y)) \<subseteq> pending_in a (db (fst x)) \<or> a \<in> queued_archives (snd y))
     \<and> (\<forall>c. is_indexed (db (fst y)) c \<longrightarrow> is_indexed (db (fst x)) c)"

lemma queued_archives_mono: "jobs_in q \<subseteq> jobs_in q' \<Longrightarrow> queued_archives q \<subseteq> queued_archives q'"
  by (auto simp: queued_archives_def)

lemma guarantee_refl [simp]: "guarantee x x"
  by (simp add: guarantee_def)

lemma guaranteeD:
  assumes "guarantee x y" and "drv (fst x) = []" and "core_ok (db (fst x))"
  shows "drv (fst y) = []" "core_ok (db (fst y))" "phase (snd y) = phase (snd x)"
    "jobs_in (snd x) \<subseteq> jobs_in (snd y)"
    "JobDocs cs \<in> jobs_in (snd y) \<Longrightarrow> JobDocs cs \<in> jobs_in (snd x) \<or> length cs = 1"
    "unfinished (db (fst y)) \<subseteq> unfinished (db (fst x)) \<union> queued_archives (snd y)"
    "set (member_rows a (db (fst y))) \<subseteq> set (member_rows a (db (fst x)))"
    "pending_in a (db (fst y)) \<subseteq> pending_in a (db (fst x)) \<or> a \<in> queued_archives (snd y)"
    "is_indexed (db (fst y)) c \<Longrightarrow> is_indexed (db (fst x)) c"
  using assms unfolding guarantee_def by simp_all

lemma guaranteeI:
  assumes "drv s = [] \<Longrightarrow> core_ok (db s) \<Longrightarrow> drv t = []" and "drv s = [] \<Longrightarrow> core_ok (db s) \<Longrightarrow> core_ok (db t)"
    and "phase q' = phase q" and "jobs_in q \<subseteq> jobs_in q'"
    and "\<And>cs. JobDocs cs \<in> jobs_in q' \<Longrightarrow> JobDocs cs \<in> jobs_in q \<or> length cs = 1"
    and "drv s = [] \<Longrightarrow> core_ok (db s) \<Longrightarrow> unfinished (db t) \<subseteq> unfinished (db s) \<union> queued_archives q'"
    and "\<And>a. drv s = [] \<Longrightarrow> core_ok (db s) \<Longrightarrow> set (member_rows a (db t)) \<subseteq> set (member_rows a (db s))"
    and "\<And>a. drv s = [] \<Longrightarrow> core_ok (db s) \<Longrightarrow> pending_in a (db t) \<subseteq> pending_in a (db s) \<or> a \<in> queued_archives q'"
    and "\<And>c. drv s = [] \<Longrightarrow> core_ok (db s) \<Longrightarrow> is_indexed (db t) c \<Longrightarrow> is_indexed (db s) c"
  shows "guarantee (s, q) (t, q')"
  unfolding guarantee_def fst_conv snd_conv using assms by simp

lemma guarantee_trans:
  assumes xy: "guarantee x y" and yz: "guarantee y z"
  shows "guarantee x z"
  unfolding guarantee_def
proof (rule impI)
  assume x: "drv (fst x) = [] \<and> core_ok (db (fst x))"
  note g = guaranteeD [OF xy x [THEN conjunct1] x [THEN conjunct2]]
  note h = guaranteeD [OF yz g(1,2)]
  have m: "queued_archives (snd y) \<subseteq> queued_archives (snd z)" using h(4) by (rule queued_archives_mono)
  have "pending_in a (db (fst z)) \<subseteq> pending_in a (db (fst x)) \<or> a \<in> queued_archives (snd z)" for a
    using g(8) [of a] h(8) [of a] m by blast
  moreover have "set (member_rows a (db (fst z))) \<subseteq> set (member_rows a (db (fst x)))" for a
    using g(7) [of a] h(7) [of a] by (rule subset_trans [rotated])
  moreover have "JobDocs cs \<in> jobs_in (snd z) \<Longrightarrow> JobDocs cs \<in> jobs_in (snd x) \<or> length cs = 1" for cs
    using g(5) [of cs] h(5) [of cs] by blast
  moreover have "unfinished (db (fst z)) \<subseteq> unfinished (db (fst x)) \<union> queued_archives (snd z)"
    using g(6) h(6) m by blast
  ultimately show "drv (fst z) = [] \<and> core_ok (db (fst z)) \<and> phase (snd z) = phase (snd x)
     \<and> jobs_in (snd x) \<subseteq> jobs_in (snd z)
     \<and> (\<forall>cs. JobDocs cs \<in> jobs_in (snd z) \<longrightarrow> JobDocs cs \<in> jobs_in (snd x) \<or> length cs = 1)
     \<and> unfinished (db (fst z)) \<subseteq> unfinished (db (fst x)) \<union> queued_archives (snd z)
     \<and> (\<forall>a. set (member_rows a (db (fst z))) \<subseteq> set (member_rows a (db (fst x))))
     \<and> (\<forall>a. pending_in a (db (fst z)) \<subseteq> pending_in a (db (fst x)) \<or> a \<in> queued_archives (snd z))
     \<and> (\<forall>c. is_indexed (db (fst z)) c \<longrightarrow> is_indexed (db (fst x)) c)"
    using g(3,9) h(1,2,3,9) subset_trans [OF g(4) h(4)] by simp
qed

lemma guarantee_db:
  assumes "db s' = db s" and "drv s = [] \<Longrightarrow> drv s' = []"
  shows "guarantee (s, q) (s', q)"
  using assms by (simp add: guarantee_def)

section \<open>The operations of the handlers\<close>

lemma jobs_in_enqueue [simp]: "jobs_in (enqueue j q) = insert j (jobs_in q)"
  by (auto simp: jobs_in_def enqueue_def)

lemma phase_enqueue [simp]: "phase (enqueue j q) = phase q"
  by (simp add: enqueue_def)

lemma queued_archives_enqueue [simp]:
  "queued_archives (enqueue (JobArchive a owner) q) = insert a (queued_archives q)"
  "queued_archives (enqueue (JobDocs cs) q) = queued_archives q"
  by (auto simp: queued_archives_def)

lemma pending_in_cong:
  assumes "documents d' = documents d" "failures d' = failures d" "archive_docs d' = archive_docs d"
  shows "pending_in a d' = pending_in a d"
  using assms by (simp add: pending_in_def budget_def is_indexed_def attempts_def failure_count_def member_rows_def)

lemma guarantee_tables:
  assumes "documents (db s') = documents (db s)" "documents_fts (db s') = documents_fts (db s)"
    "labels (db s') = labels (db s)" "failures (db s') = failures (db s)" "archives (db s') = archives (db s)"
    "archive_docs (db s') = archive_docs (db s)" and "drv s = [] \<Longrightarrow> drv s' = []"
  shows "guarantee (s, q) (s', q)"
  using assms core_ok_cong [of "db s'" "db s"] pending_in_cong [of "db s'" "db s"]
  by (simp add: guarantee_def unfinished_def member_rows_def is_indexed_def)

lemma unfinished_alt:
  "unfinished d = fst ` {p \<in> set (map (\<lambda>r. (r_cid r, r_status r)) (archives d)).
     snd p \<in> {arch_status.Queued, Crawling, Indexing}}"
  by (force simp: unfinished_def image_iff)

lemma unfinished_update:
  assumes "\<And>r. r_cid (g r) = r_cid r" and "\<And>r. r_status (g r) = r_status r"
  shows "unfinished (update_arch a g d) = unfinished d"
proof -
  have "map (\<lambda>r. (r_cid r, r_status r)) (archives (update_arch a g d)) = map (\<lambda>r. (r_cid r, r_status r)) (archives d)"
    by (simp add: update_arch_def sql_update_def assms)
  then show ?thesis by (simp only: unfinished_alt)
qed

lemma unfinished_add_archive: "unfinished (add_archive_db now a owner d) \<subseteq> insert a (unfinished d)"
  using unfinished_update [of "\<lambda>r. r\<lparr>r_owner := owner\<rparr>" a d]
  by (auto simp: add_archive_db_def unfinished_def new_arch_row_def)

lemma add_archive_frame [simp]:
  "documents (add_archive_db now a owner d) = documents d" "failures (add_archive_db now a owner d) = failures d"
  "archive_docs (add_archive_db now a owner d) = archive_docs d"
  by (simp_all add: add_archive_db_def)

lemma AddArchive_db:
  assumes "drv s = []"
  shows "db (snd (AddArchive now a owner s)) = add_archive_db now a (trim_space owner) (db s)"
    "drv (snd (AddArchive now a owner s)) = []"
  using assms by (simp_all add: AddArchive_run)

lemma guarantee_archive:
  "guarantee (s, q) (snd (AddArchive now a owner s), enqueue (JobArchive a owner) q)"
proof (rule guaranteeI)
  show "unfinished (db (snd (AddArchive now a owner s))) \<subseteq> unfinished (db s) \<union> queued_archives (enqueue (JobArchive a owner) q)"
    if "drv s = []"
    using that unfinished_add_archive [of now a "trim_space owner" "db s"] by (auto simp: AddArchive_db)
  show "pending_in b (db (snd (AddArchive now a owner s))) \<subseteq> pending_in b (db s)
      \<or> b \<in> queued_archives (enqueue (JobArchive a owner) q)" if "drv s = []" for b
    using that pending_in_cong [of "db (snd (AddArchive now a owner s))" "db s"] by (simp add: AddArchive_db)
qed (auto simp: AddArchive_db core_add_archive member_rows_def is_indexed_def)

lemma guarantee_docs: "guarantee (s, q) (s, enqueue (JobDocs [c]) q)"
  by (auto simp: guarantee_def)

lemma jobs_in_archives:
  "jobs_in (snd (fold (\<lambda>a. EnqueueArchive now a []) archs (s, q))) = jobs_in q \<union> (\<lambda>a. JobArchive a []) ` set archs"
  by (induction archs arbitrary: s q) (auto simp: EnqueueArchive_def)

lemma phase_archives: "phase (snd (fold (\<lambda>a. EnqueueArchive now a []) archs (s, q))) = phase q"
  by (induction archs arbitrary: s q) (auto simp: EnqueueArchive_def)

lemma guarantee_archives: "guarantee (s, q) (fold (\<lambda>a. EnqueueArchive now a []) archs (s, q))"
proof (induction archs arbitrary: s q)
  case (Cons a archs)
  show ?case
    using guarantee_trans [OF guarantee_archive [of s q now a "[]"] Cons [of "snd (AddArchive now a [] s)" "enqueue (JobArchive a []) q"]]
    by (simp add: EnqueueArchive_def)
qed simp

lemma budget_delete_failure:
  "x \<noteq> c \<Longrightarrow> budget (delete_failure c d) x = budget d x"
  by (simp add: budget_def is_indexed_def attempts_def failure_count_delete)

lemma pending_in_delete_failure:
  "pending_in a (delete_failure c d) \<subseteq> pending_in a d \<union> ({c} \<inter> m_doc ` set (member_rows a d))"
  by (auto simp: pending_in_def member_rows_def) (metis budget_delete_failure)

lemma guarantee_retry:
  assumes "s' = s\<lparr>db := delete_failure c (db s)\<rparr>" and "guarantee (s', q) (t, q')"
    and "\<And>a. c \<in> m_doc ` set (member_rows a (db s)) \<Longrightarrow> a \<in> queued_archives q'"
    and "phase q' = phase q \<and> jobs_in q \<subseteq> jobs_in q' \<and> (\<forall>cs. JobDocs cs \<in> jobs_in q' \<longrightarrow> JobDocs cs \<in> jobs_in q \<or> length cs = 1)"
  shows "guarantee (s, q) (t, q')"
proof -
  have s': "drv (fst (s', q)) = []" "core_ok (db (fst (s', q)))" if "drv s = []" "core_ok (db s)"
    using that core_delete_failures [of "db s" "\<lambda>f. f_cid f = c"] by (simp_all add: assms(1) delete_failure_def)
  note g = guaranteeD [OF assms(2) s']
  have d: "unfinished (db s') = unfinished (db s)" "\<And>a. member_rows a (db s') = member_rows a (db s)"
    "\<And>x. is_indexed (db s') x = is_indexed (db s) x"
    by (simp_all add: assms(1) unfinished_def member_rows_def is_indexed_def)
  have p: "pending_in a (db t) \<subseteq> pending_in a (db s) \<or> a \<in> queued_archives q'"
    if "drv s = []" "core_ok (db s)" for a
  proof -
    have "pending_in a (db s') \<subseteq> pending_in a (db s) \<or> a \<in> queued_archives q'"
      using pending_in_delete_failure [of a c "db s"] assms(3) [of a] by (auto simp: assms(1))
    then show ?thesis using g(8) [OF that that, of a] by auto
  qed
  show ?thesis
    using g(1,2,6,7,9) p assms(4) by (intro guaranteeI) (simp_all add: d)
qed

section \<open>Removing documents and archives\<close>

lemma unfinished_delete [simp]: "unfinished (delete_doc_db c d) = unfinished d"
proof -
  have "map (\<lambda>r. (r_cid r, r_status r)) (archives (delete_doc_db c d)) = map (\<lambda>r. (r_cid r, r_status r)) (archives d)"
    by (simp add: lower_counts_def sql_update_def)
  then show ?thesis by (simp only: unfinished_alt)
qed

lemma budget_delete_doc: "x \<noteq> c \<Longrightarrow> budget (delete_doc_db c d) x = budget d x"
  by (simp add: budget_def is_indexed_delete attempts_def failure_count_delete_doc)

lemma guarantee_delete_doc: "guarantee (s, q) (snd (DeleteDocument c s), q)"
proof (rule guaranteeI)
  show "pending_in a (db (snd (DeleteDocument c s))) \<subseteq> pending_in a (db s) \<or> a \<in> queued_archives q" if "drv s = []" for a
    using that by (auto simp: DeleteDocument_run Let_def pending_in_def member_rows_delete budget_delete_doc)
qed (auto simp: DeleteDocument_run Let_def core_delete member_rows_delete is_indexed_delete split: if_splits)

lemma unfinished_remove_members [simp]: "unfinished (fold (remove_member_db a) cs d) = unfinished d"
  by (induction cs arbitrary: d) (simp_all add: remove_member_db_def)

lemma budget_remove_members:
  "other_members a x d > 0 \<Longrightarrow> budget (fold (remove_member_db a) cs d) x = budget d x"
proof (induction cs arbitrary: d)
  case (Cons c cs)
  have "budget (remove_member_db a c d) x = budget d x"
    using Cons.prems by (cases "x = c") (simp_all add: remove_member_db_def budget_delete_doc)
  then show ?case using Cons.IH [of "remove_member_db a c d"] Cons.prems by simp
qed simp

lemma unfinished_delete_archive: "unfinished (delete_archive_db a d) \<subseteq> unfinished d"
proof -
  let ?d = "fold (remove_member_db a) (map m_doc (member_rows a d)) d"
  have "unfinished (delete_archive_db a d) \<subseteq> unfinished ?d"
    by (auto simp: unfinished_def delete_archive_db_def delete_archive_row_def delete_members_def)
  then show ?thesis by simp
qed

lemma pending_in_delete_archive: "pending_in b (delete_archive_db a d) \<subseteq> pending_in b d"
proof (cases "b = a")
  case True
  then show ?thesis by (simp add: pending_in_def delete_archive_gone)
next
  case False
  let ?d = "fold (remove_member_db a) (map m_doc (member_rows a d)) d"
  have "budget (delete_archive_db a d) x = budget d x" if "x \<in> m_doc ` set (member_rows b d)" for x
  proof -
    have "other_members a x d > 0"
      using that False by (auto simp: other_members_def member_rows_def filter_empty_conv)
    then have "budget ?d x = budget d x" by (rule budget_remove_members)
    moreover have "budget (delete_archive_db a d) x = budget ?d x"
      by (simp add: delete_archive_db_def delete_archive_row_def delete_members_def budget_def is_indexed_def
          attempts_def failure_count_def)
    ultimately show ?thesis by simp
  qed
  then show ?thesis using False by (auto simp: pending_in_def delete_archive_rows)
qed

lemma guarantee_delete_archive: "guarantee (s, q) (snd (DeleteArchive a s), q)"
proof (rule guaranteeI)
  show "pending_in b (db (snd (DeleteArchive a s))) \<subseteq> pending_in b (db s) \<or> b \<in> queued_archives q" if "drv s = []" for b
    using that pending_in_delete_archive by (simp add: DeleteArchive_run)
  show "unfinished (db (snd (DeleteArchive a s))) \<subseteq> unfinished (db s) \<union> queued_archives q" if "drv s = []"
    using that unfinished_delete_archive [of a "db s"] by (auto simp: DeleteArchive_run)
  show "set (member_rows b (db (snd (DeleteArchive a s)))) \<subseteq> set (member_rows b (db s))" if "drv s = []" for b
    using that by (cases "b = a") (simp_all add: DeleteArchive_run delete_archive_rows delete_archive_gone)
qed (auto simp: DeleteArchive_run core_delete_archive delete_archive_indexed split: if_splits)

section \<open>Reading\<close>

lemma reads [simp]:
  assumes "drv s = []"
  shows "snd (IsDenied c s) = s" "snd (IndexedCID c s) = s" "snd (Suggest kw s) = s" "snd (Failures s) = s"
    "snd (ArchivesContaining c s) = s" "snd (Submissions s) = s" "snd (ArchiveFailures c s) = s"
    "snd (ArchiveRefs cs s) = s" "snd (Stats s) = s" "snd (GetArchive c s) = s"
  using assms
  by (simp_all add: IsDenied_def IndexedCID_def Suggest_def Failures_def ArchivesContaining_def Submissions_def
      ArchiveFailures_def ArchiveRefs_def Stats_run GetArchive_run tx_simps Let_def)

lemma fill_all_run [simp]: "drv s = [] \<Longrightarrow> snd (fill_all as s) = s"
proof (induction as)
  case (Cons a as)
  then obtain a' as' where "fillArchiveProgress a s = (a', s)" "fill_all as s = (as', s)"
    by (metis fillArchiveProgress_run prod.collapse)
  then show ?case by simp
qed simp

lemma reads_more [simp]:
  assumes "drv s = []"
  shows "snd (Archives s) = s" "snd (SearchArchives kw s) = s" "snd (enrich es s) = s" "snd (SearchPage F kw off n s) = s"
proof -
  show a: "snd (Archives s) = s" using assms by (simp add: Archives_def tx_simps)
  show "snd (SearchArchives kw s) = s" using a by (cases "Archives s") (simp add: SearchArchives_def Let_def)
  show "snd (enrich es s) = s"
  proof (induction es)
    case (Cons e es)
    then show ?case using reads(8) [OF assms, of "e_archives e"] by (simp add: Let_def case_prod_beta)
  qed simp
  have "snd (let (results, s3) = scanEntries rows s in ((results, tot), s3)) = s" for rows and tot :: int
    using scanEntries_run [OF assms, of rows] by (cases "scanEntries rows s") simp
  then show "snd (SearchPage F kw off n s) = s" using assms by (simp add: SearchPage_def tx_simps Let_def)
qed

section \<open>The handlers\<close>

abbreviation shared :: "'w server \<Rightarrow> store \<times> job_queue" where
  "shared s \<equiv> (ss_store s, ss_queue s)"

lemma guarantee_run: "(drv s = [] \<Longrightarrow> guarantee (s, q) y) \<Longrightarrow> guarantee (s, q) y"
  by (cases "drv s = []") (simp_all add: guarantee_def)

lemma guarantee_read: "(drv s = [] \<Longrightarrow> s' = s) \<Longrightarrow> guarantee (s, q) (s', q)"
  by (cases "drv s = []") (auto simp: guarantee_def)

lemma RecordSearch_db [simp]: "db (RecordSearch now kw n s) = db s" "drv (RecordSearch now kw n s) = drv s"
  by (simp_all add: RecordSearch_def Let_def)

lemma reading_handlers:
  "guarantee (shared s) (shared (snd (h_page n S r s)))" "guarantee (shared s) (shared (snd (h_suggest S r s)))"
  "guarantee (shared s) (shared (snd (h_recent S r s)))" "guarantee (shared s) (shared (snd (h_stats S r s)))"
  "guarantee (shared s) (shared (snd (h_failures S r s)))" "guarantee (shared s) (shared (snd (h_archives S r s)))"
  "guarantee (shared s) (shared (snd (h_archives_search S r s)))" "guarantee (shared s) (shared (snd (h_submissions S r s)))"
  by (simp_all add: quiet_handlers Let_def case_prod_beta guarantee_read)

lemma session_handlers:
  "guarantee (shared s) (shared (snd (h_login S r s)))" "guarantee (shared s) (shared (snd (h_logout S r s)))"
  "guarantee (shared s) (shared (snd (h_session S r s)))" "guarantee (shared s) (shared (snd (h_api_key S r s)))"
  by (simp_all add: h_login_def h_logout_def h_session_def h_api_key_def Let_def split: prod.split option.split sum.split)

lemma archive_handler: "guarantee (shared s) (shared (snd (h_archive S r s)))"
proof -
  let ?c = "trim_space (in_query r ''cid'')"
  obtain o1 st where g: "GetArchive ?c (ss_store s) = (o1, st)" by fastforce
  then have "drv (ss_store s) = [] \<Longrightarrow> st = ss_store s" using reads(10) by (metis snd_conv)
  then show ?thesis using g
    by (auto simp: h_archive_def Let_def case_prod_beta split: option.split intro!: guarantee_read)
qed

lemma search_handler: "guarantee (shared s) (shared (snd (h_search S r s)))"
proof -
  have "guarantee (st, q) (snd (enrich es (if b then RecordSearch now kw tot (snd (SearchPage F kw off n st))
      else snd (SearchPage F kw off n st))), q)" for st q es b now kw tot F off n
  proof (cases "drv st = []")
    case True
    then show ?thesis by (auto intro!: guarantee_db)
  qed (simp add: guarantee_def)
  then show ?thesis by (simp add: h_search_def Let_def case_prod_beta)
qed

lemma ipfs_handler: "guarantee (shared s) (shared (snd (h_ipfs S r s)))"
proof -
  have "guarantee (shared s) (shared (snd (indexedIPFS nxt S r s)))"
    if "\<And>s'. shared (snd (nxt S r s')) = shared s'" for nxt
  proof -
    have "guarantee (shared s) (snd (IndexedCID c (ss_store s)), ss_queue s)" for c by (rule guarantee_read) simp
    then show ?thesis using that by (auto simp: indexedIPFS_def Let_def case_prod_beta split: option.split)
  qed
  moreover have "shared (snd (ipfsAPIProxy api S r s')) = shared s'" for api s'
    by (simp add: ipfsAPIProxy_def Let_def split: prod.split sum.split)
  moreover have "shared (snd (gatewayProxy gw S r s')) = shared s'" for gw s'
    by (simp add: gatewayProxy_def Let_def split: prod.split sum.split)
  ultimately show ?thesis by (simp add: h_ipfs_def)
qed

lemma moderation_handlers:
  "guarantee (shared s) (shared (snd (h_review_mode S r s)))" "guarantee (shared s) (shared (snd (h_deny S r s)))"
proof -
  have "guarantee (st, q) (SetReviewEnabled b st, q)" for st q b
    by (rule guarantee_run, rule guarantee_tables) (simp_all add: Review_run)
  then show "guarantee (shared s) (shared (snd (h_review_mode S r s)))" by (simp add: h_review_mode_def Let_def)
  have "guarantee (st, q) (Deny now c st, q)" for st q now c
    by (rule guarantee_run, rule guarantee_tables) (simp_all add: Deny_run)
  then show "guarantee (shared s) (shared (snd (h_deny S r s)))" by (simp add: h_deny_def Let_def)
qed

lemma SaveAll_read: "guarantee x (st, q) \<Longrightarrow> guarantee x (SaveAll st, q)"
  by (rule guarantee_trans [of x "(st, q)"]) (simp_all add: guarantee_read SaveAll_run)

lemma deleting_handlers:
  "guarantee (shared s) (shared (snd (h_delete_archive S r s)))"
  "guarantee (shared s) (shared (snd (h_delete_document S r s)))"
  using guarantee_delete_archive [of "ss_store s"] guarantee_delete_doc [of "ss_store s"]
  by (simp_all add: h_delete_archive_def h_delete_document_def Let_def case_prod_beta SaveAll_read)

lemma guarantee_submission: "guarantee (st, q) (AddSubmission now c k owner st, q)"
  by (rule guarantee_run, rule guarantee_tables) (simp_all add: AddSubmission_run)

lemma guarantee_take: "guarantee (st, q) (snd (TakeSubmission c st), q)"
  by (rule guarantee_run, rule guarantee_tables) (simp_all add: TakeSubmission_run split: option.split)

lemma shared_enqueue_archive:
  "shared (enqueue_archive S c owner s) = EnqueueArchive (server_now S s) c owner (shared s)"
  by (simp add: enqueue_archive_def case_prod_beta)

lemma guarantee_enqueue_archive: "guarantee (shared s) (shared (enqueue_archive S c owner s))"
  by (simp only: shared_enqueue_archive EnqueueArchive_def guarantee_archive fst_conv snd_conv)

lemma guarantee_enqueue_docs: "guarantee (shared s) (shared (enqueue_docs [c] s))"
  by (simp add: guarantee_docs)

lemma submit_handler: "guarantee (shared s) (shared (snd (h_submit S r s)))"
proof (rule guarantee_run)
  assume s: "drv (ss_store s) = []"
  let ?c = "trim_space (in_form r ''cid'')"
  obtain denied where d: "IsDenied ?c (ss_store s) = (denied, ss_store s)" using reads(1) [OF s] by (metis prod.collapse)
  have "guarantee (shared s) (ss_store (enqueue_archive S c owner (s\<lparr>ss_world := w\<rparr>)), enqueue (JobArchive c owner) (ss_queue s))"
    for c owner w
    using guarantee_enqueue_archive [of "s\<lparr>ss_world := w\<rparr>" S c owner] by simp
  then show "guarantee (shared s) (shared (snd (h_submit S r s)))"
    using d guarantee_docs guarantee_submission by (simp add: h_submit_def Let_def split: sum.split prod.split)
qed

lemma approve_handler: "guarantee (shared s) (shared (snd (h_approve S r s)))"
proof -
  let ?c = "trim_space (in_form r ''cid'')"
  let ?s1 = "s\<lparr>ss_store := snd (TakeSubmission ?c (ss_store s))\<rparr>"
  have "guarantee (shared s) (shared ?s1)" using guarantee_take [of "ss_store s"] by simp
  then have "guarantee (shared s) (shared (enqueue_archive S ?c owner ?s1))"
    "guarantee (shared s) (shared (enqueue_docs [?c] ?s1))" "guarantee (shared s) (shared ?s1)" for owner
    using guarantee_trans [OF _ guarantee_enqueue_archive] guarantee_trans [OF _ guarantee_enqueue_docs] by blast+
  then show ?thesis by (simp add: h_approve_def Let_def case_prod_beta split: option.split)
qed

lemma fold_enqueue_archive:
  "shared (fold (\<lambda>a. enqueue_archive S a []) archs s) = fold (\<lambda>a. EnqueueArchive (server_now S s) a []) archs (shared s)"
proof (induction archs arbitrary: s)
  case (Cons a archs)
  then show ?case using shared_enqueue_archive [of S a "[]" s] by (simp del: enqueue_archive_simps(4))
qed simp

lemma retry_handler: "guarantee (shared s) (shared (snd (h_retry S r s)))"
proof (rule guarantee_run)
  assume drv: "drv (ss_store s) = []"
  let ?c = "trim_space (in_form r ''cid'')"
  let ?st = "(ss_store s)\<lparr>db := delete_failure ?c (db (ss_store s))\<rparr>"
  let ?s1 = "s\<lparr>ss_store := ?st\<rparr>"
  let ?archs = "map m_arch (filter (\<lambda>m. m_doc m = ?c) (archive_docs (db (ss_store s))))"
  let ?found = "?c \<in> f_cid ` set (failures (db (ss_store s)))"
  have r: "RetryFailure ?c (ss_store s) = (?found, ?st)" using drv by (simp add: RetryFailure_run)
  have a: "ArchivesContaining ?c ?st = (?archs, ?st)" using drv by (simp add: ArchivesContaining_def tx_simps)
  have members: "b \<in> set ?archs" if "?c \<in> m_doc ` set (member_rows b (db (ss_store s)))" for b
    using that by (auto simp: member_rows_def)
  have "guarantee (shared s) (shared ?s1)" if "\<not> ?found"
  proof -
    have "sql_delete (\<lambda>f. f_cid f = ?c) (failures (db (ss_store s))) = failures (db (ss_store s))"
      using that by (intro sql_delete_id) (metis image_eqI)
    then have "delete_failure ?c (db (ss_store s)) = db (ss_store s)" by (simp add: delete_failure_def)
    then show ?thesis by simp
  qed
  moreover have "guarantee (shared s) (shared (fold (\<lambda>a. enqueue_archive S a []) ?archs ?s1))"
  proof -
    obtain t q' where f: "fold (\<lambda>a. EnqueueArchive (server_now S ?s1) a []) ?archs (shared ?s1) = (t, q')" by fastforce
    have "guarantee (ss_store s, ss_queue s) (t, q')"
    proof (rule guarantee_retry [OF refl])
      show "guarantee (?st, ss_queue s) (t, q')" using guarantee_archives [of ?st "ss_queue s" "server_now S ?s1" ?archs] f by simp
      note j = jobs_in_archives [of "server_now S ?s1" ?archs ?st "ss_queue s"]
        phase_archives [of "server_now S ?s1" ?archs ?st "ss_queue s"]
      then show "phase q' = phase (ss_queue s) \<and> jobs_in (ss_queue s) \<subseteq> jobs_in q'
          \<and> (\<forall>cs. JobDocs cs \<in> jobs_in q' \<longrightarrow> JobDocs cs \<in> jobs_in (ss_queue s) \<or> length cs = 1)"
        using f by auto
      show "b \<in> queued_archives q'" if "?c \<in> m_doc ` set (member_rows b (db (ss_store s)))" for b
        using members [OF that] j(1) f by (auto simp: queued_archives_def)
    qed
    then show ?thesis using f by (simp only: fold_enqueue_archive)
  qed
  moreover have "guarantee (shared s) (shared (enqueue_docs [?c] ?s1))" if "?archs = []"
    using that members by (simp, intro guarantee_retry [OF refl guarantee_docs]) (auto simp: queued_archives_def)
  ultimately show "guarantee (shared s) (shared (snd (h_retry S r s)))"
    unfolding h_retry_def Let_def using r a by (simp del: length_map)
qed

lemma requireAdmin_guarantee:
  assumes "\<And>s. guarantee (shared s) (shared (snd (h S r s)))"
  shows "guarantee (shared s) (shared (snd (requireAdmin h S r s)))"
  using assms [of "s\<lparr>ss_sessions := x\<rparr>" for x] by (simp add: requireAdmin_def Let_def case_prod_beta)

lemmas handlers = reading_handlers session_handlers archive_handler search_handler ipfs_handler moderation_handlers
  deleting_handlers submit_handler approve_handler retry_handler

lemma serve_guarantee: "guarantee (shared s) (shared (snd (serve S r s)))"
proof (cases "map_of open_routes (in_path r) :: 'a handler option")
  case None
  show ?thesis
  proof (cases "map_of admin_routes (in_path r) :: 'a handler option")
    case None2: None
    then show ?thesis using None by (simp add: serve_def handlers)
  next
    case (Some h)
    then have "h \<in> {h_submissions, h_api_key, h_review_mode, h_approve, h_deny, h_delete_archive, h_delete_document}"
      by (auto simp: admin_routes_def split: if_splits)
    then have "guarantee (shared s') (shared (snd (h S r s')))" for s' by (auto simp: handlers)
    then have "guarantee (shared s) (shared (snd (requireAdmin h S r s)))" by (rule requireAdmin_guarantee)
    then show ?thesis using None Some by (simp add: serve_def)
  qed
next
  case (Some h)
  then have "h \<in> {h_page ''admin'', h_search, h_suggest, h_recent, h_stats, h_submit, h_failures, h_retry, h_archives,
      h_archives_search, h_archive, h_login, h_logout, h_session}"
    by (auto simp: open_routes_def split: if_splits)
  then have "guarantee (shared s) (shared (snd (h S r s)))" by (auto simp: handlers)
  then show ?thesis using Some by (simp add: serve_def)
qed

end
