(* ===== verification/Handlers.thy ===== *)
theory Handlers
  imports Interference
begin

text \<open>
  The handlers of \<open>src/server.go\<close> that make several calls on the shared state, one call at a time:
  \<open>/api/submit\<close>, \<open>/api/retry\<close> and \<open>/api/admin/approve\<close>. Each runs in a goroutine of its own, so
  between two of its calls another request, the indexer or a worker may come in; a \<open>handler_state\<close> says which call is
  next and what the goroutine remembers. Every other handler makes at most one call that changes the
  store or the queue and is taken whole. \<open>run_whole\<close> shows that a goroutine that is never interrupted is the
  handler of \<open>Server\<close>. A goroutine whose job waits for room in the channel keeps it in \<open>sending\<close>; it
  may go on here before there is room, which only adds interleavings.
\<close>

section \<open>A handler as a sequence of calls\<close>

datatype handler_state =
    Checking cid string
  | Keying cid string
  | Classifying cid string
  | Choosing cid node_kind string
  | Reviewing cid sub_kind string
  | Retrying cid
  | Locating cid
  | Taking cid
  | Registering cid string "cid list" "int \<Rightarrow> reply"
  | Posting job "cid list" "int \<Rightarrow> reply"
  | Answering "int \<Rightarrow> reply"
  | Finished reply

text \<open>
  \<open>Registering c owner as\<close> and \<open>Posting j as\<close> are the two calls of \<open>EnqueueArchive\<close>, with the archives that
  come after in the loop of \<open>/api/retry\<close>; \<open>Answering\<close> reads the number of queued jobs for the reply.
\<close>

fun submit_next :: "'w service \<Rightarrow> handler_state \<Rightarrow> 'w server \<Rightarrow> handler_state \<times> 'w server" where
  "submit_next S (Checking c owner) s =
     (case IsDenied c (ss_store s) of (denied, st) \<Rightarrow>
        (if denied then Finished (JSON_Error 403 ''this CID has been denylisted by an administrator'') else Keying c owner,
         s\<lparr>ss_store := st\<rparr>))"
| "submit_next S (Keying c owner) s =
     (if server_key S s = [] then Finished No_Key_Reply else Classifying c owner, s)"
| "submit_next S (Classifying c owner) s =
     (case Classify (sv_net S) (crawler_of (sv_cfg S)) c (ss_world s) of
        (Inl e, w) \<Rightarrow> (Finished (JSON_Error 502 (''could not fetch CID from gateway: '' @ e)), s\<lparr>ss_world := w\<rparr>)
      | (Inr kind, w) \<Rightarrow> (Choosing c kind owner, s\<lparr>ss_world := w\<rparr>))"
| "submit_next S (Choosing c kind owner) s =
     (if review_enabled (ss_store s) then Reviewing c (if kind = KindDir then SubArchive else SubDocument) owner
      else if kind = KindDir then Registering c owner [] (Submit_Reply SubArchive c)
      else Posting (JobDocs [c]) [] (Submit_Reply SubDocument c), s)"
| "submit_next S (Reviewing c k owner) s =
     (Finished (Review_Reply k c), s\<lparr>ss_store := AddSubmission (server_now S s) c k owner (ss_store s)\<rparr>)"
| "submit_next S t s = (t, s)"

fun handler_next :: "'w service \<Rightarrow> handler_state \<Rightarrow> 'w server \<Rightarrow> handler_state \<times> 'w server" where
  "handler_next S (Retrying c) s =
     (case RetryFailure c (ss_store s) of (found, st) \<Rightarrow>
        (if \<not> found then Finished (JSON_Error 404 ''no failed document with that cid'') else Locating c, s\<lparr>ss_store := st\<rparr>))"
| "handler_next S (Locating c) s =
     (case ArchivesContaining c (ss_store s) of (archs, st) \<Rightarrow>
        (case archs of [] \<Rightarrow> Posting (JobDocs [c]) [] (Retry_Reply c) | a # as \<Rightarrow> Registering a [] as (Retry_Reply c),
         s\<lparr>ss_store := st\<rparr>))"
| "handler_next S (Taking c) s =
     (case TakeSubmission c (ss_store s) of (sub, st) \<Rightarrow>
        (case sub of
           None \<Rightarrow> Finished (JSON_Error 404 ''no pending submission with that cid'')
         | Some x \<Rightarrow>
             if sb_kind x = SubArchive then Registering c (sb_owner x) [] (Approved_Reply c (sb_kind x))
             else Posting (JobDocs [c]) [] (Approved_Reply c (sb_kind x)),
         s\<lparr>ss_store := st\<rparr>))"
| "handler_next S (Registering a owner as ans) s =
     (Posting (JobArchive a owner) as ans, s\<lparr>ss_store := snd (AddArchive (server_now S s) a owner (ss_store s))\<rparr>)"
| "handler_next S (Posting j as ans) s =
     (case as of [] \<Rightarrow> Answering ans | b # bs \<Rightarrow> Registering b [] bs ans, s\<lparr>ss_queue := enqueue j (ss_queue s)\<rparr>)"
| "handler_next S (Answering ans) s = (Finished (ans (Job_Queue.Queued (ss_queue s))), s)"
| "handler_next S t s = submit_next S t s"

text \<open>A request up to its first call on the shared state; a handler that makes no more than one is done.\<close>

definition with_cid :: "request \<Rightarrow> handler_state \<Rightarrow> handler_state" where
  "with_cid r t = (if not_post r then Finished not_allowed
     else if trim_space (in_form r ''cid'') = [] then Finished (JSON_Error 400 ''missing cid'') else t)"

definition accept :: "'w service \<Rightarrow> request \<Rightarrow> 'w server \<Rightarrow> handler_state \<times> 'w server" where
  "accept S r s =
     (let c = trim_space (in_form r ''cid'') in
      if in_path r = ''/api/submit'' then (with_cid r (Checking c (trim_space (in_form r ''owner''))), s)
      else if in_path r = ''/api/retry'' then (with_cid r (Retrying c), s)
      else if in_path r = ''/api/admin/approve'' then
        (case authed (server_now S s) (in_cookie r) (ss_sessions s) of (ok, ss) \<Rightarrow>
           (if \<not> ok then Finished (JSON_Error 401 ''unauthorized'') else with_cid r (Taking c), s\<lparr>ss_sessions := ss\<rparr>))
      else (case serve S r s of (rep, t) \<Rightarrow> (Finished rep, t)))"

section \<open>The calls a handler has left\<close>

fun calls_left :: "handler_state \<Rightarrow> nat \<times> nat" where
  "calls_left (Checking c owner) = (8, 0)"
| "calls_left (Keying c owner) = (7, 0)"
| "calls_left (Classifying c owner) = (6, 0)"
| "calls_left (Choosing c kind owner) = (5, 0)"
| "calls_left (Reviewing c k owner) = (4, 0)"
| "calls_left (Retrying c) = (5, 0)"
| "calls_left (Locating c) = (4, 0)"
| "calls_left (Taking c) = (4, 0)"
| "calls_left (Registering a owner as ans) = (2, 2 * length as + 1)"
| "calls_left (Posting j as ans) = (2, 2 * length as)"
| "calls_left (Answering ans) = (1, 0)"
| "calls_left (Finished r) = (0, 0)"

definition calls_order :: "((nat \<times> nat) \<times> (nat \<times> nat)) set" where
  "calls_order = less_than <*lex*> less_than"

lemma wf_calls_order: "wf calls_order"
  by (simp add: calls_order_def wf_lex_prod)

fun is_finished :: "handler_state \<Rightarrow> bool" where
  "is_finished (Finished r) = True"
| "is_finished _ = False"

lemma handler_next_calls:
  "\<not> is_finished t \<Longrightarrow> (calls_left (fst (handler_next S t s)), calls_left t) \<in> calls_order"
  by (cases t) (auto simp: calls_order_def split: prod.split sum.split option.split list.split)

function run_handler :: "'w service \<Rightarrow> handler_state \<times> 'w server \<Rightarrow> reply \<times> 'w server" where
  "run_handler S (Finished r, s) = (r, s)"
| "\<not> is_finished t \<Longrightarrow> run_handler S (t, s) = run_handler S (handler_next S t s)"
proof -
  fix P and x :: "'w service \<times> handler_state \<times> 'w server"
  assume 1: "\<And>S r s. x = (S, Finished r, s) \<Longrightarrow> P" and 2: "\<And>t S s. \<not> is_finished t \<Longrightarrow> x = (S, t, s) \<Longrightarrow> P"
  obtain S t s where x: "x = (S, t, s)" by (cases x) auto
  have "is_finished t \<Longrightarrow> \<exists>r. t = Finished r" by (cases t) auto
  then show P using 1 2 x by blast
qed auto
termination
  by (relation "inv_image calls_order (\<lambda>(S, t, s). calls_left t)")
     (auto simp: wf_calls_order split_beta handler_next_calls)

section \<open>A handler that is not interrupted\<close>

lemma enqueue_archive_calls:
  "enqueue_archive S c owner s = s\<lparr>ss_store := snd (AddArchive (server_now S s) c owner (ss_store s)),
     ss_queue := enqueue (JobArchive c owner) (ss_queue s)\<rparr>"
  by (simp add: enqueue_archive_def EnqueueArchive_def)

lemma run_registering:
  "run_handler S (Registering a owner as ans, s) =
     (let s' = fold (\<lambda>a. enqueue_archive S a []) as (enqueue_archive S a owner s) in (ans (Job_Queue.Queued (ss_queue s')), s'))"
proof (induction as arbitrary: a owner s)
  case Nil
  show ?case by (simp add: enqueue_archive_calls Let_def)
next
  case (Cons b bs)
  show ?case using Cons [of b "[]" "enqueue_archive S a owner s"] by (simp add: enqueue_archive_calls Let_def)
qed

lemmas enqueue_calls = enqueue_archive_calls enqueue_docs_def EnqueueDocs_def

lemma run_submit:
  "run_handler S (with_cid r (Checking (trim_space (in_form r ''cid'')) (trim_space (in_form r ''owner''))), s) = h_submit S r s"
  by (auto simp: with_cid_def h_submit_def Let_def enqueue_calls split: prod.split sum.split)

lemma run_locating:
  assumes "ArchivesContaining c (ss_store s) = (archs, st)"
  shows "run_handler S (Locating c, s) =
    (let s3 = (if length archs > 0 then fold (\<lambda>a. enqueue_archive S a []) archs (s\<lparr>ss_store := st\<rparr>)
               else enqueue_docs [c] (s\<lparr>ss_store := st\<rparr>))
     in (Retry_Reply c (Job_Queue.Queued (ss_queue s3)), s3))"
proof (cases archs)
  case Nil
  then show ?thesis using assms by (simp add: enqueue_calls Let_def)
next
  case (Cons a as)
  then have "run_handler S (Locating c, s) = run_handler S (Registering a [] as (Retry_Reply c), s\<lparr>ss_store := st\<rparr>)"
    using assms by (subst run_handler.simps(2)) (simp_all del: run_handler.simps)
  then show ?thesis using Cons by (simp only: run_registering) (simp add: Let_def)
qed

lemma run_retry: "run_handler S (with_cid r (Retrying (trim_space (in_form r ''cid''))), s) = h_retry S r s"
proof -
  let ?c = "trim_space (in_form r ''cid'')"
  obtain found st where f: "RetryFailure ?c (ss_store s) = (found, st)" by fastforce
  obtain archs st2 where a: "ArchivesContaining ?c st = (archs, st2)" by fastforce
  have "run_handler S (Retrying ?c, s) = (if \<not> found then (JSON_Error 404 ''no failed document with that cid'', s\<lparr>ss_store := st\<rparr>)
      else run_handler S (Locating ?c, s\<lparr>ss_store := st\<rparr>))"
    using f by (subst run_handler.simps(2)) (simp_all del: run_handler.simps(2))
  then show ?thesis
    using f a run_locating [of ?c "s\<lparr>ss_store := st\<rparr>" archs st2 S]
    by (simp add: with_cid_def h_retry_def Let_def del: run_handler.simps(2))
qed

lemma run_approve: "run_handler S (with_cid r (Taking (trim_space (in_form r ''cid''))), s) = h_approve S r s"
  by (simp add: with_cid_def h_approve_def Let_def enqueue_calls split: prod.split option.split)

lemma run_whole: "run_handler S (accept S r s) = serve S r s"
  by (simp add: accept_def serve_def open_routes_def admin_routes_def requireAdmin_def run_submit run_retry run_approve
      Let_def split: prod.split)

end
