(* ===== verification/Job_Steps.thy ===== *)
theory Job_Steps
  imports Interference
begin

text \<open>
  A job as a sequence of steps, each one operation on the store as \<open>process\<close>, \<open>indexArchive\<close> and
  \<open>indexPending\<close> of \<open>src/indexer.go\<close> call them (\<open>SaveAll\<close>, \<open>Stats\<close> and \<open>GetArchive\<close>, which change
  nothing, go with the operation before them), and the invariant that the steps of a job keep while
  requests come in between them. Where \<open>NewTicker\<close> panics (a spacing that is not positive) the pool takes no
  step. A worker finishes a document with any outcome \<open>Process\<close> can have for it; driver errors are not considered.
\<close>

section \<open>A job as a sequence of steps\<close>

datatype task =
    Resting
  | Begin job
  | Listing cid
  | Marking cid
  | Walking cid
  | Round cid "cid list"
  | Pooling "(cid \<times> cid list) option" pool
  | Finishing cid

inductive task_step :: "'w service \<Rightarrow> disk \<Rightarrow> store \<times> task \<Rightarrow> store \<times> task \<Rightarrow> bool" for S d where
  archive_without_key:
    "loadAPIKey (sv_getenv S) (cfg_DataDir (sv_cfg S)) d = [] \<Longrightarrow>
     task_step S d (s, Begin (JobArchive a owner)) (MarkArchiveFailed a ''no API key configured for indexing'' s, Resting)"
| docs_without_key:
    "loadAPIKey (sv_getenv S) (cfg_DataDir (sv_cfg S)) d = [] \<Longrightarrow>
     task_step S d (s, Begin (JobDocs cids)) (s, Resting)"
| begin_archive:
    "loadAPIKey (sv_getenv S) (cfg_DataDir (sv_cfg S)) d \<noteq> [] \<Longrightarrow>
     task_step S d (s, Begin (JobArchive a owner)) (snd (AddArchive now a owner s), Listing a)"
| begin_docs:
    "loadAPIKey (sv_getenv S) (cfg_DataDir (sv_cfg S)) d \<noteq> [] \<Longrightarrow> Pending cids s = (pend, s1) \<Longrightarrow>
     task_step S d (s, Begin (JobDocs cids)) (s1, if length pend > 0
       then Pooling None (pool_init (nat (cfg_Workers (sv_cfg S))) pend s1) else Resting)"
| resume:
    "ArchiveDocCIDs a s = (docs, s1) \<Longrightarrow> length docs > 0 \<Longrightarrow> task_step S d (s, Listing a) (s1, Round a docs)"
| no_documents:
    "ArchiveDocCIDs a s = (docs, s1) \<Longrightarrow> \<not> length docs > 0 \<Longrightarrow> task_step S d (s, Listing a) (s1, Marking a)"
| mark_crawling:
    "task_step S d (s, Marking a) (MarkArchiveCrawling a s, Walking a)"
| crawl_error:
    "Crawl (sv_net S) (crawler_of (sv_cfg S)) a w = (Inl e, w') \<Longrightarrow>
     task_step S d (s, Walking a) (MarkArchiveFailed a e s, Resting)"
| crawl_done:
    "Crawl (sv_net S) (crawler_of (sv_cfg S)) a w = (Inr docs, w') \<Longrightarrow>
     task_step S d (s, Walking a) (SetArchiveDocs a docs s, Round a docs)"
| some_pending:
    "Pending docs s = (pend, s1) \<Longrightarrow> \<not> length pend = 0 \<Longrightarrow> task_step S d (s, Round a docs)
       (s1, Pooling (Some (a, docs)) (pool_init (nat (cfg_Workers (sv_cfg S))) pend s1))"
| none_pending:
    "Pending docs s = (pend, s1) \<Longrightarrow> length pend = 0 \<Longrightarrow> task_step S d (s, Round a docs) (s1, Finishing a)"
| pool:
    "cfg_Spacing (sv_cfg S) > 0 \<Longrightarrow> pool_step (nat (cfg_Workers (sv_cfg S))) (p\<lparr>pstore := s\<rparr>) p' \<Longrightarrow>
     task_step S d (s, Pooling k p) (pstore p', Pooling k p')"
| pool_done:
    "pool_final p \<Longrightarrow> task_step S d (s, Pooling k p) (snd (Stats (SaveAll s)),
       case k of None \<Rightarrow> Resting | Some (a, docs) \<Rightarrow> Round a docs)"
| finish:
    "task_step S d (s, Finishing a) (snd (GetArchive a (SaveAll (FinalizeArchive now a s))), Resting)"

definition task_of :: "phase \<Rightarrow> task" where
  "task_of p = (case p of Running j \<Rightarrow> Begin j | _ \<Rightarrow> Resting)"

inductive_cases task_stepE: "task_step S d (s, k) y"

section \<open>What the job and the queue have in hand\<close>

fun task_archives :: "task \<Rightarrow> cid set" where
  "task_archives Resting = {}"
| "task_archives (Begin j) = {a. \<exists>owner. j = JobArchive a owner}"
| "task_archives (Listing a) = {a}"
| "task_archives (Marking a) = {a}"
| "task_archives (Walking a) = {a}"
| "task_archives (Round a docs) = {a}"
| "task_archives (Pooling k p) = (case k of None \<Rightarrow> {} | Some (a, docs) \<Rightarrow> {a})"
| "task_archives (Finishing a) = {a}"

text \<open>The documents that the dispatcher and the workers hold.\<close>

definition pool_docs :: "pool \<Rightarrow> cid list" where
  "pool_docs p = todo p @ chan p @ map the (filter (\<lambda>x. x \<noteq> None) (slots p))"

fun task_inv :: "cid set \<Rightarrow> database \<Rightarrow> job_queue \<Rightarrow> task \<Rightarrow> bool" where
  "task_inv H d q Resting = True"
| "task_inv H d q (Begin j) = (\<forall>cs. j = JobDocs cs \<longrightarrow> distinct cs)"
| "task_inv H d q (Listing a) = True"
| "task_inv H d q (Marking a) = True"
| "task_inv H d q (Walking a) = True"
| "task_inv H d q (Round a docs) = (distinct docs \<and> m_doc ` set (member_rows a d) \<subseteq> set docs)"
| "task_inv H d q (Pooling k p) = (distinct (pool_docs p) \<and> (\<forall>c \<in> set (pool_docs p). \<not> is_indexed d c)
     \<and> (\<forall>a docs. k = Some (a, docs) \<longrightarrow> distinct docs \<and> m_doc ` set (member_rows a d) \<subseteq> set docs))"
| "task_inv H d q (Finishing a) = (pending_in a d = {} \<or> a \<in> queued_archives q \<union> H)"

definition job_inv :: "cid set \<Rightarrow> 'w server \<times> task \<Rightarrow> bool" where
  "job_inv H x \<longleftrightarrow> drv (ss_store (fst x)) = [] \<and> core_ok (db (ss_store (fst x)))
     \<and> (\<forall>cs. JobDocs cs \<in> jobs_in (ss_queue (fst x)) \<longrightarrow> distinct cs)
     \<and> unfinished (db (ss_store (fst x))) \<subseteq> queued_archives (ss_queue (fst x)) \<union> H \<union> task_archives (snd x)
     \<and> task_inv H (db (ss_store (fst x))) (ss_queue (fst x)) (snd x)"

section \<open>The steps of the pool\<close>

lemma mset_pool_docs: "mset (pool_docs p) = mset (todo p) + mset (chan p) + in_flight p"
  by (simp add: pool_docs_def in_flight_def)

lemma pool_docs_init [simp]: "pool_docs (pool_init n pend s) = pend"
  by (simp add: pool_docs_def pool_init_def)

lemma pool_docs_store [simp]: "pool_docs (p\<lparr>pstore := s\<rparr>) = pool_docs p"
  by (simp add: pool_docs_def)

lemma pool_step_docs:
  assumes "pool_step n p p'"
  obtains "pstore p' = pstore p" and "mset (pool_docs p') = mset (pool_docs p)"
  | c out now where "fits out c" and "pstore p' = settle now out c (pstore p)"
      and "mset (pool_docs p) = add_mset c (mset (pool_docs p'))"
  using assms
proof (cases rule: pool_step.cases)
  case (send c cs)
  then show ?thesis using that(1) by (simp add: mset_pool_docs in_flight_def)
next
  case (recv c cs i)
  then show ?thesis using that(1) in_flight_recv [where p = p and i = i and cs = cs and c = c] by (simp add: mset_pool_docs)
next
  case (fin i c out now)
  then show ?thesis using that(2) [of out c now] in_flight_fin [where p = p and i = i and c = c] by (simp add: mset_pool_docs in_flight_def)
qed

lemma settle_db:
  assumes "drv s = []"
  shows "drv (settle now out c s) = []"
    "db (settle now out c s) = (case out of
       OFail e \<Rightarrow> upsert_failure fail_bump (fail_row_of c 1 now e) (db s)
     | OSkip \<Rightarrow> upsert_failure fail_set (fail_row_of c maxRetries now ''skipped: not a PDF'') (db s)
     | OAdd e \<Rightarrow> add_db e (db s))"
  using assms by (cases out; simp add: RecordFailure_run RecordSkip_run Add_run Let_def)+

lemma settle_core:
  assumes "drv s = []" and "core_ok (db s)" and "\<not> is_indexed (db s) c" and "fits out c"
  shows "drv (settle now out c s) = []" "core_ok (db (settle now out c s))"
    "archives (db (settle now out c s)) = archives (db s)" "archive_docs (db (settle now out c s)) = archive_docs (db s)"
    "is_indexed (db (settle now out c s)) x \<Longrightarrow> x = c \<or> is_indexed (db s) x"
proof -
  have "0 \<le> maxRetries" by (simp add: maxRetries_def)
  then show "core_ok (db (settle now out c s))"
    unfolding settle_db(2) [OF assms(1)] using assms by (cases out) (simp_all add: core_bump core_skip core_add)
  show "x = c \<or> is_indexed (db s) x" if "is_indexed (db (settle now out c s)) x"
    using that assms(4) unfolding settle_db(2) [OF assms(1)] by (cases out) (auto simp: is_indexed_add fits_def)
qed (simp_all only: settle_db [OF assms(1)], simp_all split: outcome.split)

section \<open>The invariant\<close>

lemma jobs_in_send: "send_step i q q' \<Longrightarrow> jobs_in q' = jobs_in q"
proof (erule send_stepE)
  assume q': "q' = q\<lparr>jobs := jobs q @ [sending q ! i], sending := drop_nth i (sending q)\<rparr>" and i: "i < length (sending q)"
  have "set (sending q) = insert (sending q ! i) (set (drop_nth i (sending q)))"
    using mset_drop_nth [OF i] by (metis set_mset_add_mset_insert set_mset_mset)
  then show "jobs_in q' = jobs_in q" by (auto simp: q' jobs_in_def)
qed

lemma jobs_in_worker:
  assumes "worker_step q q'"
  shows "jobs_in q = jobs_in q' \<union> (case phase q' of Running j \<Rightarrow> {j} | _ \<Rightarrow> {})"
  using assms by (cases rule: worker_step.cases) (auto simp: jobs_in_def in_worker_def)

lemma queued_archives_cong: "jobs_in q = jobs_in q' \<Longrightarrow> queued_archives q = queued_archives q'"
  by (simp add: queued_archives_def)

lemma task_inv_cong: "queued_archives q = queued_archives q' \<Longrightarrow> task_inv H d q k = task_inv H d q' k"
  by (cases k) simp_all

text \<open>
  What others may do between two steps of the job, when they move the archives \<open>G\<close> they have in
  hand to \<open>G'\<close> or into the queue.
\<close>

lemma interfere_inv:
  assumes inv: "job_inv G (s, k)" and "drv (ss_store t) = []" and "core_ok (db (ss_store t))"
    and "jobs_in (ss_queue s) \<subseteq> jobs_in (ss_queue t)"
    and docs: "\<And>cs. JobDocs cs \<in> jobs_in (ss_queue t) \<Longrightarrow> JobDocs cs \<in> jobs_in (ss_queue s) \<or> length cs = 1"
    and unf: "unfinished (db (ss_store t)) \<subseteq> unfinished (db (ss_store s)) \<union> queued_archives (ss_queue t) \<union> G'"
    and mem: "\<And>a. set (member_rows a (db (ss_store t))) \<subseteq> set (member_rows a (db (ss_store s)))"
    and pend: "\<And>a. pending_in a (db (ss_store t)) \<subseteq> pending_in a (db (ss_store s)) \<or> a \<in> queued_archives (ss_queue t) \<union> G'"
    and ind: "\<And>c. is_indexed (db (ss_store t)) c \<Longrightarrow> is_indexed (db (ss_store s)) c"
    and hand: "\<And>a. a \<in> G \<Longrightarrow> a \<in> queued_archives (ss_queue t) \<union> G'
      \<or> a \<notin> unfinished (db (ss_store t)) \<and> pending_in a (db (ss_store t)) = {}"
  shows "job_inv G' (t, k)"
proof -
  have m: "queued_archives (ss_queue s) \<subseteq> queued_archives (ss_queue t)" using assms(4) by (rule queued_archives_mono)
  have "\<forall>cs. JobDocs cs \<in> jobs_in (ss_queue t) \<longrightarrow> distinct cs"
  proof (intro allI impI)
    fix cs
    assume "JobDocs cs \<in> jobs_in (ss_queue t)"
    from docs [OF this] inv show "distinct cs" by (auto simp: job_inv_def length_Suc_conv)
  qed
  moreover have sub: "m_doc ` set (member_rows a (db (ss_store t))) \<subseteq> set ds"
    if "m_doc ` set (member_rows a (db (ss_store s))) \<subseteq> set ds" for a ds
    using image_mono [OF mem] that by (rule subset_trans)
  have "task_inv G' (db (ss_store t)) (ss_queue t) k"
  proof (cases k)
    case (Round a docs)
    then show ?thesis using inv by (simp add: job_inv_def sub)
  next
    case (Pooling x p)
    then have i: "distinct (pool_docs p)" "\<forall>c \<in> set (pool_docs p). \<not> is_indexed (db (ss_store s)) c"
      "\<And>a docs. x = Some (a, docs) \<Longrightarrow> distinct docs \<and> m_doc ` set (member_rows a (db (ss_store s))) \<subseteq> set docs"
      using inv by (simp_all add: job_inv_def)
    have "\<forall>c \<in> set (pool_docs p). \<not> is_indexed (db (ss_store t)) c" using i(2) ind by blast
    then show ?thesis using i(1) i(3) sub Pooling by simp
  next
    case (Finishing a)
    then show ?thesis using inv pend [of a] hand [of a] m by (auto simp: job_inv_def)
  qed (use inv in \<open>auto simp: job_inv_def\<close>)
  moreover have "unfinished (db (ss_store t)) \<subseteq> queued_archives (ss_queue t) \<union> G' \<union> task_archives k"
  proof
    fix a
    assume a: "a \<in> unfinished (db (ss_store t))"
    then have "a \<in> queued_archives (ss_queue t) \<union> G' \<or> a \<in> unfinished (db (ss_store s))" using unf by blast
    then show "a \<in> queued_archives (ss_queue t) \<union> G' \<union> task_archives k"
      using inv m hand [of a] a by (auto simp: job_inv_def)
  qed
  ultimately show ?thesis using assms(2,3) by (simp add: job_inv_def)
qed

lemma guarantee_inv:
  assumes inv: "job_inv G (s, k)" and "guarantee (shared s) (shared t)"
    and hand: "\<And>a. a \<in> G \<Longrightarrow> a \<in> G' \<or> a \<notin> unfinished (db (ss_store t)) \<and> pending_in a (db (ss_store t)) = {}"
  shows "job_inv G' (t, k)"
proof -
  have s: "drv (ss_store s) = []" "core_ok (db (ss_store s))" using inv by (simp_all add: job_inv_def)
  note g = guaranteeD [OF assms(2), unfolded fst_conv snd_conv, OF s]
  show ?thesis by (rule interfere_inv [OF inv g(1,2,4,5)]) (use g(6,7,8,9) hand in blast)+
qed

lemma send_inv:
  assumes "job_inv H (s, k)" and "send_step i (ss_queue s) q"
  shows "job_inv H (s\<lparr>ss_queue := q\<rparr>, k)"
proof -
  have j: "jobs_in q = jobs_in (ss_queue s)" using assms(2) by (rule jobs_in_send)
  then show ?thesis
    using assms(1) queued_archives_cong [OF j] task_inv_cong [of q "ss_queue s"] by (simp add: job_inv_def)
qed

lemma loop_inv:
  assumes "job_inv H (s, Resting)" and "worker_step (ss_queue s) q"
  shows "job_inv H (s\<lparr>ss_queue := q\<rparr>, task_of (phase q))"
proof -
  note j = jobs_in_worker [OF assms(2)]
  have "queued_archives (ss_queue s) \<subseteq> queued_archives q \<union> task_archives (task_of (phase q))"
    using j by (auto simp: queued_archives_def task_of_def split: phase.splits)
  moreover have "task_inv H d q (task_of (phase q))" for d
    using assms(1) j by (auto simp: job_inv_def task_of_def split: phase.split)
  moreover have "\<forall>cs. JobDocs cs \<in> jobs_in q \<longrightarrow> distinct cs" using assms(1) j by (simp add: job_inv_def)
  ultimately show ?thesis using assms(1) by (auto simp: job_inv_def)
qed

lemma NewStore_run [simp]: "db (NewStore d []) = d" "drv (NewStore d []) = []"
  by (simp_all add: NewStore_def loadReviewEnabled_def tx_simps Let_def)

lemma jobs_in_new [simp]: "jobs_in NewIndexer = {}"
  by (simp add: jobs_in_def NewIndexer_def in_worker_def)

lemma boot_inv:
  assumes "core_ok d"
  shows "job_inv H (boot now d [] dsk w, Resting)"
proof -
  let ?s0 = "NewStore d []"
  let ?s1 = "snd (RequeueRateLimited ?s0)"
  have s1: "drv ?s1 = []" "core_ok (db ?s1)"
    using assms core_delete_failures [of d "\<lambda>f. like ''%rate limited%'' (f_reason f)"] by (simp_all add: Requeue_run)
  obtain res where r: "ResumableArchives ?s1 = (res, ?s1)" "set res = unfinished (db ?s1)"
    using s1(1) by (auto simp: ResumableArchives_def tx_simps unfinished_def)
  obtain st q where f: "fold (\<lambda>c. EnqueueArchive now c []) res (?s1, NewIndexer) = (st, q)" by fastforce
  then have b: "boot now d [] dsk w = \<lparr>ss_store = st, ss_queue = q, ss_sessions = newSessionStore, ss_disk = dsk,
      ss_web = fresh_web, ss_world = w\<rparr>"
    using r(1) by (simp add: boot_def startup_def case_prod_beta)
  have "guarantee (?s1, NewIndexer) (st, q)" using guarantee_archives [of ?s1 NewIndexer now res] f by simp
  note g = guaranteeD [OF this, unfolded fst_conv snd_conv, OF s1]
  have j: "jobs_in q = (\<lambda>a. JobArchive a []) ` set res"
    using jobs_in_archives [of now res ?s1 NewIndexer] f by simp
  have "unfinished (db ?s1) \<subseteq> queued_archives q" using r(2) j by (auto simp: queued_archives_def)
  then show ?thesis using g(1,2,6) j by (auto simp: b job_inv_def)
qed

section \<open>The steps of a job keep the invariant\<close>

lemma unfinished_touch:
  assumes "\<And>r. r_cid (g r) = r_cid r"
  shows "unfinished (update_arch a g d) \<subseteq> insert a (unfinished d)"
  using assms by (auto simp: unfinished_def update_arch_def set_sql_update split: if_splits)

lemma unfinished_settle:
  assumes "\<And>r. r_cid (g r) = r_cid r" and "\<And>r. r_status (g r) \<notin> {arch_status.Queued, Crawling, Indexing}"
  shows "unfinished (update_arch a g d) \<subseteq> unfinished d - {a}"
  using assms by (auto simp: unfinished_def update_arch_def set_sql_update split: if_splits)

lemma pending_in_members: "failures_ok d \<Longrightarrow> pending_members a d = [] \<longleftrightarrow> pending_in a d = {}"
  by (auto simp: pending_members_alt pending_in_def filter_empty_conv)

lemma finalize_unfinished:
  assumes "drv s = []" and "core_ok (db s)"
  shows "drv (FinalizeArchive now a s) = []" "core_ok (db (FinalizeArchive now a s))"
    "unfinished (db (FinalizeArchive now a s)) \<subseteq>
       (if pending_in a (db s) = {} then unfinished (db s) - {a} else insert a (unfinished (db s)))"
proof -
  let ?g = "finalize_row now a (db s)"
  have st: "r_status (?g r) = (if pending_in a (db s) = {} then Done else Indexing)" for r
    using pending_in_members [of "db s" a] assms(2) by (simp add: finalize_row_def core_ok_def Let_def split: prod.split)
  show "drv (FinalizeArchive now a s) = []" "core_ok (db (FinalizeArchive now a s))"
    using assms by (simp_all add: FinalizeArchive_run core_update)
  have "a \<notin> unfinished (db s)" if "\<not> archive_exists a (db s)"
    using that by (auto simp: archive_exists_def unfinished_def)
  then show "unfinished (db (FinalizeArchive now a s)) \<subseteq>
      (if pending_in a (db s) = {} then unfinished (db s) - {a} else insert a (unfinished (db s)))"
    using assms unfinished_settle [of ?g a "db s"] unfinished_touch [of ?g a "db s"] st
    by (auto simp: FinalizeArchive_run)
qed

lemma mark_failed_unfinished:
  assumes "drv s = []" and "core_ok (db s)"
  shows "drv (MarkArchiveFailed a e s) = []" "core_ok (db (MarkArchiveFailed a e s))"
    "unfinished (db (MarkArchiveFailed a e s)) \<subseteq> unfinished (db s) - {a}"
  using assms unfinished_settle [of "\<lambda>r. r\<lparr>r_status := Failed, r_error := e\<rparr>" a "db s"]
  by (simp_all add: MarkArchiveFailed_def updateArchive_run core_update)

lemma set_docs_unfinished:
  assumes "drv s = []" and "core_ok (db s)" and "distinct docs"
  shows "drv (SetArchiveDocs a docs s) = []" "core_ok (db (SetArchiveDocs a docs s))"
    "unfinished (db (SetArchiveDocs a docs s)) \<subseteq> insert a (unfinished (db s))"
    "m_doc ` set (member_rows a (db (SetArchiveDocs a docs s))) = set docs"
proof -
  show "drv (SetArchiveDocs a docs s) = []" "core_ok (db (SetArchiveDocs a docs s))"
    using assms by (simp_all add: SetArchiveDocs_run core_set_docs)
  have "archives (set_docs_db a docs (db s))
      = archives (update_arch a (\<lambda>r. r\<lparr>r_count := int (length docs), r_status := Indexing\<rparr>) (db s))"
    by (simp add: set_docs_distinct [OF assms(3)])
  then show "unfinished (db (SetArchiveDocs a docs s)) \<subseteq> insert a (unfinished (db s))"
    using unfinished_touch [of "\<lambda>r. r\<lparr>r_count := int (length docs), r_status := Indexing\<rparr>" a "db s"] assms(1)
    by (simp add: SetArchiveDocs_run unfinished_def)
  show "m_doc ` set (member_rows a (db (SetArchiveDocs a docs s))) = set docs"
    using set_doc_list [of a "set_docs_db a docs (db s)"] doc_list_set_docs [OF assms(3), of a a] assms(1)
    by (simp add: SetArchiveDocs_run)
qed

lemma Pending_core:
  assumes "drv s = []" and "core_ok (db s)" and "Pending docs s = (pend, s1)"
  shows "pend = filter (\<lambda>c. budget (db s) c > 0) docs" "db s1 = db s" "drv s1 = []"
  using assms Pending_run [of s docs] by (auto simp: core_ok_def)

lemma job_invI:
  assumes "drv st = []" and "core_ok (db st)" and "\<forall>cs. JobDocs cs \<in> jobs_in (ss_queue s) \<longrightarrow> distinct cs"
    and "unfinished (db st) \<subseteq> queued_archives (ss_queue s) \<union> H \<union> task_archives k"
    and "task_inv H (db st) (ss_queue s) k"
  shows "job_inv H (s\<lparr>ss_store := st\<rparr>, k)"
  using assms by (simp add: job_inv_def)

lemma task_step_inv:
  assumes inv: "job_inv H (s, k)" and step: "task_step S dsk (ss_store s, k) (st, k')"
  shows "job_inv H (s\<lparr>ss_store := st\<rparr>, k')"
proof -
  let ?q = "ss_queue s" and ?d = "db (ss_store s)"
  have drv: "drv (ss_store s) = []" and core: "core_ok ?d" and J: "\<forall>cs. JobDocs cs \<in> jobs_in ?q \<longrightarrow> distinct cs"
    and U: "unfinished ?d \<subseteq> queued_archives ?q \<union> H \<union> task_archives k" and T: "task_inv H ?d ?q k"
    using inv by (simp_all add: job_inv_def)
  have keys: "distinct (map m_key (archive_docs ?d))" using core by (simp add: core_ok_def)
  show ?thesis
    using step
  proof (cases rule: task_step.cases)
    case (archive_without_key a owner)
    then show ?thesis
      using mark_failed_unfinished [OF drv core, of a "''no API key configured for indexing''"] U J by (intro job_invI) auto
  next
    case (docs_without_key cids)
    then show ?thesis using drv core U J by (intro job_invI) auto
  next
    case (begin_archive a owner now)
    then show ?thesis
      using drv core U J unfinished_add_archive [of now a "trim_space owner" ?d]
      by (intro job_invI) (auto simp: AddArchive_db core_add_archive)
  next
    case (begin_docs cids pend)
    note p = Pending_core [OF drv core begin_docs(4)]
    have "distinct pend" "\<forall>c \<in> set pend. \<not> is_indexed ?d c" using T begin_docs(1) p(1) by (auto simp: budget_pos)
    then show ?thesis using begin_docs p U J core by (intro job_invI) auto
  next
    case (resume a docs)
    then have "docs = doc_list a ?d" "st = ss_store s" using ArchiveDocCIDs_run [OF drv, of a] by auto
    then show ?thesis
      using resume drv core U J distinct_doc_list_keys [OF keys] by (intro job_invI) (auto simp: set_doc_list)
  next
    case (no_documents a docs)
    then have "st = ss_store s" using ArchiveDocCIDs_run [OF drv, of a] by auto
    then show ?thesis using no_documents drv core U J by (intro job_invI) auto
  next
    case (mark_crawling a)
    then show ?thesis
      using drv core U J unfinished_touch [of "\<lambda>r. r\<lparr>r_status := Crawling\<rparr>" a ?d]
      by (intro job_invI) (auto simp: MarkArchiveCrawling_def updateArchive_run core_update)
  next
    case (crawl_error a w e w')
    then show ?thesis
      using mark_failed_unfinished [OF drv core, of a e] U J by (intro job_invI) auto
  next
    case (crawl_done a w docs w')
    then have "distinct docs" by (intro crawl_distinct)
    from set_docs_unfinished [OF drv core this, of a] crawl_done U J \<open>distinct docs\<close> show ?thesis
      by (intro job_invI) auto
  next
    case (some_pending docs pend a)
    note p = Pending_core [OF drv core some_pending(3)]
    have "distinct pend" "\<forall>c \<in> set pend. \<not> is_indexed ?d c" using T some_pending(1) p(1) by (auto simp: budget_pos)
    then show ?thesis using some_pending p U J T core by (intro job_invI) auto
  next
    case (none_pending docs pend a)
    note p = Pending_core [OF drv core none_pending(3)]
    have "pending_in a ?d = {}"
      using T none_pending(1,4) p(1) by (auto simp: pending_in_def filter_empty_conv)
    then show ?thesis using none_pending p U J core by (intro job_invI) auto
  next
    case (pool p p' x)
    have docs: "distinct (pool_docs p)" "\<forall>c \<in> set (pool_docs p). \<not> is_indexed ?d c" using T pool(1) by simp_all
    have D: "distinct (pool_docs p') \<and> (\<forall>c \<in> set (pool_docs p'). \<not> is_indexed (db st) c) \<and> drv st = [] \<and> core_ok (db st)
        \<and> archives (db st) = archives ?d \<and> archive_docs (db st) = archive_docs ?d"
      using pool(5)
    proof (cases rule: pool_step_docs)
      case 1
      then have "mset (pool_docs p') = mset (pool_docs p)" by simp
      then have "distinct (pool_docs p')" "set (pool_docs p') = set (pool_docs p)"
        using docs(1) by (metis mset_eq_imp_distinct_iff, metis mset_eq_setD)
      then show ?thesis using 1 docs drv core pool(2) by simp
    next
      case (2 c out now)
      then have m: "mset (pool_docs p) = mset (c # pool_docs p')" by simp
      have "distinct (c # pool_docs p')" "set (pool_docs p) = set (c # pool_docs p')"
        using docs(1) mset_eq_imp_distinct_iff [OF m] mset_eq_setD [OF m] by auto
      moreover from this have "\<not> is_indexed ?d c" using docs(2) by simp
      note sc = settle_core [OF drv core this 2(1), of now]
      ultimately show ?thesis using 2 docs(2) sc pool(2) by auto
    qed
    then have "unfinished (db st) = unfinished ?d" "\<And>a. member_rows a (db st) = member_rows a ?d"
      by (simp_all add: unfinished_def member_rows_def)
    then show ?thesis using D U J T pool(1,3) by (intro job_invI) auto
  next
    case (pool_done p x)
    then have "st = ss_store s" using drv by (simp add: SaveAll_run Stats_run)
    then show ?thesis using pool_done drv core U J T by (intro job_invI) (auto split: option.splits)
  next
    case (finish a now)
    have st: "st = FinalizeArchive now a (ss_store s)"
      using finish(2) finalize_unfinished(1) [OF drv core, of now a] by (simp add: SaveAll_run GetArchive_run)
    show ?thesis
      using finalize_unfinished [OF drv core, of now a] U J T finish(1,3)
      by (intro job_invI) (auto simp: st split: if_splits)
  qed
qed

end
