(* ===== verification/Rest.thy ===== *)
theory Rest
  imports Job_Steps
begin

text \<open>
  What happens after the last request: the queue, the job and the pool take a bounded number of
  steps, whatever their order and whatever the crawler and the pipeline answer, and stop only when
  no job is left. The measure is lexicographic: the work of the queue, the stage of the job, the
  failures its documents can still take, the steps left in the pool.
\<close>

inductive quiet_step :: "'w service \<Rightarrow> 'w server \<times> task \<Rightarrow> 'w server \<times> task \<Rightarrow> bool" for S where
  send: "send_step i (ss_queue s) q \<Longrightarrow> quiet_step S (s, k) (s\<lparr>ss_queue := q\<rparr>, k)"
| loop: "worker_step (ss_queue s) q \<Longrightarrow> quiet_step S (s, Resting) (s\<lparr>ss_queue := q\<rparr>, task_of (phase q))"
| task: "task_step S (ss_disk s) (ss_store s, k) (st, k') \<Longrightarrow> quiet_step S (s, k) (s\<lparr>ss_store := st\<rparr>, k')"

section \<open>The measure\<close>

fun stage :: "task \<Rightarrow> nat" where
  "stage Resting = 0"
| "stage (Finishing a) = 1"
| "stage (Round a docs) = 2"
| "stage (Pooling k p) = 2"
| "stage (Walking a) = 3"
| "stage (Marking a) = 4"
| "stage (Listing a) = 5"
| "stage (Begin j) = 6"

text \<open>
  The failures the documents of an archive job can still take once the pool is through: a document
  in the pool counts one less.
\<close>

definition failures_left :: "database \<Rightarrow> cid list \<Rightarrow> cid list \<Rightarrow> nat" where
  "failures_left d inpool docs = sum_list (map (\<lambda>c. if c \<in> set inpool then budget d c - 1 else budget d c) docs)"

fun round_work :: "database \<Rightarrow> task \<Rightarrow> nat \<times> nat \<times> nat" where
  "round_work d (Round a docs) = (failures_left d [] docs, 0, 0)"
| "round_work d (Pooling k p) =
     (case k of None \<Rightarrow> 0 | Some (a, docs) \<Rightarrow> failures_left d (pool_docs p) docs, 1, pool_work p)"
| "round_work d k = (0, 0, 0)"

definition rest_measure :: "'w server \<times> task \<Rightarrow> nat \<times> nat \<times> nat \<times> nat \<times> nat" where
  "rest_measure x = (queue_work (ss_queue (fst x)), stage (snd x), round_work (db (ss_store (fst x))) (snd x))"

definition rest_order :: "((nat \<times> nat \<times> nat \<times> nat \<times> nat) \<times> (nat \<times> nat \<times> nat \<times> nat \<times> nat)) set" where
  "rest_order = less_than <*lex*> less_than <*lex*> less_than <*lex*> less_than <*lex*> less_than"

lemma wf_rest_order: "wf rest_order"
  by (simp add: rest_order_def wf_lex_prod)

lemma failures_left_mono:
  "(\<And>c. c \<in> set docs \<Longrightarrow> (if c \<in> set P' then budget d' c - 1 else budget d' c) \<le> (if c \<in> set P then budget d c - 1 else budget d c))
     \<Longrightarrow> failures_left d' P' docs \<le> failures_left d P docs"
  unfolding failures_left_def by (rule sum_list_mono) blast

lemma failures_left_less:
  assumes "pend = filter (\<lambda>c. budget d c > 0) docs" and "pend \<noteq> []"
  shows "failures_left d pend docs < failures_left d [] docs"
proof -
  obtain c where c: "c \<in> set docs" "budget d c > 0" using assms by (auto simp: filter_empty_conv)
  then obtain xs ys where docs: "docs = xs @ c # ys" by (meson split_list)
  have le: "sum_list (map (\<lambda>c. if c \<in> set pend then budget d c - 1 else budget d c) zs) \<le> sum_list (map (budget d) zs)" for zs
    by (rule sum_list_mono) simp
  have "c \<in> set pend" using c assms(1) by simp
  then show ?thesis using le [of xs] le [of ys] c(2) by (simp add: failures_left_def docs)
qed

lemma settle_budget:
  assumes "drv s = []" and "\<not> is_indexed (db s) c" and "fits out c"
  shows "budget (db (settle now out c s)) x \<le> (if x = c then budget (db s) c - 1 else budget (db s) x)"
  unfolding settle_db(2) [OF assms(1)]
  using assms(3) by (cases out) (auto simp: budget_bump budget_skip budget_add fits_def)

lemma pool_docs_final: "pool_final p \<Longrightarrow> pool_docs p = []"
  by (auto simp: pool_final_def pool_docs_def filter_empty_conv)

lemma pool_work_store [simp]: "pool_work (p\<lparr>pstore := s\<rparr>) = pool_work p"
  by (simp add: pool_work_def in_flight_def)

text \<open>A step of the pool does not raise the failures left.\<close>

lemma pool_step_failures:
  assumes "pool_step n (p\<lparr>pstore := s\<rparr>) p'" and "drv s = []" and "distinct (pool_docs p)"
    and "\<forall>c \<in> set (pool_docs p). \<not> is_indexed (db s) c"
  shows "failures_left (db (pstore p')) (pool_docs p') docs \<le> failures_left (db s) (pool_docs p) docs"
  using assms(1)
proof (cases rule: pool_step_docs)
  case 1
  then have "set (pool_docs p') = set (pool_docs p)" by (metis mset_eq_setD pool_docs_store)
  then show ?thesis using 1(1) by (simp add: failures_left_def)
next
  case (2 c out now)
  then have m: "mset (pool_docs p) = mset (c # pool_docs p')" by simp
  have c: "set (pool_docs p) = insert c (set (pool_docs p'))" "c \<notin> set (pool_docs p')"
    using assms(3) mset_eq_imp_distinct_iff [OF m] mset_eq_setD [OF m] by auto
  have st: "pstore p' = settle now out c s" using 2(2) by simp
  have b: "budget (db (pstore p')) x \<le> (if x = c then budget (db s) c - 1 else budget (db s) x)" for x
    unfolding st using assms(4) c(1) 2(1) by (intro settle_budget [OF assms(2)]) auto
  show ?thesis
  proof (rule failures_left_mono)
    fix x
    show "(if x \<in> set (pool_docs p') then budget (db (pstore p')) x - 1 else budget (db (pstore p')) x)
      \<le> (if x \<in> set (pool_docs p) then budget (db s) x - 1 else budget (db s) x)"
      using b [of x] c by (auto split: if_splits)
  qed
qed

lemma task_step_measure:
  assumes inv: "job_inv H (s, k)" and step: "task_step S dsk (ss_store s, k) (st, k')"
  shows "stage k' < stage k \<or> stage k' = stage k \<and>
    (round_work (db st) k', round_work (db (ss_store s)) k) \<in> less_than <*lex*> less_than <*lex*> less_than"
proof -
  let ?d = "db (ss_store s)"
  have drv: "drv (ss_store s) = []" and core: "core_ok ?d" and T: "task_inv H ?d (ss_queue s) k"
    using inv by (simp_all add: job_inv_def)
  show ?thesis
    using step
  proof (cases rule: task_step.cases)
    case (some_pending docs pend a)
    note p = Pending_core [OF drv core some_pending(3)]
    then have "failures_left ?d pend docs < failures_left ?d [] docs"
      using failures_left_less some_pending(4) by simp
    then show ?thesis using some_pending p(2) by simp
  next
    case (pool p p' x)
    have "distinct (pool_docs p)" "\<forall>c \<in> set (pool_docs p). \<not> is_indexed ?d c" using T pool(1) by simp_all
    note le = pool_step_failures [OF pool(5) drv this]
    moreover have "pool_work p' < pool_work p" using pool_step_work [OF pool(5)] by simp
    ultimately show ?thesis using pool(1-3) by (auto split: option.split simp: order_less_le)
  next
    case (pool_done p x)
    then have "st = ss_store s" "pool_docs p = []" using drv by (simp_all add: SaveAll_run Stats_run pool_docs_final)
    then show ?thesis using pool_done by (auto split: option.split)
  qed auto
qed

lemma quiet_decreases:
  assumes "quiet_step S x y" and "job_inv H x"
  shows "(rest_measure y, rest_measure x) \<in> rest_order"
  using assms
proof (induction rule: quiet_step.induct)
  case (send i s q k)
  then have "drain_step (ss_queue s) q" by (auto simp: drain_step_def)
  then show ?case using drain_step_work by (simp add: rest_measure_def rest_order_def)
next
  case (loop s q)
  then have "drain_step (ss_queue s) q" by (auto simp: drain_step_def)
  then show ?case using drain_step_work by (simp add: rest_measure_def rest_order_def)
next
  case (task s k st k')
  then show ?case using task_step_measure [of H s k S "ss_disk s" st k'] by (auto simp: rest_measure_def rest_order_def)
qed

section \<open>Progress\<close>

definition slots_ok :: "nat \<Rightarrow> task \<Rightarrow> bool" where
  "slots_ok n k \<longleftrightarrow> (case k of Pooling x p \<Rightarrow> length (slots p) = n | _ \<Rightarrow> True)"

lemma pool_step_slots: "pool_step n p p' \<Longrightarrow> length (slots p') = length (slots p)"
  by (induction rule: pool_step.induct) simp_all

lemma task_step_slots:
  assumes "task_step S d (s, k) (st, k')" and "slots_ok (nat (cfg_Workers (sv_cfg S))) k"
  shows "slots_ok (nat (cfg_Workers (sv_cfg S))) k'"
  using assms(1)
proof (cases rule: task_step.cases)
  case (pool p p' x)
  then show ?thesis using assms(2) pool_step_slots [OF pool(5)] by (simp add: slots_ok_def)
qed (auto simp: slots_ok_def pool_init_def split: option.split)

lemma task_progress:
  assumes "k \<noteq> Resting" and "slots_ok (nat (cfg_Workers (sv_cfg S))) k"
    and "cfg_Workers (sv_cfg S) > 0" and "cfg_Spacing (sv_cfg S) > 0"
  shows "\<exists>y. task_step S dsk (s, k) y"
proof (cases k)
  case (Begin j)
  then show ?thesis
  proof (cases j)
    case (JobArchive a owner)
    then show ?thesis using Begin archive_without_key begin_archive by blast
  next
    case (JobDocs cids)
    then show ?thesis using Begin docs_without_key begin_docs by (metis prod.collapse)
  qed
next
  case (Listing a)
  obtain docs s1 where "ArchiveDocCIDs a s = (docs, s1)" by fastforce
  then show ?thesis unfolding Listing using resume no_documents by (cases "length docs > 0") blast+
next
  case (Marking a)
  then show ?thesis using mark_crawling by blast
next
  case (Walking a)
  obtain x w' where "Crawl (sv_net S) (crawler_of (sv_cfg S)) a undefined = (x, w')" by fastforce
  then show ?thesis unfolding Walking by (cases x) (blast intro: crawl_error crawl_done)+
next
  case (Round a docs)
  obtain pend s1 where "Pending docs s = (pend, s1)" by fastforce
  then show ?thesis unfolding Round using some_pending none_pending by (cases "length pend = 0") blast+
next
  case (Pooling x p)
  show ?thesis
  proof (cases "pool_final p")
    case True
    then show ?thesis unfolding Pooling using pool_done by blast
  next
    case False
    then have "\<exists>q. pool_step (nat (cfg_Workers (sv_cfg S))) (p\<lparr>pstore := s\<rparr>) q"
      using assms(2,3) Pooling by (intro pool_progress_slots) (simp_all add: slots_ok_def pool_final_def)
    then show ?thesis unfolding Pooling using pool assms(4) by blast
  qed
next
  case (Finishing a)
  then show ?thesis using finish by blast
qed (use assms(1) in simp)

end
