(* ===== verification/System.thy ===== *)
theory System
  imports Handlers Rest
begin

text \<open>
  The whole process: requests whose handlers run in goroutines of their own, the queue and its
  goroutine, the job that goroutine runs, and the workers of the pool, over one store, in any
  interleaving of their calls and with restarts at any point. A restart keeps the database and the
  files and runs \<open>boot\<close>; a crash is a restart between two calls, since a transaction that is cut off
  leaves no trace. \<open>A\<close> says which requests may come in beside the handlers that are under way.
\<close>

section \<open>The process\<close>

inductive sys_step :: "(request \<Rightarrow> handler_state list \<Rightarrow> bool) \<Rightarrow> 'w service
    \<Rightarrow> 'w server \<times> task \<times> handler_state list \<Rightarrow> 'w server \<times> task \<times> handler_state list \<Rightarrow> bool" for A S where
  request:
    "A r ts \<Longrightarrow> accept S r (s\<lparr>ss_world := w\<rparr>) = (t, s') \<Longrightarrow> sys_step A S (s, k, ts) (s', k, ts @ [t])"
| handler:
    "i < length ts \<Longrightarrow> \<not> is_finished (ts ! i) \<Longrightarrow> handler_next S (ts ! i) (s\<lparr>ss_world := w\<rparr>) = (t, s') \<Longrightarrow>
     sys_step A S (s, k, ts) (s', k, ts[i := t])"
| job:
    "quiet_step S (s, k) (s', k') \<Longrightarrow> sys_step A S (s, k, ts) (s', k', ts)"
| restart:
    "sys_step A S (s, k, ts) (boot now (db (ss_store s)) [] (ss_disk s) w, Resting, [])"

inductive sys_reach :: "(request \<Rightarrow> handler_state list \<Rightarrow> bool) \<Rightarrow> 'w service
    \<Rightarrow> 'w server \<times> task \<times> handler_state list \<Rightarrow> bool" for A S where
  start: "sys_reach A S (boot now empty_db [] dsk w, Resting, [])"
| step: "sys_reach A S x \<Longrightarrow> sys_step A S x y \<Longrightarrow> sys_reach A S y"

definition any_request :: "request \<Rightarrow> handler_state list \<Rightarrow> bool" where
  "any_request r ts \<longleftrightarrow> True"

text \<open>No document is deleted while a retry of it is between its two calls on the store.\<close>

definition undisturbed :: "request \<Rightarrow> handler_state list \<Rightarrow> bool" where
  "undisturbed r ts \<longleftrightarrow>
     (in_path r = ''/api/admin/delete-document'' \<longrightarrow> Locating (trim_space (in_form r ''cid'')) \<notin> set ts)"

section \<open>What a handler has in hand\<close>

text \<open>The archives a handler is going to queue.\<close>

fun held :: "database \<Rightarrow> handler_state \<Rightarrow> cid set" where
  "held d (Locating c) = {a. c \<in> m_doc ` set (member_rows a d)}"
| "held d (Registering a owner as ans) = insert a (set as)"
| "held d (Posting j as ans) = {a. \<exists>owner. j = JobArchive a owner} \<union> set as"
| "held d _ = {}"

definition in_hand :: "database \<Rightarrow> handler_state list \<Rightarrow> cid set" where
  "in_hand d ts = (\<Union>t \<in> set ts. held d t)"

fun posts_ok :: "handler_state \<Rightarrow> bool" where
  "posts_ok (Posting j as ans) = (\<forall>cs. j = JobDocs cs \<longrightarrow> length cs = 1)"
| "posts_ok _ = True"

lemma handler_next_posts: "posts_ok t \<Longrightarrow> posts_ok (fst (handler_next S t s))"
  by (cases t) (auto split: prod.split sum.split option.split list.split)

lemma accept_posts: "posts_ok (fst (accept S r s))"
  by (simp add: accept_def with_cid_def Let_def case_prod_beta)

lemma held_cong: "archive_docs d' = archive_docs d \<Longrightarrow> held d' t = held d t"
  by (cases t) (simp_all add: member_rows_def)

lemma in_hand_cong: "archive_docs d' = archive_docs d \<Longrightarrow> in_hand d' ts = in_hand d ts"
  using ext [of "held d'" "held d", OF held_cong] by (simp add: in_hand_def)

lemma in_hand_simps [simp]:
  "in_hand d [] = {}" "in_hand d (t # ts) = held d t \<union> in_hand d ts" "in_hand d (ts @ us) = in_hand d ts \<union> in_hand d us"
  by (auto simp: in_hand_def)

lemma in_hand_put:
  "i < length ts \<Longrightarrow> in_hand d (ts[i := t]) = in_hand d (take i ts @ drop (Suc i) ts) \<union> held d t"
  by (simp add: upd_conv_take_nth_drop) blast

lemma in_hand_at:
  "i < length ts \<Longrightarrow> in_hand d ts = in_hand d (take i ts @ drop (Suc i) ts) \<union> held d (ts ! i)"
  using in_hand_put [of i ts d "ts ! i"] by simp

section \<open>The steps of a handler\<close>

lemma core_retry: "core_ok d \<Longrightarrow> core_ok (delete_failure c d)"
  by (simp add: delete_failure_def core_delete_failures)

text \<open>
  A handler that takes a step moves what it holds: into its next state or into the queue. The
  members of archives do not change.
\<close>

lemma handler_inv:
  assumes inv: "job_inv (G \<union> held (db (ss_store s)) t) (s, k)" and "posts_ok t"
    and call: "handler_next S t s = (t', s')"
  shows "job_inv (G \<union> held (db (ss_store s')) t') (s', k)" "archive_docs (db (ss_store s')) = archive_docs (db (ss_store s))"
proof -
  let ?st = "ss_store s" and ?d = "db (ss_store s)"
  have drv: "drv ?st = []" and core: "core_ok ?d" using inv by (simp_all add: job_inv_def)
  have both: "job_inv (G \<union> held (db (ss_store s')) t') (s', k) \<and> archive_docs (db (ss_store s')) = archive_docs ?d"
  proof (cases t)
    case (Checking c owner)
    then show ?thesis using call inv reads(1) [OF drv, of c] by (auto split: prod.splits if_splits)
  next
    case (Keying c owner)
    then show ?thesis using call inv by (auto split: if_splits)
  next
    case (Classifying c owner)
    then show ?thesis using call inv by (auto simp: job_inv_def split: prod.splits sum.splits)
  next
    case (Choosing c kind owner)
    have "job_inv (insert c G) (s, k)" by (rule guarantee_inv [OF inv guarantee_refl]) (simp add: Choosing)
    then show ?thesis using call inv Choosing by (auto split: if_splits)
  next
    case (Reviewing c sk owner)
    have "job_inv G (s\<lparr>ss_store := AddSubmission (server_now S s) c sk owner ?st\<rparr>, k)"
      by (rule guarantee_inv [OF inv]) (use Reviewing guarantee_submission in auto)
    then show ?thesis using call Reviewing drv by (auto simp: AddSubmission_run)
  next
    case (Retrying c)
    let ?s1 = "s\<lparr>ss_store := ?st\<lparr>db := delete_failure c ?d\<rparr>\<rparr>" and ?found = "c \<in> f_cid ` set (failures ?d)"
    have r: "RetryFailure c ?st = (?found, ss_store ?s1)" using drv by (simp add: RetryFailure_run)
    have p: "pending_in a (delete_failure c ?d) \<subseteq> pending_in a ?d \<union> ({c} \<inter> m_doc ` set (member_rows a ?d))" for a
      by (rule pending_in_delete_failure)
    have "job_inv (G \<union> held ?d (Locating c)) (?s1, k)"
      by (rule interfere_inv [OF inv])
        (use core core_retry p Retrying in \<open>auto simp: drv unfinished_def member_rows_def is_indexed_def\<close>)
    moreover have "?s1 = s" if "\<not> ?found"
    proof -
      have "sql_delete (\<lambda>f. f_cid f = c) (failures ?d) = failures ?d"
        using that by (intro sql_delete_id) (metis image_eqI)
      then show ?thesis by (simp add: delete_failure_def)
    qed
    ultimately show ?thesis using call inv Retrying r by (auto simp: member_rows_def split: if_splits)
  next
    case (Locating c)
    let ?archs = "map m_arch (filter (\<lambda>m. m_doc m = c) (archive_docs ?d))"
    have a: "ArchivesContaining c ?st = (?archs, ?st)" using drv by (simp add: ArchivesContaining_def tx_simps)
    have "set ?archs = held ?d t" by (auto simp: Locating member_rows_def image_iff)
    then show ?thesis using call inv Locating a by (cases ?archs) auto
  next
    case (Taking c)
    let ?s1 = "s\<lparr>ss_store := snd (TakeSubmission c ?st)\<rparr>"
    have "job_inv (insert c G) (?s1, k)" "job_inv G (?s1, k)"
      by (rule guarantee_inv [OF inv]; use Taking guarantee_take in auto)+
    then show ?thesis using call Taking drv by (auto simp: TakeSubmission_run split: prod.splits option.splits)
  next
    case (Registering a owner as ans)
    let ?s1 = "s\<lparr>ss_store := snd (AddArchive (server_now S s) a owner ?st)\<rparr>"
    note d = AddArchive_db [OF drv, of "server_now S s" a owner]
    have "job_inv (G \<union> insert a (set as)) (?s1, k)"
      by (rule interfere_inv [OF inv])
        (use subsetD [OF unfinished_add_archive [of "server_now S s" a "trim_space owner" ?d]]
            pending_in_cong [of "db (ss_store ?s1)" ?d] core in
          \<open>auto simp: d core_add_archive member_rows_def is_indexed_def Registering\<close>)
    then show ?thesis using call Registering d by auto
  next
    case (Posting j as ans)
    let ?s1 = "s\<lparr>ss_queue := enqueue j (ss_queue s)\<rparr>"
    have "queued_archives (enqueue j (ss_queue s)) = {a. \<exists>owner. j = JobArchive a owner} \<union> queued_archives (ss_queue s)"
      by (cases j) auto
    then have "job_inv (G \<union> set as) (?s1, k)"
      by (intro interfere_inv [OF inv]) (use assms(2) in \<open>auto simp: drv core Posting\<close>)
    then show ?thesis using call Posting by (cases as) auto
  next
    case (Answering ans)
    then show ?thesis using call inv by auto
  next
    case (Finished r)
    then show ?thesis using call inv by auto
  qed
  then show "job_inv (G \<union> held (db (ss_store s')) t') (s', k)" "archive_docs (db (ss_store s')) = archive_docs ?d" by blast+
qed

section \<open>The steps of the others\<close>

text \<open>A step of the job changes the members of no archive but its own.\<close>

lemma task_step_members:
  assumes "job_inv G (s, k)" and "task_step S dsk (ss_store s, k) (st, k')"
  shows "member_rows a (db st) = member_rows a (db (ss_store s)) \<or> (\<exists>docs. k' = Round a docs)"
proof -
  have drv: "drv (ss_store s) = []" and core: "core_ok (db (ss_store s))" using assms(1) by (simp_all add: job_inv_def)
  show ?thesis
    using assms(2)
  proof (cases rule: task_step.cases)
    case (begin_docs cids pend)
    then show ?thesis using Pending_core(2) [OF drv core] by simp
  next
    case (some_pending docs pend b)
    then show ?thesis using Pending_core(2) [OF drv core] by simp
  next
    case (none_pending docs pend b)
    then show ?thesis using Pending_core(2) [OF drv core] by simp
  next
    case (crawl_done b w docs w')
    then have "distinct docs" by (intro crawl_distinct)
    then show ?thesis
      using crawl_done drv by (auto simp: SetArchiveDocs_run set_docs_distinct member_rows_def member_row_of_def
          sql_delete_def filter_map o_def intro!: filter_cong)
  next
    case (pool p p' x)
    have "archive_docs (db (pstore p')) = archive_docs (db (ss_store s))"
      using pool(5)
    proof (cases rule: pool_step_docs)
      case (2 c out now)
      then show ?thesis using settle_db(2) [OF drv, of now out c] by (cases out) (simp_all add: add_db_def Let_def)
    qed simp
    then show ?thesis using pool(2) by (simp add: member_rows_def)
  qed (use drv in \<open>auto simp: MarkArchiveFailed_def MarkArchiveCrawling_def updateArchive_run AddArchive_db
      SetArchiveDocs_run FinalizeArchive_run SaveAll_run GetArchive_run Stats_run member_rows_def
      ArchiveDocCIDs_run Pending_run\<close>)
qed

lemma task_step_submissions:
  assumes "job_inv G (s, k)" and "task_step S dsk (ss_store s, k) (st, k')"
  shows "submissions (db st) = submissions (db (ss_store s))"
proof -
  have drv: "drv (ss_store s) = []" and core: "core_ok (db (ss_store s))" using assms(1) by (simp_all add: job_inv_def)
  show ?thesis
    using assms(2)
  proof (cases rule: task_step.cases)
    case (begin_docs cids pend)
    then show ?thesis using Pending_core(2) [OF drv core] by simp
  next
    case (some_pending docs pend b)
    then show ?thesis using Pending_core(2) [OF drv core] by simp
  next
    case (none_pending docs pend b)
    then show ?thesis using Pending_core(2) [OF drv core] by simp
  next
    case (crawl_done b w docs w')
    then have "distinct docs" by (intro crawl_distinct)
    then show ?thesis using crawl_done drv by (simp add: SetArchiveDocs_run set_docs_distinct update_arch_def)
  next
    case (pool p p' x)
    have "submissions (db (pstore p')) = submissions (db (ss_store s))"
      using pool(5)
    proof (cases rule: pool_step_docs)
      case (2 c out now)
      then show ?thesis using settle_db(2) [OF drv, of now out c] by (cases out) (simp_all add: add_db_def Let_def upsert_failure_def)
    qed simp
    then show ?thesis using pool(2) by simp
  qed (use drv in \<open>auto simp: MarkArchiveFailed_def MarkArchiveCrawling_def updateArchive_run AddArchive_db
      SetArchiveDocs_run FinalizeArchive_run SaveAll_run GetArchive_run Stats_run add_archive_db_def update_arch_def
      ArchiveDocCIDs_run\<close>)
qed

text \<open>
  A request that is taken whole changes the members of an archive only by deleting a document or an
  archive.
\<close>

definition keeps_member :: "cid \<Rightarrow> store \<Rightarrow> store \<Rightarrow> bool" where
  "keeps_member c st st' \<longleftrightarrow> (\<forall>a. c \<in> m_doc ` set (member_rows a (db st)) \<longrightarrow>
     c \<in> m_doc ` set (member_rows a (db st')) \<or> member_rows a (db st') = [] \<and> a \<notin> r_cid ` set (archives (db st')))"

lemma keeps_member_same: "archive_docs (db st') = archive_docs (db st) \<Longrightarrow> keeps_member c st st'"
  by (simp add: keeps_member_def member_rows_def)

lemma members_page: "ss_store (snd (h_page n S r s)) = ss_store s"
  by (simp add: h_page_def split: prod.split)

lemma members_reading:
  assumes "drv (ss_store s) = []" and "h \<in> {h_suggest, h_recent, h_stats, h_failures, h_archives, h_archives_search,
     h_submissions, h_login, h_logout, h_session, h_api_key}"
  shows "ss_store (snd (h S r s)) = ss_store s"
  using assms
  by (auto simp: quiet_handlers h_login_def h_logout_def h_session_def h_api_key_def Let_def case_prod_beta
      split: option.split sum.split)

lemma members_moderation:
  assumes "drv (ss_store s) = []" and "h \<in> {h_review_mode, h_deny}"
  shows "archive_docs (db (ss_store (snd (h S r s)))) = archive_docs (db (ss_store s))"
  using assms by (auto simp: h_review_mode_def h_deny_def Let_def Review_run Deny_run)

lemma members_searching:
  assumes "drv (ss_store s) = []"
  shows "archive_docs (db (ss_store (snd (h_search S r s)))) = archive_docs (db (ss_store s))"
    "ss_store (snd (h_archive S r s)) = ss_store s" "ss_store (snd (h_ipfs S r s)) = ss_store s"
proof -
  show "archive_docs (db (ss_store (snd (h_search S r s)))) = archive_docs (db (ss_store s))"
    using assms by (simp add: h_search_def Let_def case_prod_beta)
  obtain o1 where g: "GetArchive (trim_space (in_query r ''cid'')) (ss_store s) = (o1, ss_store s)"
    using reads(10) [OF assms] by (metis prod.collapse)
  then show "ss_store (snd (h_archive S r s)) = ss_store s"
    using assms by (simp add: h_archive_def Let_def case_prod_beta split: option.split)
  have "ss_store (snd (indexedIPFS nxt S r s)) = ss_store s"
    if "\<And>s'. ss_store (snd (nxt S r s')) = ss_store s'" for nxt
    using that assms by (simp add: indexedIPFS_def Let_def case_prod_beta split: option.split)
  moreover have "ss_store (snd (ipfsAPIProxy api S r s')) = ss_store s'" for api s'
    by (simp add: ipfsAPIProxy_def Let_def split: prod.split sum.split)
  moreover have "ss_store (snd (gatewayProxy gw S r s')) = ss_store s'" for gw s'
    by (simp add: gatewayProxy_def Let_def split: prod.split sum.split)
  ultimately show "ss_store (snd (h_ipfs S r s)) = ss_store s" by (simp add: h_ipfs_def)
qed

lemma members_deleting:
  assumes "drv (ss_store s) = []"
  shows "keeps_member c (ss_store s) (ss_store (snd (h_delete_archive S r s)))"
    "trim_space (in_form r ''cid'') \<noteq> c \<Longrightarrow> keeps_member c (ss_store s) (ss_store (snd (h_delete_document S r s)))"
proof -
  have "keeps_member c st (st\<lparr>db := delete_archive_db b (db st)\<rparr>)" for b st
    unfolding keeps_member_def
  proof (intro allI impI)
    fix a
    assume "c \<in> m_doc ` set (member_rows a (db st))"
    then show "c \<in> m_doc ` set (member_rows a (db (st\<lparr>db := delete_archive_db b (db st)\<rparr>)))
        \<or> member_rows a (db (st\<lparr>db := delete_archive_db b (db st)\<rparr>)) = []
          \<and> a \<notin> r_cid ` set (archives (db (st\<lparr>db := delete_archive_db b (db st)\<rparr>)))"
      using delete_archive_gone [of b "db st"] delete_archive_rows [of a b "db st"]
      by (cases "a = b") (auto simp: archive_exists_def)
  qed
  then show "keeps_member c (ss_store s) (ss_store (snd (h_delete_archive S r s)))"
    using assms by (auto simp: h_delete_archive_def Let_def case_prod_beta DeleteArchive_run SaveAll_run keeps_member_same)
  have "keeps_member c st (st\<lparr>db := delete_doc_db x (db st)\<rparr>)" if "x \<noteq> c" for x st
    using that by (auto simp: keeps_member_def member_rows_delete)
  then show "trim_space (in_form r ''cid'') \<noteq> c \<Longrightarrow> keeps_member c (ss_store s) (ss_store (snd (h_delete_document S r s)))"
    using assms by (auto simp: h_delete_document_def Let_def case_prod_beta DeleteDocument_run SaveAll_run keeps_member_same)
qed

lemma request_keeps:
  assumes drv: "drv (ss_store s) = []" and path: "in_path r \<notin> {''/api/submit'', ''/api/retry'', ''/api/admin/approve''}"
    and del: "in_path r = ''/api/admin/delete-document'' \<longrightarrow> trim_space (in_form r ''cid'') \<noteq> c"
  shows "keeps_member c (ss_store s) (ss_store (snd (serve S r s)))"
proof (cases "map_of open_routes (in_path r) :: 'a handler option")
  case None
  show ?thesis
  proof (cases "map_of admin_routes (in_path r) :: 'a handler option")
    case None2: None
    show ?thesis using None None2 members_searching(3) [OF drv] members_page [of "''dashboard''" S r s]
      by (auto simp: serve_def intro!: keeps_member_same)
  next
    case (Some h)
    have kept: "keeps_member c (ss_store s') (ss_store (snd (h S r s')))" if "drv (ss_store s') = []" for s'
      using Some path del that members_reading [OF that] members_moderation [OF that] members_deleting [OF that]
      by (auto simp: admin_routes_def keeps_member_same split: if_splits)
    have "keeps_member c (ss_store s) (ss_store (snd (requireAdmin h S r s)))"
      using drv kept [of "s\<lparr>ss_sessions := snd (authed (server_now S s) (in_cookie r) (ss_sessions s))\<rparr>"]
      by (auto simp: requireAdmin_def Let_def case_prod_beta keeps_member_same)
    then show ?thesis using None Some by (simp add: serve_def)
  qed
next
  case (Some h)
  have "keeps_member c (ss_store s) (ss_store (snd (h S r s)))"
    using Some path members_page [of "''admin''" S r s] members_reading [OF drv] members_searching [OF drv]
    by (auto simp: open_routes_def keeps_member_same split: if_splits)
  then show ?thesis using Some by (simp add: serve_def)
qed

lemma gone_settled:
  "member_rows a d = [] \<Longrightarrow> a \<notin> r_cid ` set (archives d) \<Longrightarrow> a \<notin> unfinished d \<and> pending_in a d = {}"
  by (auto simp: unfinished_def pending_in_def)

lemma held_keeps:
  assumes "\<And>c. t = Locating c \<Longrightarrow> keeps_member c st st'" and "a \<in> held (db st) t"
  shows "a \<in> held (db st') t \<or> a \<notin> unfinished (db st') \<and> pending_in a (db st') = {}"
  using assms gone_settled [of a "db st'"] by (cases t) (auto simp: keeps_member_def)

lemma accept_cases:
  assumes "accept S r s = (t, s')"
  obtains "held d t = {}" and "ss_store s' = ss_store s" and "ss_queue s' = ss_queue s"
  | "in_path r \<notin> {''/api/submit'', ''/api/retry'', ''/api/admin/approve''}" and "held d t = {}" and "s' = snd (serve S r s)"
  using assms by (auto simp: accept_def with_cid_def Let_def split: prod.splits if_splits)

lemma accept_guarantee: "guarantee (shared s) (shared (snd (accept S r s)))"
proof (cases "accept S r s")
  case (Pair t s')
  then show ?thesis
  proof (cases rule: accept_cases [where d = empty_db])
    case 1
    then show ?thesis using Pair by simp
  next
    case 2
    then show ?thesis using Pair serve_guarantee by simp
  qed
qed

lemma accept_inv:
  assumes inv: "job_inv (in_hand (db (ss_store s)) ts) (s, k)" and u: "undisturbed r ts" and "accept S r s = (t, s')"
  shows "job_inv (in_hand (db (ss_store s')) (ts @ [t])) (s', k)"
  using assms(3)
proof (cases rule: accept_cases [where d = "db (ss_store s')"])
  case 1
  then show ?thesis using inv by (simp add: job_inv_def)
next
  case 2
  have drv: "drv (ss_store s) = []" using inv by (simp add: job_inv_def)
  show ?thesis
  proof (rule guarantee_inv [OF inv])
    show "guarantee (shared s) (shared s')" using serve_guarantee 2(3) by simp
    fix a
    assume "a \<in> in_hand (db (ss_store s)) ts"
    then obtain x where x: "x \<in> set ts" "a \<in> held (db (ss_store s)) x" by (auto simp: in_hand_def)
    have "keeps_member c (ss_store s) (ss_store s')" if "x = Locating c" for c
      unfolding 2(3) using drv 2(1) by (rule request_keeps) (use u x(1) that in \<open>auto simp: undisturbed_def\<close>)
    from held_keeps [OF this x(2)] x(1)
    show "a \<in> in_hand (db (ss_store s')) (ts @ [t]) \<or> a \<notin> unfinished (db (ss_store s')) \<and> pending_in a (db (ss_store s')) = {}"
      by (auto simp: in_hand_def)
  qed
qed

lemma job_inv_shift:
  assumes "job_inv G (s, k)" and "\<And>a. a \<in> G \<Longrightarrow> a \<in> G' \<or> (\<exists>docs. k = Round a docs)"
  shows "job_inv G' (s, k)"
  using assms by (cases k) (auto simp: job_inv_def)

lemma quiet_inv:
  assumes "quiet_step S x y" and "job_inv G x"
  shows "job_inv G y"
  using assms by (induction rule: quiet_step.induct) (auto intro: send_inv loop_inv task_step_inv)

lemma quiet_hand:
  assumes "quiet_step S (s, k) (s', k')" and "job_inv (in_hand (db (ss_store s)) ts) (s, k)"
  shows "job_inv (in_hand (db (ss_store s')) ts) (s', k')"
proof (rule job_inv_shift [OF quiet_inv [OF assms]])
  fix a
  assume a: "a \<in> in_hand (db (ss_store s)) ts"
  have "member_rows a (db (ss_store s')) = member_rows a (db (ss_store s)) \<or> (\<exists>docs. k' = Round a docs)"
    using assms(1)
  proof (cases rule: quiet_step.cases)
    case (task st)
    then show ?thesis using task_step_members [OF assms(2) task(2), of a] by auto
  qed auto
  moreover have "a \<in> held (db (ss_store s')) t"
    if "a \<in> held (db (ss_store s)) t" "member_rows a (db (ss_store s')) = member_rows a (db (ss_store s))" for t
    using that by (cases t) auto
  ultimately show "a \<in> in_hand (db (ss_store s')) ts \<or> (\<exists>docs. k' = Round a docs)"
    using a by (auto simp: in_hand_def)
qed

section \<open>The invariants\<close>

lemma posts_reach: "sys_reach A S x \<Longrightarrow> list_all posts_ok (snd (snd x))"
proof (induction rule: sys_reach.induct)
  case (step x y)
  from step.hyps(2) step.IH show ?case
  proof (induction rule: sys_step.induct)
    case (request r ts w s t s' k)
    then show ?case using accept_posts [of S r "s\<lparr>ss_world := w\<rparr>"] by simp
  next
    case (handler i ts w s t s' k)
    then have "posts_ok t" using handler_next_posts [of "ts ! i" S "s\<lparr>ss_world := w\<rparr>"] by (simp add: list_all_length)
    then show ?case using handler by (simp add: list_all_length nth_list_update)
  qed auto
qed simp

lemma world_inv [simp]: "job_inv G (s\<lparr>ss_world := w\<rparr>, k) = job_inv G (s, k)"
  by (simp add: job_inv_def)

text \<open>Whatever requests come in: the part of the invariant that does not speak of the queue.\<close>

lemma reach_consistent: "sys_reach A S x \<Longrightarrow> job_inv UNIV (fst x, fst (snd x))"
proof (induction rule: sys_reach.induct)
  case (start now dsk w)
  show ?case using boot_inv [OF store_ok_core [OF store_ok_empty]] by simp
next
  case (step x y)
  have "list_all posts_ok (snd (snd x))" using step.hyps(1) by (rule posts_reach)
  with step.hyps(2) step.IH show ?case
  proof (induction rule: sys_step.induct)
    case (request r ts w s t s' k)
    then have inv: "job_inv UNIV (s\<lparr>ss_world := w\<rparr>, k)" by simp
    then show ?case using guarantee_inv [OF inv accept_guarantee, of UNIV S r] request(2) by simp
  next
    case (handler i ts w s t s' k)
    then show ?case using handler_inv(1) [of UNIV "s\<lparr>ss_world := w\<rparr>" "ts ! i" k S t s'] by (simp add: list_all_length)
  next
    case (job s k s' k' ts)
    then show ?case using quiet_inv by fastforce
  next
    case (restart s k ts now w)
    then have "core_ok (db (ss_store s))" by (simp add: job_inv_def)
    then show ?case using boot_inv by simp
  qed
qed

text \<open>As long as no retry is disturbed: every unfinished archive is in the queue or in a handler's or the job's hands.\<close>

lemma reach_accounted:
  assumes "\<And>r ts. A r ts \<Longrightarrow> undisturbed r ts"
  shows "sys_reach A S x \<Longrightarrow> job_inv (in_hand (db (ss_store (fst x))) (snd (snd x))) (fst x, fst (snd x))"
proof (induction rule: sys_reach.induct)
  case (start now dsk w)
  show ?case using boot_inv [OF store_ok_core [OF store_ok_empty]] by simp
next
  case (step x y)
  have "list_all posts_ok (snd (snd x))" using step.hyps(1) by (rule posts_reach)
  with step.hyps(2) step.IH show ?case
  proof (induction rule: sys_step.induct)
    case (request r ts w s t s' k)
    then show ?case using accept_inv [of "s\<lparr>ss_world := w\<rparr>" ts k r S t s'] assms by simp
  next
    case (handler i ts w s t s' k)
    let ?d = "db (ss_store s)" and ?s = "s\<lparr>ss_world := w\<rparr>"
    let ?G = "in_hand ?d (take i ts @ drop (Suc i) ts)"
    have "job_inv (?G \<union> held (db (ss_store ?s)) (ts ! i)) (?s, k)"
      using handler.prems(1) in_hand_at [OF handler.hyps(1), of ?d] by simp
    moreover have "posts_ok (ts ! i)" using handler.prems(2) handler.hyps(1) by (simp add: list_all_length)
    ultimately have h: "job_inv (?G \<union> held (db (ss_store s')) t) (s', k)" "archive_docs (db (ss_store s')) = archive_docs ?d"
      using handler_inv [OF _ _ handler.hyps(3)] by simp_all
    then show ?case using in_hand_put [OF handler.hyps(1)] in_hand_cong [OF h(2)] by simp
  next
    case (job s k s' k' ts)
    then show ?case using quiet_hand by fastforce
  next
    case (restart s k ts now w)
    then have "core_ok (db (ss_store s))" by (simp add: job_inv_def)
    then show ?case using boot_inv by simp
  qed
qed

section \<open>After the last request\<close>

text \<open>What goes on without further requests: handlers, queue, job and pool.\<close>

inductive idle_step :: "'w service \<Rightarrow> 'w server \<times> task \<times> handler_state list
    \<Rightarrow> 'w server \<times> task \<times> handler_state list \<Rightarrow> bool" for S where
  handler:
    "i < length ts \<Longrightarrow> \<not> is_finished (ts ! i) \<Longrightarrow> handler_next S (ts ! i) (s\<lparr>ss_world := w\<rparr>) = (t, s') \<Longrightarrow>
     idle_step S (s, k, ts) (s', k, ts[i := t])"
| job: "quiet_step S (s, k) (s', k') \<Longrightarrow> idle_step S (s, k, ts) (s', k', ts)"

lemma idle_sys: "idle_step S x y \<Longrightarrow> sys_step A S x y"
  by (induction rule: idle_step.induct) (auto intro: sys_step.intros)

lemma idle_reach: "(idle_step S)\<^sup>*\<^sup>* x y \<Longrightarrow> sys_reach A S x \<Longrightarrow> sys_reach A S y"
  by (induction rule: rtranclp_induct) (auto intro: sys_reach.step idle_sys)

definition idle_measure :: "'w server \<times> task \<times> handler_state list
    \<Rightarrow> (nat \<times> nat) list \<times> nat \<times> nat \<times> nat \<times> nat \<times> nat" where
  "idle_measure x = (map calls_left (snd (snd x)), rest_measure (fst x, fst (snd x)))"

definition idle_order where
  "idle_order = lex calls_order <*lex*> rest_order"

lemma wf_idle_order: "wf idle_order"
  by (simp add: idle_order_def wf_lex_prod wf_lex wf_calls_order wf_rest_order)

lemma lex_update:
  assumes "i < length ts" and "(f t, f (ts ! i)) \<in> R"
  shows "(map f (ts[i := t]), map f ts) \<in> lex R"
proof -
  have "map f (ts[i := t]) = map f (take i ts) @ f t # map f (drop (Suc i) ts)"
    using assms(1) by (simp add: upd_conv_take_nth_drop)
  moreover have "map f ts = map f (take i ts) @ f (ts ! i) # map f (drop (Suc i) ts)"
    using arg_cong [OF id_take_nth_drop [OF assms(1)], of "map f"] by simp
  ultimately show ?thesis using assms(2) unfolding lex_conv by auto
qed

lemma idle_decreases:
  assumes "idle_step S x y" and "sys_reach A S x"
  shows "(idle_measure y, idle_measure x) \<in> idle_order"
  using assms
proof (induction rule: idle_step.induct)
  case (handler i ts w s t s' k)
  then have "(calls_left t, calls_left (ts ! i)) \<in> calls_order"
    using handler_next_calls [of "ts ! i" S "s\<lparr>ss_world := w\<rparr>"] by simp
  then have "(map calls_left (ts[i := t]), map calls_left ts) \<in> lex calls_order" by (rule lex_update [OF handler.hyps(1)])
  then show ?case by (simp add: idle_measure_def idle_order_def)
next
  case (job s k s' k' ts)
  then have "job_inv UNIV (s, k)" using reach_consistent by fastforce
  then show ?case using quiet_decreases [OF job.hyps] by (simp add: idle_measure_def idle_order_def)
qed

lemma no_endless_run:
  assumes "sys_reach A S (f 0)"
  shows "\<exists>i. \<not> idle_step S (f i) (f (Suc i))"
proof (rule ccontr)
  assume "\<not> ?thesis"
  then have q: "idle_step S (f i) (f (Suc i))" for i by blast
  have "sys_reach A S (f i)" for i
    using assms by (induction i) (auto intro: sys_reach.step idle_sys q)
  then have "(idle_measure (f (Suc i)), idle_measure (f i)) \<in> idle_order" for i
    using idle_decreases [OF q] by blast
  then show False
    using wf_idle_order unfolding wf_iff_no_infinite_down_chain by (meson)
qed

lemma rest_exists:
  assumes "sys_reach A S x"
  shows "\<exists>y. (idle_step S)\<^sup>*\<^sup>* x y \<and> (\<nexists>z. idle_step S y z)"
  using assms
proof (induction x rule: wf_induct_rule [OF wf_inv_image [OF wf_idle_order, of idle_measure]])
  case (1 x)
  show ?case
  proof (cases "\<exists>z. idle_step S x z")
    case True
    then obtain z where z: "idle_step S x z" by blast
    have "(idle_measure z, idle_measure x) \<in> idle_order" using z 1(2) by (rule idle_decreases)
    then obtain y where "(idle_step S)\<^sup>*\<^sup>* z y" "\<nexists>z. idle_step S y z"
      using 1 z sys_reach.step idle_sys by (metis in_inv_image)
    then show ?thesis using z by (meson converse_rtranclp_into_rtranclp)
  next
    case False
    then show ?thesis by (meson rtranclp.rtrancl_refl)
  qed
qed

lemma sys_reach_slots: "sys_reach A S x \<Longrightarrow> slots_ok (nat (cfg_Workers (sv_cfg S))) (fst (snd x))"
proof (induction rule: sys_reach.induct)
  case (step x y)
  from step.hyps(2) step.IH show ?case
  proof (induction rule: sys_step.induct)
    case (job s k s' k' ts)
    from job.hyps job.prems show ?case
    proof (cases rule: quiet_step.cases)
      case (task st)
      then show ?thesis using job.prems task_step_slots by simp
    qed (auto simp: slots_ok_def task_of_def split: phase.split)
  qed (auto simp: slots_ok_def)
qed (simp add: slots_ok_def)

lemma rest_or_step:
  assumes "sys_reach A S (s, k, ts)" and "cfg_Workers (sv_cfg S) > 0" and "cfg_Spacing (sv_cfg S) > 0"
    and stop: "\<nexists>y. idle_step S (s, k, ts) y"
  shows "k = Resting" "drained (ss_queue s)" "list_all is_finished ts"
proof -
  show k: "k = Resting"
  proof (rule ccontr)
    assume "k \<noteq> Resting"
    then obtain st k' where "task_step S (ss_disk s) (ss_store s, k) (st, k')"
      using task_progress sys_reach_slots [OF assms(1)] assms(2,3) by (metis prod.collapse fst_conv snd_conv)
    then show False using stop quiet_step.task idle_step.job by blast
  qed
  show "drained (ss_queue s)"
  proof (rule ccontr)
    assume "\<not> drained (ss_queue s)"
    then obtain q where "drain_step (ss_queue s) q" using drain_progress by blast
    then show False using stop k quiet_step.send quiet_step.loop idle_step.job unfolding drain_step_def by blast
  qed
  show "list_all is_finished ts"
    unfolding list_all_length
  proof (intro allI impI, rule ccontr)
    fix i
    assume "i < length ts" "\<not> is_finished (ts ! i)"
    then show False using stop idle_step.handler by (metis prod.collapse)
  qed
qed

lemma nothing_unfinished:
  assumes "\<And>r ts. A r ts \<Longrightarrow> undisturbed r ts" and "sys_reach A S (s, Resting, ts)" and "drained (ss_queue s)"
    and "list_all is_finished ts"
  shows "\<forall>r \<in> set (archives (db (ss_store s))). r_status r \<in> {Done, Failed}"
proof
  fix r
  assume r: "r \<in> set (archives (db (ss_store s)))"
  have "held d t = {}" if "is_finished t" for d t using that by (cases t) auto
  then have "in_hand (db (ss_store s)) ts = {}" using assms(4) by (simp add: in_hand_def list_all_iff)
  moreover have "jobs_in (ss_queue s) = {}" using assms(3) by (simp add: drained_def jobs_in_def in_worker_def)
  ultimately have "unfinished (db (ss_store s)) = {}"
    using reach_accounted [OF assms(1,2)] by (auto simp: job_inv_def queued_archives_def)
  then show "r_status r \<in> {Done, Failed}" using r by (cases "r_status r") (auto simp: unfinished_def)
qed

end
