(* ===== verification/System_Properties.thy ===== *)
theory System_Properties
  imports System
begin

text \<open>
  What holds of the whole process, with its requests, its queue, its job and its workers in any
  interleaving, and across restarts, and what two requests can do to each other.
\<close>

section \<open>A process that has taken a submission\<close>

definition fresh_server :: "unit server" where
  "fresh_server = boot 1 empty_db [] key_disk ()"

definition submit_root :: request where
  "submit_root = post_to ''/api/submit'' [(''cid'', ''QmRoot'')] None"

definition busy_server :: "unit server" where
  "busy_server = snd (h_submit small_service submit_root fresh_server)"

lemma same_world [simp]: "s\<lparr>ss_world := ()\<rparr> = s" for s :: "unit server"
  by (cases s) simp

lemma busy_server_serve: "busy_server = snd (serve small_service submit_root (fresh_server\<lparr>ss_world := ()\<rparr>))"
  by (simp add: busy_server_def serve_def open_routes_def submit_root_def)

lemma fresh_server_reach: "sys_reach A small_service (fresh_server, Resting, [])"
  unfolding fresh_server_def by (rule sys_reach.start)

text \<open>A handler that is not interrupted is a run of steps.\<close>

lemma handler_run:
  assumes "run_handler S (t, s) = (rep, s')" and "i < length ts" and "ts ! i = t"
  shows "(idle_step S)\<^sup>*\<^sup>* (s, k, ts) (s', k, ts[i := Finished rep])"
  using assms
proof (induction S "(t, s)" arbitrary: t s ts rule: run_handler.induct)
  case (1 S r s)
  then have "ts[i := Finished rep] = ts" by (metis Pair_inject list_update_id run_handler.simps(1))
  then show ?case using 1 by simp
next
  case (2 t S s)
  obtain t1 s1 where n: "handler_next S t s = (t1, s1)" by fastforce
  have "idle_step S (s, k, ts) (s1, k, ts[i := t1])"
    using idle_step.handler [of i ts S "ss_world s" s t1 s1 k] 2 n by simp
  moreover have "(idle_step S)\<^sup>*\<^sup>* (s1, k, ts[i := t1]) (s', k, (ts[i := t1])[i := Finished rep])"
    using 2(2) [of t1 s1 "ts[i := t1]"] 2(1,3-5) n by simp
  ultimately show ?case by (metis converse_rtranclp_into_rtranclp list_update_overwrite)
qed

text \<open>The server after the submission, with its handler done.\<close>

lemma busy_server_reach: "\<exists>rep. sys_reach A small_service (busy_server, Resting, [Finished rep])" if "\<And>ts. A submit_root ts"
proof -
  obtain t s1 where a: "accept small_service submit_root fresh_server = (t, s1)" by fastforce
  obtain rep s2 where "serve small_service submit_root fresh_server = (rep, s2)" by fastforce
  then have sv: "serve small_service submit_root fresh_server = (rep, busy_server)"
    by (simp add: busy_server_serve)
  have "sys_reach A small_service (s1, Resting, [t])"
    using sys_reach.step [OF fresh_server_reach sys_step.request [of A submit_root "[]" small_service "()" fresh_server t s1 Resting]]
      that a by simp
  moreover have "run_handler small_service (t, s1) = (rep, busy_server)"
    using run_whole [of small_service submit_root fresh_server] a sv by simp
  then have "(idle_step small_service)\<^sup>*\<^sup>* (s1, Resting, [t]) (busy_server, Resting, [Finished rep])"
    using handler_run [of small_service t s1 rep busy_server 0 "[t]" Resting] by simp
  ultimately show ?thesis using idle_reach by blast
qed

lemma busy_server_archives:
  "map (\<lambda>r. (r_cid r, status_name (r_status r))) (archives (db (ss_store busy_server))) = [(''QmRoot'', ''queued'')]"
  "map r_status (archives (db (ss_store busy_server))) = [arch_status.Queued]"
  "sending (ss_queue busy_server) = [JobArchive ''QmRoot'' []]"
  by code_simp+

lemma busy_server_ok: "drv (ss_store busy_server) = []" "core_ok (db (ss_store busy_server))" "job_inv UNIV (busy_server, Resting)"
proof -
  obtain rep where "sys_reach any_request small_service (busy_server, Resting, [Finished rep])"
    using busy_server_reach [of any_request] by (auto simp: any_request_def)
  from reach_consistent [OF this] show "job_inv UNIV (busy_server, Resting)" by simp
  then show "drv (ss_store busy_server) = []" "core_ok (db (ss_store busy_server))" by (simp_all add: job_inv_def)
qed

lemma small_pool: "cfg_Workers (sv_cfg small_service) > 0" "cfg_Spacing (sv_cfg small_service) > 0"
  by (simp_all add: small_service_def small_config_def)

lemma undisturbed_root: "undisturbed submit_root ts"
  by (simp add: undisturbed_def submit_root_def)

section \<open>Properties\<close>





text \<open>
  Property C11. Whatever interleaves, the tables of documents stay consistent: primary keys are
  unique, the full-text rows and labels mirror the documents, no document is both indexed and given
  up. The pool holds each document once and none that is indexed, so no worker settles a document
  that is settled already.
\<close>

theorem interleaved_consistency:
  assumes "sys_reach any_request S (s, k, ts)"
  shows "docs_ok (db (ss_store s)) \<and> labels_ok (db (ss_store s)) \<and> failures_ok (db (ss_store s))
    \<and> settled_once (db (ss_store s)) \<and> distinct (map r_cid (archives (db (ss_store s))))
    \<and> distinct (map m_key (archive_docs (db (ss_store s))))
    \<and> (\<forall>a p. k = Pooling a p \<longrightarrow> distinct (pool_docs p) \<and> (\<forall>c \<in> set (pool_docs p). \<not> is_indexed (db (ss_store s)) c))"
  using reach_consistent [OF assms] by (auto simp: job_inv_def core_ok_def)

theorem interleaved_consistency_witness:
  "docs_ok (db (ss_store busy_server)) \<and> settled_once (db (ss_store busy_server))"
proof -
  obtain rep where "sys_reach any_request small_service (busy_server, Resting, [Finished rep])"
    using busy_server_reach [of any_request] by (auto simp: any_request_def)
  from interleaved_consistency [OF this] show ?thesis by blast
qed


text \<open>
  What a request may do to the store under a running job: when the tables are
  consistent they stay so, no document becomes indexed, no archive gains a member, no waiting job is
  lost, an archive it leaves unfinished was so before or is queued now, and a member it makes
  pending again belongs to archives that are queued now.
\<close>

lemma requests_guarantee:
  assumes "drv (ss_store s) = []" and "core_ok (db (ss_store s))" and "snd (serve S r s) = t"
  shows "core_ok (db (ss_store t)) \<and> {c. is_indexed (db (ss_store t)) c} \<subseteq> {c. is_indexed (db (ss_store s)) c}
    \<and> set (member_rows a (db (ss_store t))) \<subseteq> set (member_rows a (db (ss_store s)))
    \<and> jobs_in (ss_queue s) \<subseteq> jobs_in (ss_queue t)
    \<and> unfinished (db (ss_store t)) \<subseteq> unfinished (db (ss_store s)) \<union> queued_archives (ss_queue t)
    \<and> (pending_in a (db (ss_store t)) \<subseteq> pending_in a (db (ss_store s)) \<or> a \<in> queued_archives (ss_queue t))"
proof -
  note g = guaranteeD [OF serve_guarantee [of s S r, unfolded assms(3)], unfolded fst_conv snd_conv, OF assms(1,2)]
  show ?thesis using g(2,4,6,7,8,9) by blast
qed

text \<open>
  Property C29. Deleting an archive does not stop its job. A job that waits stays in the queue and,
  when it begins, registers the archive again; a job that is crawling stores the documents it finds
  as members of an archive that does not exist.
\<close>

theorem deletion_does_not_cancel:
  assumes "in_path r = ''/api/admin/delete-archive''" and "in_method r = ''POST''" and "drv (ss_store s) = []"
    and "in_cookie r = Some tok" and "tok \<noteq> []" and "ss_sessions s tok = Some exp" and "clock (sv_net S) (ss_world s) \<le> exp"
    and "trim_space (in_form r ''cid'') = c" and "c \<noteq> []" and "archive_exists c (db (ss_store s))"
    and "JobArchive c owner \<in> jobs_in (ss_queue s)" and "server_key S s \<noteq> []"
  shows "\<exists>t. serve S r s = (Removed_Reply ''archive removed'' c, t) \<and> \<not> archive_exists c (db (ss_store t))
    \<and> JobArchive c owner \<in> jobs_in (ss_queue t)
    \<and> (\<forall>st k. task_step S (ss_disk t) (ss_store t, Begin (JobArchive c owner)) (st, k) \<longrightarrow> archive_exists c (db st))
    \<and> (\<forall>st docs. task_step S (ss_disk t) (ss_store t, Walking c) (st, Round c docs)
         \<longrightarrow> \<not> archive_exists c (db st) \<and> m_doc ` set (member_rows c (db st)) = set docs)"
proof -
  let ?t = "s\<lparr>ss_store := (ss_store s)\<lparr>db := delete_archive_db c (db (ss_store s))\<rparr>\<rparr>"
  have "serve S r s = h_delete_archive S r s"
    using assms(1) requireAdmin_passes [OF assms(4-7)]
    by (simp add: serve_def open_routes_def admin_routes_def)
  then have sv: "serve S r s = (Removed_Reply ''archive removed'' c, ?t)"
    using assms(2,3,8-10) by (simp add: h_delete_archive_def not_post_def Let_def DeleteArchive_run SaveAll_run)
  have starts: "archive_exists c (db st)"
    if "task_step S (ss_disk ?t) (ss_store ?t, Begin (JobArchive c owner)) (st, k)" for st k
    using that assms(3,12) by (cases rule: task_step.cases) (auto simp: AddArchive_db archive_exists_add)
  have walk: "\<not> archive_exists c (db st) \<and> m_doc ` set (member_rows c (db st)) = set docs"
    if "task_step S (ss_disk ?t) (ss_store ?t, Walking c) (st, Round c docs)" for st docs
    using that
  proof (cases rule: task_step.cases)
    case (crawl_done w w')
    then have "distinct docs" by (intro crawl_distinct)
    then show ?thesis
      using crawl_done assms(3) delete_archive_gone(1) [of c] set_doc_list [of c "set_docs_db c docs (db (ss_store ?t))"]
      by (simp add: SetArchiveDocs_run archive_exists_set_docs doc_list_set_docs)
  qed
  show ?thesis
    using sv delete_archive_gone(1) assms(11) starts walk by (intro exI [of _ ?t]) simp
qed

theorem deletion_does_not_cancel_witness:
  "\<exists>t. serve small_service (post_to ''/api/admin/delete-archive'' [(''cid'', ''QmRoot'')] (Some ''tok''))
      (busy_server\<lparr>ss_sessions := [''tok'' \<mapsto> 100]\<rparr>) = (Removed_Reply ''archive removed'' ''QmRoot'', t)
    \<and> JobArchive ''QmRoot'' [] \<in> jobs_in (ss_queue t)"
proof -
  let ?r = "post_to ''/api/admin/delete-archive'' [(''cid'', ''QmRoot'')] (Some ''tok'')"
  let ?s = "busy_server\<lparr>ss_sessions := [''tok'' \<mapsto> 100]\<rparr>"
  have 1: "trim_space (in_form ?r ''cid'') = ''QmRoot''" by code_simp
  have 2: "drv (ss_store ?s) = []" using busy_server_ok(1) by simp
  have 3: "archive_exists ''QmRoot'' (db (ss_store ?s))"
    using busy_server_archives(1) by (auto simp: archive_exists_def)
  have 4: "JobArchive ''QmRoot'' [] \<in> jobs_in (ss_queue ?s)" using busy_server_archives(3) by (simp add: jobs_in_def)
  have "server_key small_service busy_server = ''secret''" by code_simp
  then have 5: "server_key small_service ?s \<noteq> []" by simp
  show ?thesis
    using deletion_does_not_cancel [of ?r ?s "''tok''" 100 small_service, OF _ _ 2 _ _ _ _ 1 _ 3 4 5] by auto
qed

end
