(* ===== verification/Race_Properties.thy ===== *)
theory Race_Properties
  imports System_Properties
begin

text \<open>
  What two requests can do to each other when their calls interleave: concurrent approvals of one
  submission, a denial during a submission, a deletion during a retry.
\<close>

section \<open>Concurrent approvals\<close>

text \<open>A goroutine of \<open>/api/admin/approve\<close> that took the submission, and one that came too late.\<close>

inductive approving :: "cid \<Rightarrow> handler_state \<Rightarrow> bool" for c where
  "approving c (Registering a owner [] (Approved_Reply c kind))"
| "approving c (Posting j [] (Approved_Reply c kind))"
| "approving c (Answering (Approved_Reply c kind))"
| "approving c (Finished (Approved_Reply c kind n))"

inductive_cases approvingE: "approving c t"

abbreviation too_late :: handler_state where
  "too_late \<equiv> Finished (JSON_Error 404 ''no pending submission with that cid'')"

definition waiting_for :: "cid \<Rightarrow> store \<Rightarrow> bool" where
  "waiting_for c st \<longleftrightarrow> c \<in> s_cid ` set (submissions (db st))"

lemma submissions_add_archive [simp]: "submissions (add_archive_db now a owner d) = submissions d"
  by (simp add: add_archive_db_def update_arch_def)

lemma approving_next:
  assumes "approving c t" and "handler_next S t s = (t', s')" and "drv (ss_store s) = []"
  shows "approving c t' \<and> waiting_for d (ss_store s') = waiting_for d (ss_store s)"
  using assms by (auto elim!: approvingE simp: waiting_for_def AddArchive_db intro: approving.intros)

lemma taking_next:
  assumes "handler_next S (Taking c) s = (t', s')" and "drv (ss_store s) = []"
  shows "if waiting_for c (ss_store s) then approving c t' \<and> \<not> waiting_for c (ss_store s')
    else t' = too_late \<and> ss_store s' = ss_store s"
  using assms
  by (auto simp: waiting_for_def TakeSubmission_run delete_submission_def sql_delete_def image_iff
      dest!: sql_find_SomeD split: option.splits if_splits intro: approving.intros)

text \<open>Nobody has taken the submission yet, or one has and all others find nothing.\<close>

definition taken_once :: "cid \<Rightarrow> nat \<Rightarrow> store \<Rightarrow> handler_state list \<Rightarrow> bool" where
  "taken_once c n st ts \<longleftrightarrow> length ts = n
     \<and> (waiting_for c st \<and> ts = replicate n (Taking c)
        \<or> \<not> waiting_for c st \<and> (\<exists>i<n. approving c (ts ! i) \<and> (\<forall>j<n. j \<noteq> i \<longrightarrow> ts ! j \<in> {Taking c, too_late})))"

lemma approving_distinct: "approving c t \<Longrightarrow> t \<noteq> Taking c \<and> t \<noteq> too_late"
  by (auto elim: approvingE)

lemma taken_once_handler:
  assumes inv: "taken_once c n (ss_store s) ts" and i: "i < length ts" and "\<not> is_finished (ts ! i)"
    and n: "handler_next S (ts ! i) (s\<lparr>ss_world := w\<rparr>) = (t, s')" and drv: "drv (ss_store s) = []"
  shows "taken_once c n (ss_store s') (ts[i := t])"
proof -
  have len: "length ts = n" using inv by (simp add: taken_once_def)
  consider "waiting_for c (ss_store s)" "ts = replicate n (Taking c)"
    | j where "\<not> waiting_for c (ss_store s)" "j < n" "approving c (ts ! j)" "\<forall>k<n. k \<noteq> j \<longrightarrow> ts ! k \<in> {Taking c, too_late}"
    using inv by (auto simp: taken_once_def)
  then show ?thesis
  proof cases
    case 1
    then have "handler_next S (Taking c) (s\<lparr>ss_world := w\<rparr>) = (t, s')" using n i len by simp
    from taking_next [OF this] have "approving c t" "\<not> waiting_for c (ss_store s')" using 1(1) drv by simp_all
    then show ?thesis using 1 i len by (auto simp: taken_once_def nth_list_update intro!: exI [of _ i])
  next
    case 2
    show ?thesis
    proof (cases "i = j")
      case True
      have "approving c t" "\<not> waiting_for c (ss_store s')"
        using approving_next [OF _ n, of c c] 2(1,3) True drv by simp_all
      then show ?thesis using 2 i len True by (auto simp: taken_once_def nth_list_update intro!: exI [of _ j])
    next
      case False
      then have "ts ! i = Taking c" using 2(4) i len assms(3) by fastforce
      with n have "handler_next S (Taking c) (s\<lparr>ss_world := w\<rparr>) = (t, s')" by simp
      from taking_next [OF this] have "t = too_late" "ss_store s' = ss_store s" using 2(1) drv by simp_all
      then show ?thesis using 2 i len False by (auto simp: taken_once_def nth_list_update intro!: exI [of _ j])
    qed
  qed
qed

lemma taken_once_step:
  assumes "idle_step S (s, k, ts) (s', k', ts')" and "job_inv UNIV (s, k)" and "taken_once c n (ss_store s) ts"
  shows "taken_once c n (ss_store s') ts'"
  using assms(1)
proof (cases rule: idle_step.cases)
  case (handler i w t)
  have "drv (ss_store s) = []" using assms(2) by (simp add: job_inv_def)
  then show ?thesis using taken_once_handler [OF assms(3)] handler by blast
next
  case job
  from job(2) have "submissions (db (ss_store s')) = submissions (db (ss_store s))"
    using task_step_submissions [OF assms(2)] by (auto elim!: quiet_step.cases)
  then show ?thesis using assms(3) job by (simp add: taken_once_def waiting_for_def)
qed

lemma idle_consistent:
  assumes "idle_step S (s, k, ts) (s', k', ts')" and "job_inv UNIV (s, k)" and "list_all posts_ok ts"
  shows "job_inv UNIV (s', k') \<and> list_all posts_ok ts'"
  using assms(1)
proof (cases rule: idle_step.cases)
  case (handler i w t)
  have p: "posts_ok (ts ! i)" using handler(3) assms(3) by (simp add: list_all_length)
  have "job_inv UNIV (s', k)"
    using handler_inv(1) [of UNIV "s\<lparr>ss_world := w\<rparr>" "ts ! i" k S t s'] handler p assms(2) by simp
  moreover have "posts_ok t" using handler_next_posts [OF p, of S "s\<lparr>ss_world := w\<rparr>"] handler by simp
  ultimately show ?thesis using handler assms(3) by (simp add: list_all_length nth_list_update)
next
  case job
  then show ?thesis using quiet_inv assms(2,3) by blast
qed

lemma taken_once_run:
  assumes "(idle_step S)\<^sup>*\<^sup>* x y" and "job_inv UNIV (fst x, fst (snd x))" and "list_all posts_ok (snd (snd x))"
    and "taken_once c n (ss_store (fst x)) (snd (snd x))"
  shows "job_inv UNIV (fst y, fst (snd y)) \<and> list_all posts_ok (snd (snd y)) \<and> taken_once c n (ss_store (fst y)) (snd (snd y))"
  using assms
proof (induction rule: rtranclp_induct)
  case (step y z)
  obtain s k ts s' k' ts' where "y = (s, k, ts)" "z = (s', k', ts')" by (metis prod.collapse)
  then show ?case using step idle_consistent [of S s k ts s' k' ts'] taken_once_step [of S s k ts s' k' ts' c n] by simp
qed simp


definition reviewing_server :: "unit server" where
  "reviewing_server = busy_server\<lparr>ss_store := AddSubmission 3 ''QmB'' SubArchive ''me'' (ss_store busy_server)\<rparr>"

lemma reviewing_server_ok: "job_inv UNIV (reviewing_server, Resting)" "waiting_for ''QmB'' (ss_store reviewing_server)"
proof -
  show "job_inv UNIV (reviewing_server, Resting)"
    by (rule guarantee_inv [OF busy_server_ok(3)]) (simp_all add: reviewing_server_def guarantee_submission)
  show "waiting_for ''QmB'' (ss_store reviewing_server)"
    by code_simp
qed


section \<open>A denial during a submission\<close>

text \<open>
  Property C8. A denial can come too late. The denylist is consulted once, before the CID is
  classified over the network; when an administrator denies the CID in between, the handler goes
  on and queues the archive, which is then on the denylist and in the queue at once.
\<close>

theorem late_denial:
  assumes "in_path r = ''/api/admin/deny''" and "in_method r = ''POST''" and "drv (ss_store s) = []"
    and "in_cookie r = Some tok" and "tok \<noteq> []" and "ss_sessions s tok = Some exp" and "clock (sv_net S) (ss_world s) \<le> exp"
    and "trim_space (in_form r ''cid'') = c" and "c \<noteq> []" and "\<not> fst (IsDenied c (ss_store s))"
    and "server_key S s \<noteq> []" and "\<not> review_enabled (ss_store s)"
    and "Classify (sv_net S) (crawler_of (sv_cfg S)) c (ss_world s) = (Inr KindDir, w)"
  shows "\<exists>t rep t'. handler_next S (Checking c owner) s = (Keying c owner, s) \<and> serve S r s = (Denied_Reply c, t)
    \<and> run_handler S (Keying c owner, t) = (rep, t')
    \<and> fst (IsDenied c (ss_store t')) \<and> JobArchive c owner \<in> jobs_in (ss_queue t')"
proof -
  let ?t = "s\<lparr>ss_store := Deny (server_now S s) c (ss_store s)\<rparr>"
  have "serve S r s = h_deny S r s"
    using assms(1) requireAdmin_passes [OF assms(4-7)] by (simp add: serve_def open_routes_def admin_routes_def)
  then have sv: "serve S r s = (Denied_Reply c, ?t)" using assms(2,8,9) by (simp add: h_deny_def not_post_def Let_def)
  have chk: "handler_next S (Checking c owner) s = (Keying c owner, s)"
    using assms(10) reads(1) [OF assms(3), of c] by (cases "IsDenied c (ss_store s)") simp
  have d: "drv (ss_store ?t) = []" "\<not> review_enabled (ss_store ?t)" "\<exists>x \<in> set (denylist (db (ss_store ?t))). fst x = c"
    using assms(3,12) by (auto simp: Deny_run sql_replace_def delete_submission_def)
  obtain rep t' where run: "run_handler S (Keying c owner, ?t) = (rep, t')" by fastforce
  then have t': "t' = enqueue_archive S c owner (?t\<lparr>ss_world := w\<rparr>)"
    using assms(11,13) d(2) by (auto simp: enqueue_archive_calls)
  have "\<exists>x \<in> set (denylist (db (ss_store t'))). fst x = c" "drv (ss_store t') = []"
    using d by (simp_all add: t' enqueue_archive_calls AddArchive_db add_archive_db_def update_arch_def)
  then have "fst (IsDenied c (ss_store t'))" by (auto simp: IsDenied_def tx_simps)
  moreover have "JobArchive c owner \<in> jobs_in (ss_queue t')" by (simp add: t')
  ultimately show ?thesis using sv chk run by blast
qed

theorem late_denial_witness:
  "\<exists>t rep t'. serve small_service (post_to ''/api/admin/deny'' [(''cid'', ''QmNew'')] (Some ''tok'')) (fresh_server\<lparr>ss_sessions := [''tok'' \<mapsto> 100]\<rparr>)
      = (Denied_Reply ''QmNew'', t)
    \<and> run_handler small_service (Keying ''QmNew'' [], t) = (rep, t') \<and> JobArchive ''QmNew'' [] \<in> jobs_in (ss_queue t')"
proof -
  let ?r = "post_to ''/api/admin/deny'' [(''cid'', ''QmNew'')] (Some ''tok'')"
  let ?s = "fresh_server\<lparr>ss_sessions := [''tok'' \<mapsto> 100]\<rparr>"
  have 1: "drv (ss_store ?s) = []" "trim_space (in_form ?r ''cid'') = ''QmNew''" "\<not> fst (IsDenied ''QmNew'' (ss_store ?s))"
    "server_key small_service ?s = ''secret''" "\<not> review_enabled (ss_store ?s)"
    by code_simp+
  have 2: "Classify (sv_net small_service) (crawler_of (sv_cfg small_service)) ''QmNew'' (ss_world ?s) = (Inr KindDir, ())"
    by code_simp
  show ?thesis
    using late_denial [of ?r ?s "''tok''" 100 small_service, OF _ _ 1(1) _ _ _ _ 1(2) _ 1(3) _ 1(5) 2, of "[]"] 1(4) by auto
qed

section \<open>A deletion during a retry\<close>



end
