(* ===== verification/Job_Runs.thy ===== *)
theory Job_Runs
  imports System_Properties
begin

text \<open>
  The two models of a job agree: \<open>process\<close> of \<open>Indexer\<close>, a function, and \<open>task_step\<close> of
  \<open>Job_Steps\<close>, the same code as steps that others may interrupt. A run of the function whose
  workers finish in the order of the list is a run of the steps that nobody interrupts.
\<close>

section \<open>The pool, one document after the other\<close>

abbreviation job_run :: "'w service \<Rightarrow> disk \<Rightarrow> store \<times> task \<Rightarrow> store \<times> task \<Rightarrow> bool" where
  "job_run S d \<equiv> (task_step S d)\<^sup>*\<^sup>*"

lemma job_run_step: "task_step S d x y \<Longrightarrow> job_run S d y z \<Longrightarrow> job_run S d x z"
  by (rule converse_rtranclp_into_rtranclp)

definition idle_pool :: "nat \<Rightarrow> cid list \<Rightarrow> store \<Rightarrow> pool" where
  "idle_pool n cs s = \<lparr>todo = cs, chan = [], slots = replicate n None, pstore = s\<rparr>"

lemma pool_init_idle: "pool_init n cs s = idle_pool n cs s"
  by (simp add: pool_init_def idle_pool_def)

lemma idle_pool_store [simp]: "(idle_pool n cs s)\<lparr>pstore := t\<rparr> = idle_pool n cs t"
  by (simp add: idle_pool_def)

text \<open>The dispatcher sends a document, the first worker takes and settles it.\<close>

lemma one_document:
  assumes "nat (cfg_Workers (sv_cfg S)) = n" and "n > 0" and "cfg_Spacing (sv_cfg S) > 0" and "fits out c"
  shows "job_run S d (s, Pooling k (idle_pool n (c # cs) s))
    (settle now out c s, Pooling k (idle_pool n cs (settle now out c s)))"
proof -
  let ?none = "replicate n None :: cid option list" and ?s1 = "settle now out c s"
  let ?p1 = "\<lparr>todo = cs, chan = [c], slots = ?none, pstore = s\<rparr>"
  let ?p2 = "\<lparr>todo = cs, chan = [], slots = ?none[0 := Some c], pstore = s\<rparr>"
  have step: "task_step S d (pstore p, Pooling k p) (pstore p', Pooling k p')" if "pool_step n p p'" for p p'
    using task_step.pool [OF assms(3), where p = p and s = "pstore p" and p' = p'] that assms(1) by simp
  have idle: "?none[0 := Some c, 0 := None] = ?none" using assms(2) by (cases n) simp_all
  have "pool_step n (idle_pool n (c # cs) s) ?p1"
    using pool_step.send [of "idle_pool n (c # cs) s" c cs n] assms(2) by (simp add: idle_pool_def)
  from step [OF this] have "task_step S d (s, Pooling k (idle_pool n (c # cs) s)) (s, Pooling k ?p1)"
    by (simp add: idle_pool_def)
  moreover have "pool_step n ?p1 ?p2" using pool_step.recv [of ?p1 c "[]" 0 n] assms(2) by simp
  from step [OF this] have "task_step S d (s, Pooling k ?p1) (s, Pooling k ?p2)" by simp
  moreover have "pool_step n ?p2 (?p2\<lparr>slots := (slots ?p2)[0 := None], pstore := ?s1\<rparr>)"
    using pool_step.fin [of 0 ?p2 c out n now] assms(2,4) by simp
  then have "pool_step n ?p2 (idle_pool n cs ?s1)" unfolding idle_pool_def by (simp only: pool.simps idle)
  from step [OF this] have "task_step S d (s, Pooling k ?p2) (?s1, Pooling k (idle_pool n cs ?s1))"
    by (simp add: idle_pool_def)
  ultimately show ?thesis by (meson job_run_step rtranclp.rtrancl_refl)
qed

lemma all_documents:
  assumes "nat (cfg_Workers (sv_cfg S)) = n" and "n > 0" and "cfg_Spacing (sv_cfg S) > 0" and "proc E = Process N p"
  shows "handle_all E cs w s = Some (w', s') \<Longrightarrow>
    job_run S d (s, Pooling k (idle_pool n cs s)) (s', Pooling k (idle_pool n [] s'))"
proof (induction cs arbitrary: w s)
  case (Cons c cs)
  then obtain w1 s1 where h: "handle_cid E c w s = Some (w1, s1)" "handle_all E cs w1 s1 = Some (w', s')"
    by (auto split: option.splits)
  from doc_pipeline.handle_cid_settles [OF assms(4) h(1)] obtain now out where o: "fits out c" "s1 = settle now out c s" by blast
  from one_document [OF assms(1-3) o(1)] Cons.IH [OF h(2)] show ?case unfolding o(2) by (rule rtranclp_trans)
qed simp

lemma completion_in_order: "completion_order [] cs = cs"
  by (cases cs) simp_all

lemma pending_run:
  assumes "indexPending E (cfg_Workers (sv_cfg S)) pend w s = Some (w', s')" and "pend \<noteq> []"
    and "proc E = Process N p" and "spacing E = cfg_Spacing (sv_cfg S)" and "sched E = (\<lambda>w. [])"
  shows "job_run S d (s, Pooling k (pool_init (nat (cfg_Workers (sv_cfg S))) pend s))
    (s', case k of None \<Rightarrow> Resting | Some (a, docs) \<Rightarrow> Round a docs)"
proof -
  from assms(1,2,4,5) obtain s1 where h: "handle_all E pend w s = Some (w', s1)" "s' = snd (Stats (SaveAll s1))"
      "cfg_Workers (sv_cfg S) > 0" "cfg_Spacing (sv_cfg S) > 0"
    by (auto simp: indexPending_def completion_in_order split: if_splits option.splits)
  let ?n = "nat (cfg_Workers (sv_cfg S))"
  have "job_run S d (s, Pooling k (idle_pool ?n pend s)) (s1, Pooling k (idle_pool ?n [] s1))"
    using h(3,4) assms(3) h(1) by (intro all_documents) simp_all
  moreover have "task_step S d (s1, Pooling k (idle_pool ?n [] s1)) (s', case k of None \<Rightarrow> Resting | Some (a, docs) \<Rightarrow> Round a docs)"
    unfolding h(2) by (rule task_step.pool_done) (auto simp: pool_final_def idle_pool_def)
  ultimately show ?thesis unfolding pool_init_idle by (rule rtranclp.rtrancl_into_rtrancl)
qed

section \<open>Jobs\<close>

lemma round_run:
  assumes "Pending docs s = (pend, s1)" and "pend \<noteq> []"
    and "indexPending E (cfg_Workers (sv_cfg S)) pend w s1 = Some (w', s2)"
    and "proc E = Process N p" and "spacing E = cfg_Spacing (sv_cfg S)" and "sched E = (\<lambda>w. [])"
  shows "job_run S d (s, Round a docs) (s2, Round a docs)"
proof -
  have "task_step S d (s, Round a docs) (s1, Pooling (Some (a, docs)) (pool_init (nat (cfg_Workers (sv_cfg S))) pend s1))"
    using task_step.some_pending [OF assms(1)] assms(2) by simp
  with pending_run [OF assms(3,2,4-6), where k = "Some (a, docs)"] show ?thesis
    by (auto intro: job_run_step)
qed

lemma loop_run:
  assumes "index_loop E workers docs w s = Some r"
  shows "workers = cfg_Workers (sv_cfg S) \<longrightarrow> proc E = Process N p \<longrightarrow> spacing E = cfg_Spacing (sv_cfg S) \<longrightarrow>
    sched E = (\<lambda>w. []) \<longrightarrow> job_run S d (s, Round a docs) (snd r, Finishing a)"
proof (rule index_loop.raw_induct [rotated, OF assms, where P = "\<lambda>E workers docs w s r.
    workers = cfg_Workers (sv_cfg S) \<longrightarrow> proc E = Process N p \<longrightarrow> spacing E = cfg_Spacing (sv_cfg S) \<longrightarrow>
    sched E = (\<lambda>w. []) \<longrightarrow> job_run S d (s, Round a docs) (snd r, Finishing a)"], intro impI)
  fix loop E workers docs w s r
  assume IH: "\<And>E workers docs w s r. loop E workers docs w s = Some r \<Longrightarrow> workers = cfg_Workers (sv_cfg S) \<longrightarrow>
      proc E = Process N p \<longrightarrow> spacing E = cfg_Spacing (sv_cfg S) \<longrightarrow> sched E = (\<lambda>w. []) \<longrightarrow>
      job_run S d (s, Round a docs) (snd r, Finishing a)"
    and body: "(case Pending docs s of (pend, s1) \<Rightarrow> if pend = [] then Some (w, s1)
      else case indexPending E workers pend w s1 of None \<Rightarrow> None | Some (w', s2) \<Rightarrow> loop E workers docs w' s2) = Some r"
    and h: "workers = cfg_Workers (sv_cfg S)" "proc E = Process N p" "spacing E = cfg_Spacing (sv_cfg S)" "sched E = (\<lambda>w. [])"
  obtain pend s1 where p: "Pending docs s = (pend, s1)" by fastforce
  show "job_run S d (s, Round a docs) (snd r, Finishing a)"
  proof (cases "pend = []")
    case True
    then have "snd r = s1" using body p by auto
    with task_step.none_pending [OF p] True show ?thesis by auto
  next
    case False
    then obtain w2 s2 where i: "indexPending E workers pend w s1 = Some (w2, s2)" "loop E workers docs w2 s2 = Some r"
      using body p by (auto split: option.splits)
    have "job_run S d (s, Round a docs) (s2, Round a docs)" using round_run [OF p False i(1) [unfolded h(1)] h(2-4)] .
    moreover have "job_run S d (s2, Round a docs) (snd r, Finishing a)" using IH [OF i(2)] h by blast
    ultimately show ?thesis by (rule rtranclp_trans)
  qed
qed

text \<open>The archive job, from the list of its documents to the end.\<close>

lemma documents_run:
  assumes "archive_docs_phase E a w s = Some (found, w', s')" and "crawl E = (\<lambda>w a. Some (Crawl (sv_net S) (crawler_of (sv_cfg S)) a w))"
  shows "job_run S d (s, Listing a) (s', case found of None \<Rightarrow> Resting | Some docs \<Rightarrow> Round a docs)"
proof -
  obtain docs s1 where l: "ArchiveDocCIDs a s = (docs, s1)" by fastforce
  show ?thesis
  proof (cases "docs = []")
    case False
    then have "found = Some docs" "s' = s1" using assms(1) l by (simp_all add: archive_docs_phase_def)
    with task_step.resume [OF l] False show ?thesis by auto
  next
    case True
    let ?s2 = "MarkArchiveCrawling a s1"
    obtain x w1 where c: "Crawl (sv_net S) (crawler_of (sv_cfg S)) a w = (x, w1)" by fastforce
    have steps: "job_run S d (s, Listing a) (?s2, Walking a)"
      using True by (intro job_run_step [OF task_step.no_documents [OF l]] job_run_step [OF task_step.mark_crawling]) simp_all
    show ?thesis
    proof (cases x)
      case (Inl e)
      then have "found = None" "s' = MarkArchiveFailed a e ?s2" using assms c l True by (auto simp: archive_docs_phase_def)
      with steps task_step.crawl_error [OF c [unfolded Inl], of d ?s2] show ?thesis by auto
    next
      case (Inr docs')
      then have "found = Some docs'" "s' = SetArchiveDocs a docs' ?s2" using assms c l True by (auto simp: archive_docs_phase_def)
      with steps task_step.crawl_done [OF c [unfolded Inr], of d ?s2] show ?thesis by auto
    qed
  qed
qed

lemma archive_run:
  assumes "indexArchive E (cfg_Workers (sv_cfg S)) a owner w s = Some (w', s')" and "loadAPIKey (sv_getenv S) (cfg_DataDir (sv_cfg S)) d \<noteq> []"
    and "proc E = Process N p" and "spacing E = cfg_Spacing (sv_cfg S)" and "sched E = (\<lambda>w. [])"
    and "crawl E = (\<lambda>w a. Some (Crawl (sv_net S) (crawler_of (sv_cfg S)) a w))"
  shows "job_run S d (s, Begin (JobArchive a owner)) (s', Resting)"
proof -
  let ?s1 = "snd (AddArchive (clk E w) a owner s)"
  from assms(1) obtain found w2 s2 where ph: "archive_docs_phase E a w ?s1 = Some (found, w2, s2)"
    by (auto simp: indexArchive_def split: option.splits)
  have lead: "job_run S d (s, Begin (JobArchive a owner)) (s2, case found of None \<Rightarrow> Resting | Some docs \<Rightarrow> Round a docs)"
    using task_step.begin_archive [OF assms(2)] documents_run [OF ph assms(6)] by (rule job_run_step)
  show ?thesis
  proof (cases found)
    case None
    with ph assms(1) have "s' = s2" by (simp add: indexArchive_def)
    with lead None show ?thesis by simp
  next
    case (Some docs)
    with ph assms(1) obtain w3 s3 where l: "index_loop E (cfg_Workers (sv_cfg S)) docs w2 s2 = Some (w3, s3)"
        "s' = snd (GetArchive a (SaveAll (FinalizeArchive (clk E w3) a s3)))"
      by (auto simp: indexArchive_def split: option.splits)
    have "job_run S d (s2, Round a docs) (s3, Finishing a)"
      using loop_run [OF l(1), of S N p d a] assms(3-5) by (simp only: snd_conv)
    moreover have "task_step S d (s3, Finishing a) (s', Resting)" unfolding l(2) by (rule task_step.finish)
    ultimately show ?thesis using lead Some by (auto intro: rtranclp_trans rtranclp.rtrancl_into_rtrancl)
  qed
qed

text \<open>The whole job.\<close>

lemma job_runs:
  assumes "run_job (sv_net S) (sv_cfg S) (\<lambda>w. []) (sv_getenv S) d j w s = Some (w', s')"
  shows "job_run S d (s, Begin j) (s', Resting)"
proof (cases "loadAPIKey (sv_getenv S) (cfg_DataDir (sv_cfg S)) d = []")
  case True
  with assms show ?thesis
    by (cases j) (auto simp: run_job_def process_def intro: task_step.intros)
next
  case False
  let ?E = "live_env (sv_net S) (sv_cfg S) (\<lambda>w. []) (loadAPIKey (sv_getenv S) (cfg_DataDir (sv_cfg S)) d)"
  have E: "crawl ?E = (\<lambda>w a. Some (Crawl (sv_net S) (crawler_of (sv_cfg S)) a w))" by (intro ext) simp
  show ?thesis
  proof (cases j)
    case (JobArchive a owner)
    with assms False have "indexArchive ?E (cfg_Workers (sv_cfg S)) a owner w s = Some (w', s')"
      by (simp add: run_job_def process_def)
    from archive_run [OF this False live_env_simps(1,4,6) E] show ?thesis unfolding JobArchive .
  next
    case (JobDocs cids)
    obtain pend s1 where p: "Pending cids s = (pend, s1)" by fastforce
    show ?thesis
    proof (cases "pend = []")
      case True
      then have "s' = s1" using assms p JobDocs False by (simp add: run_job_def process_def)
      with task_step.begin_docs [OF False p] True show ?thesis unfolding JobDocs by auto
    next
      case ne: False
      then have "indexPending ?E (cfg_Workers (sv_cfg S)) pend w s1 = Some (w', s')"
        using assms p JobDocs False by (simp add: run_job_def process_def)
      from pending_run [OF this ne live_env_simps(1,4,6), where k = None] task_step.begin_docs [OF False p]
      show ?thesis using ne unfolding JobDocs by (auto intro: job_run_step)
    qed
  qed
qed

text \<open>A run of the steps of the job is a run of the system in which nobody else does anything.\<close>

lemma job_run_idle:
  "job_run S (ss_disk s) (ss_store s, k) (st, k') \<Longrightarrow> (idle_step S)\<^sup>*\<^sup>* (s, k, ts) (s\<lparr>ss_store := st\<rparr>, k', ts)"
proof (induction "(st, k')" arbitrary: st k' rule: rtranclp_induct)
  case base
  then show ?case by simp
next
  case (step y)
  obtain st1 k1 where y: "y = (st1, k1)" by fastforce
  have "quiet_step S (s\<lparr>ss_store := st1\<rparr>, k1) ((s\<lparr>ss_store := st1\<rparr>)\<lparr>ss_store := st\<rparr>, k')"
    using step(2) unfolding y by (intro quiet_step.task) simp
  then have "idle_step S (s\<lparr>ss_store := st1\<rparr>, k1, ts) (s\<lparr>ss_store := st\<rparr>, k', ts)" by (intro idle_step.job) simp
  with step(3) [OF y] show ?case by (rule rtranclp.rtrancl_into_rtrancl)
qed

section \<open>Properties\<close>



end
