(* ===== verification/Json_Text.thy ===== *)
theory Json_Text
  imports Json Store_Schema
begin

text \<open>
  Writing JSON, as \<open>json.Marshal\<close> does for the values the store keeps in text columns, and reading
  it back: \<open>marshalJSON\<close>, \<open>parseStrings\<close> and \<open>parseFields\<close> of \<open>src/store.go\<close>. The tables of
  \<open>Store_Schema\<close> hold the values themselves; the round trips proved here are what makes that
  faithful. What comes back is the value with every byte that is not part of a well-formed
  UTF-8 sequence replaced by U+FFFD, and a text of well-formed UTF-8 comes back as it was.
\<close>

section \<open>Runes\<close>

definition continuation :: "nat \<Rightarrow> bool" where
  "continuation b \<longleftrightarrow> 128 \<le> b \<and> b < 192"

text \<open>
  \<open>utf8.DecodeRune\<close> on text that begins with a byte from 128 upwards: how many bytes the rune
  takes, and 0 where they are not well formed (overlong, a surrogate, out of range, cut off).
\<close>

fun rune_len :: "nat list \<Rightarrow> nat" where
  "rune_len (a # b # r) =
     (if 194 \<le> a \<and> a < 224 then (if continuation b then 2 else 0)
      else (case r of
        [] \<Rightarrow> 0
      | c # r' \<Rightarrow>
         if 224 \<le> a \<and> a < 240
         then (if continuation b \<and> continuation c \<and> (a = 224 \<longrightarrow> 160 \<le> b) \<and> (a = 237 \<longrightarrow> b < 160) then 3 else 0)
         else (case r' of
           [] \<Rightarrow> 0
         | d # _ \<Rightarrow>
            if 240 \<le> a \<and> a < 245 \<and> continuation b \<and> continuation c \<and> continuation d
               \<and> (a = 240 \<longrightarrow> 144 \<le> b) \<and> (a = 244 \<longrightarrow> b < 144) then 4 else 0)))"
| "rune_len _ = 0"

definition rune_size :: "string \<Rightarrow> nat" where
  "rune_size s = rune_len (map of_char (take 4 s))"

function (sequential) to_valid :: "string \<Rightarrow> string" where
  "to_valid [] = []"
| "to_valid (c # s) =
     (if (of_char c :: nat) < 128 then c # to_valid s
      else let n = rune_size (c # s) in
        if n = 0 then utf8 65533 @ to_valid s
        else take n (c # s) @ to_valid (drop (n - 1) s))"
  by pat_completeness auto
termination by (relation "measure length") auto

function (sequential) valid_utf8 :: "string \<Rightarrow> bool" where
  "valid_utf8 [] \<longleftrightarrow> True"
| "valid_utf8 (c # s) \<longleftrightarrow>
     (if (of_char c :: nat) < 128 then valid_utf8 s
      else rune_size (c # s) \<noteq> 0 \<and> valid_utf8 (drop (rune_size (c # s) - 1) s))"
  by pat_completeness auto
termination by (relation "measure length") auto

section \<open>Writing\<close>

definition u_escape :: "nat \<Rightarrow> string" where
  "u_escape n = [backslash, CHR ''u'', low_hex (n div 4096 mod 16), low_hex (n div 256 mod 16),
     low_hex (n div 16 mod 16), low_hex (n mod 16)]"

definition escape_byte :: "char \<Rightarrow> string" where
  "escape_byte c =
     (if c = quote \<or> c = backslash then [backslash, c]
      else if c = CHR 0x08 then [backslash, CHR ''b''] else if c = CHR 0x0C then [backslash, CHR ''f'']
      else if c = CHR 0x0A then [backslash, CHR ''n''] else if c = CHR 0x0D then [backslash, CHR ''r'']
      else if c = CHR 0x09 then [backslash, CHR ''t'']
      else if (of_char c :: nat) < 32 \<or> c = CHR ''<'' \<or> c = CHR ''>'' \<or> c = CHR ''&'' then u_escape (of_char c)
      else [c])"

text \<open>
  A byte that is not well formed becomes the escape of U+FFFD; the line and the paragraph
  separator, U+2028 and U+2029, are escaped; every other rune is copied.
\<close>

function (sequential) escape :: "string \<Rightarrow> string" where
  "escape [] = []"
| "escape (c # s) =
     (if (of_char c :: nat) < 128 then escape_byte c @ escape s
      else let n = rune_size (c # s) in
        if n = 0 then u_escape 65533 @ escape s
        else (if take n (c # s) = utf8 8232 then u_escape 8232
              else if take n (c # s) = utf8 8233 then u_escape 8233
              else take n (c # s)) @ escape (drop (n - 1) s))"
  by pat_completeness auto
termination by (relation "measure length") auto

definition enc_string :: "string \<Rightarrow> string" where
  "enc_string s = quote # escape s @ [quote]"

text \<open>A slice; \<open>None\<close> is the nil slice.\<close>

fun enc_slice :: "('a \<Rightarrow> string) \<Rightarrow> 'a list option \<Rightarrow> string" where
  "enc_slice enc None = ''null''"
| "enc_slice enc (Some xs) = ''['' @ join '','' (map enc xs) @ '']''"

function (sequential) enc_nat :: "nat \<Rightarrow> string" where
  "enc_nat n = (if n < 10 then [char_of (48 + n)] else enc_nat (n div 10) @ [char_of (48 + n mod 10)])"
  by pat_completeness auto
termination by (relation "measure id") auto

definition enc_int :: "int \<Rightarrow> string" where
  "enc_int i = (if i < 0 then CHR ''-'' # enc_nat (nat (- i)) else enc_nat (nat i))"

text \<open>\<open>marshalJSON\<close> on a slice of strings and on a slice of \<open>FieldCount\<close>; neither can fail.\<close>

definition marshal_strings :: "string list option \<Rightarrow> string" where
  "marshal_strings xs = enc_slice enc_string xs"

definition enc_field :: "field_count \<Rightarrow> string" where
  "enc_field f = ''{'' @ enc_string ''field'' @ '':'' @ enc_string (fc_field f) @ '',''
     @ enc_string ''count'' @ '':'' @ enc_int (fc_count f) @ ''}''"

definition marshal_fields :: "field_count list option \<Rightarrow> string" where
  "marshal_fields fs = enc_slice enc_field fs"

section \<open>Reading\<close>

text \<open>
  The error of \<open>json.Unmarshal\<close> is ignored: a syntax error leaves the slice empty, a value of the
  wrong type leaves the zero value in its place.
\<close>

definition parseStrings :: "string \<Rightarrow> string list" where
  "parseStrings s =
     (if s = [] then []
      else (case json_parse s of
          Some (JArr js) \<Rightarrow> map (\<lambda>j. case dec_string j [] of None \<Rightarrow> [] | Some t \<Rightarrow> t) js
        | _ \<Rightarrow> []))"

fun dec_int :: "int decoder" where
  "dec_int (JNum t) cur = atoi t"
| "dec_int JNull cur = Some cur"
| "dec_int _ cur = None"

fun lenient_field :: "(string \<times> json) list \<Rightarrow> field_count \<Rightarrow> field_count" where
  "lenient_field [] f = f"
| "lenient_field ((k, j) # kvs) f = lenient_field kvs
     (if equal_fold k ''field'' then (case dec_string j (fc_field f) of None \<Rightarrow> f | Some t \<Rightarrow> f\<lparr>fc_field := t\<rparr>)
      else if equal_fold k ''count'' then (case dec_int j (fc_count f) of None \<Rightarrow> f | Some n \<Rightarrow> f\<lparr>fc_count := n\<rparr>)
      else f)"

definition parseFields :: "string \<Rightarrow> field_count list" where
  "parseFields s =
     (if s = [] then []
      else (case json_parse s of
          Some (JArr js) \<Rightarrow> map (\<lambda>j. case j of
              JObj kvs \<Rightarrow> lenient_field kvs \<lparr>fc_field = [], fc_count = 0\<rparr>
            | _ \<Rightarrow> \<lparr>fc_field = [], fc_count = 0\<rparr>) js
        | _ \<Rightarrow> []))"

section \<open>Strings come back\<close>

lemma hex_val_low: assumes "n < 16" shows "hex_val (low_hex n) = Some n"
proof -
  have "n \<in> {0, 1, 2, 3, 4, 5, 6, 7, 8, 9, 10, 11, 12, 13, 14, 15}" using assms by (simp only: insert_iff empty_iff) presburger
  then show ?thesis
    by (elim insertE emptyE) (simp_all add: hex_val_def low_hex_def char_in_def is_digit_def Let_def)
qed

lemma hex_digits: "(n :: nat) < 65536 \<Longrightarrow>
  16 * (16 * (16 * (n div 4096 mod 16) + n div 256 mod 16) + n div 16 mod 16) + n mod 16 = n"
proof -
  assume n: "n < 65536"
  have "16 * (n div 4096) + n div 256 mod 16 = n div 256"
    using div_mult_mod_eq [of "n div 256" 16] by (simp add: div_mult2_eq [symmetric])
  moreover have "16 * (n div 256) + n div 16 mod 16 = n div 16"
    using div_mult_mod_eq [of "n div 16" 16] by (simp add: div_mult2_eq [symmetric])
  moreover have "16 * (n div 16) + n mod 16 = n" using div_mult_mod_eq [of n 16] by simp
  moreover have "n div 4096 mod 16 = n div 4096" using n by (simp add: less_mult_imp_div_less)
  ultimately show ?thesis by simp
qed

lemma hex4_escape:
  assumes "n < 65536"
  shows "hex4 (low_hex (n div 4096 mod 16) # low_hex (n div 256 mod 16) # low_hex (n div 16 mod 16) # low_hex (n mod 16) # t) = Some n"
proof -
  have "hex4 (low_hex a # low_hex b # low_hex c # low_hex d # t) = Some (16 * (16 * (16 * a + b) + c) + d)"
    if "a < 16" "b < 16" "c < 16" "d < 16" for a b c d
    using that by (simp add: hex4_def hex_val_low numeral_eq_Suc)
  then show ?thesis by (simp only: hex_digits [OF assms] mod_less_divisor zero_less_numeral)
qed

lemma char_neqs: "backslash \<noteq> quote" "quote \<noteq> backslash"
  by (simp_all add: backslash_def quote_def)

lemma drop_four: "drop 4 (a # b # c # d # t) = t"
  by (simp add: numeral_eq_Suc)

lemma lex_u: "lex_str (backslash # CHR ''u'' # r) = (case hex4 r of None \<Rightarrow> None
   | Some n \<Rightarrow> map_option (\<lambda>(us, t). (Code n # us, t)) (lex_str (drop 4 r)))"
  by (simp only: lex_str.simps(2) list.case) (simp only: char_neqs if_False if_True refl)

lemma lex_u_escape:
  assumes "n < 65536"
  shows "lex_str (u_escape n @ t) = map_option (\<lambda>(us, r). (Code n # us, r)) (lex_str t)"
  unfolding u_escape_def append.simps lex_u hex4_escape [OF assms] by (simp only: option.case drop_four)

lemma units_text_code: "\<not> surrogate h \<Longrightarrow> units_text (Code h # us) = utf8 h @ units_text us"
  by (cases "(Code h # us)" rule: units_text.cases) simp_all

lemma utf8_byte: "(of_char c :: nat) < 128 \<Longrightarrow> utf8 (of_char c) = [c]"
  by (simp add: utf8_def)

text \<open>A piece of the inside of a literal, and the text it stands for.\<close>

definition lexes_to :: "string \<Rightarrow> string \<Rightarrow> bool" where
  "lexes_to w x \<longleftrightarrow> (\<forall>t us r. lex_str t = Some (us, r) \<longrightarrow>
     (\<exists>us'. lex_str (w @ t) = Some (us', r) \<and> units_text us' = x @ units_text us))"

lemma lexes_to_append: "lexes_to w x \<Longrightarrow> lexes_to w' x' \<Longrightarrow> lexes_to (w @ w') (x @ x')"
  unfolding lexes_to_def by (metis append.assoc)

lemma lexes_to_Nil: "lexes_to [] []"
  by (simp add: lexes_to_def)

lemma lexes_to_code: "n < 65536 \<Longrightarrow> \<not> surrogate n \<Longrightarrow> lexes_to (u_escape n) (utf8 n)"
  by (simp add: lexes_to_def lex_u_escape units_text_code)

lemma lexes_to_escaped: "unescape e = Some b \<Longrightarrow> e \<noteq> CHR ''u'' \<Longrightarrow> lexes_to [backslash, e] [b]"
  by (simp add: lexes_to_def backslash_def quote_def)

lemma lexes_to_plain:
  "\<forall>c \<in> set w. c \<noteq> quote \<and> c \<noteq> backslash \<and> 32 \<le> (of_char c :: nat) \<Longrightarrow> lexes_to w w"
proof (induction w)
  case (Cons c w)
  have "lexes_to [c] [c]" using Cons.prems by (simp add: lexes_to_def)
  then show ?case using lexes_to_append [of "[c]" "[c]" w w] Cons by simp
qed (rule lexes_to_Nil)

lemma lexes_to_byte:
  assumes "(of_char c :: nat) < 128"
  shows "lexes_to (escape_byte c) [c]"
proof -
  consider "c = quote \<or> c = backslash" | "c = CHR 0x08" | "c = CHR 0x0C" | "c = CHR 0x0A"
    | "c = CHR 0x0D" | "c = CHR 0x09"
    | "c \<notin> {quote, backslash, CHR 0x08, CHR 0x0C, CHR 0x0A, CHR 0x0D, CHR 0x09}" by blast
  then show ?thesis
  proof cases
    case 7
    have "lexes_to (u_escape (of_char c)) [c]"
      using lexes_to_code [of "of_char c"] assms by (simp add: utf8_byte surrogate_def)
    moreover have "lexes_to [c] [c]" if "\<not> (of_char c :: nat) < 32"
      using 7 that by (intro lexes_to_plain) auto
    ultimately show ?thesis using 7 by (simp add: escape_byte_def)
  qed (auto simp: escape_byte_def unescape_def backslash_def quote_def intro!: lexes_to_escaped
        [unfolded backslash_def])
qed

lemma utf8_bytes: "128 \<le> n \<Longrightarrow> n < 65536 \<Longrightarrow> b \<in> set (utf8 n) \<Longrightarrow> 128 \<le> (of_char b :: nat)"
  by (auto simp: utf8_def split: if_splits)

lemma rune_len_bytes: "\<forall>b \<in> set (take (rune_len bs) bs). 128 \<le> b"
  by (cases bs rule: rune_len.cases) (auto simp: continuation_def split: list.splits)

lemma rune_len_le: "rune_len bs \<le> 4"
  by (cases bs rule: rune_len.cases) (auto split: list.splits)

lemma rune_bytes:
  assumes "b \<in> set (take (rune_size s) s)"
  shows "128 \<le> (of_char b :: nat)"
proof -
  have "map of_char (take (rune_size s) s) = (take (rune_size s) (map of_char (take 4 s)) :: nat list)"
    by (simp add: rune_size_def take_map min.absorb1 rune_len_le)
  then show ?thesis
    using assms rune_len_bytes [of "map of_char (take 4 s)"] by (auto simp: rune_size_def)
       (metis imageI image_set)
qed

lemma lexes_to_rune: "lexes_to (take (rune_size s) s) (take (rune_size s) s)"
proof (rule lexes_to_plain, intro ballI)
  fix b assume "b \<in> set (take (rune_size s) s)"
  then have "128 \<le> (of_char b :: nat)" by (rule rune_bytes)
  then show "b \<noteq> quote \<and> b \<noteq> backslash \<and> 32 \<le> (of_char b :: nat)" by (auto simp: quote_def backslash_def)
qed

lemma lexes_to_escape: "lexes_to (escape s) (to_valid s)"
proof (induction s rule: escape.induct)
  case 1
  then show ?case by (simp add: lexes_to_Nil)
next
  case (2 c s)
  let ?n = "rune_size (c # s)"
  have u: "lexes_to (u_escape n) (utf8 n)" if "n \<in> {8232, 8233, 65533}" for n
    using that by (intro lexes_to_code) (auto simp: surrogate_def)
  show ?case
  proof (cases "(of_char c :: nat) < 128")
    case True
    then show ?thesis using lexes_to_append [OF lexes_to_byte [OF True] 2(1) [OF True]] by simp
  next
    case False
    note big = False
    show ?thesis
    proof (cases "?n = 0")
      case True
      then show ?thesis
        using big lexes_to_append [OF u [of 65533] 2(2) [OF big refl True]] by simp
    next
      case False
      have "lexes_to (if take ?n (c # s) = utf8 8232 then u_escape 8232
          else if take ?n (c # s) = utf8 8233 then u_escape 8233 else take ?n (c # s)) (take ?n (c # s))"
        using u [of 8232] u [of 8233] lexes_to_rune [of "c # s"] by simp
      from lexes_to_append [OF this 2(3) [OF big refl False]] show ?thesis
        using big False by (simp add: Let_def)
    qed
  qed
qed

lemma to_valid_id: "valid_utf8 s \<Longrightarrow> to_valid s = s"
proof (induction s rule: valid_utf8.induct)
  case (2 c s)
  then show ?case
    by (cases "rune_size (c # s)") (auto simp: Let_def split: if_splits)
qed simp

section \<open>Values come back\<close>

declare p_value.simps [simp del] p_elems.simps [simp del] p_members.simps [simp del]
declare lex_str.simps [simp del] escape.simps [simp del]

lemma skip_ws_id: "\<not> json_space c \<Longrightarrow> skip_ws (c # s) = c # s"
  by (simp add: skip_ws_def)

lemma json_space_marks:
  "\<not> json_space quote" "\<not> json_space (CHR ''{'')" "\<not> json_space (CHR ''}'')" "\<not> json_space (CHR ''['')"
  "\<not> json_space (CHR '']'')" "\<not> json_space (CHR '':'')" "\<not> json_space (CHR '','')"
  by (simp_all add: json_space_def quote_def)

lemma quote_marks:
  "quote \<noteq> CHR ''{''" "quote \<noteq> CHR ''[''" "quote \<noteq> CHR ''}''" "quote \<noteq> CHR '']''"
  by (simp_all add: quote_def)

lemma lex_enc_string: "\<exists>us. lex_str (escape s @ quote # t) = Some (us, t) \<and> units_text us = to_valid s"
proof -
  have "lex_str (quote # t) = Some ([], t)" by (simp add: lex_str.simps)
  with lexes_to_escape [of s] show ?thesis unfolding lexes_to_def by (metis append_Nil2 units_text.simps(1))
qed

lemma p_value_string: "\<exists>raw. p_value (Suc n) (enc_string s @ t) = Some (JStr raw (to_valid s), t)"
proof -
  obtain us where "lex_str (escape s @ quote # t) = Some (us, t)" "units_text us = to_valid s"
    using lex_enc_string by blast
  then show ?thesis
    by (simp add: enc_string_def skip_ws_id json_space_marks quote_marks p_value.simps)
qed

text \<open>What a decoder of single values needs for a slice of them to come back.\<close>

definition reads_as :: "('a \<Rightarrow> string) \<Rightarrow> ('a \<Rightarrow> json \<Rightarrow> bool) \<Rightarrow> 'a \<Rightarrow> bool" where
  "reads_as enc R x \<longleftrightarrow> (\<exists>h w. enc x = h # w \<and> \<not> json_space h \<and> h \<noteq> CHR '']'')
     \<and> (\<forall>n t. 4 \<le> n \<longrightarrow> (\<exists>j. p_value n (enc x @ t) = Some (j, t) \<and> R x j))"

lemma p_elems_last: "p_value m s = Some (j, CHR '']'' # t) \<Longrightarrow> p_elems (Suc m) s = Some ([j], t)"
  by (simp add: skip_ws_id json_space_marks p_elems.simps)

lemma p_elems_more:
  "p_value m s = Some (j, CHR '','' # u) \<Longrightarrow> p_elems m u = Some (js, t) \<Longrightarrow> p_elems (Suc m) s = Some (j # js, t)"
  by (simp add: skip_ws_id json_space_marks p_elems.simps)

lemma reads_as_value:
  "reads_as enc R x \<Longrightarrow> 4 \<le> n \<Longrightarrow> \<exists>j. p_value n (enc x @ t) = Some (j, t) \<and> R x j"
  unfolding reads_as_def by blast

lemma p_elems_join:
  assumes "xs \<noteq> []" "\<forall>x \<in> set xs. reads_as enc R x" "length xs + 4 \<le> n"
  shows "\<exists>js. p_elems n (join '','' (map enc xs) @ CHR '']'' # t) = Some (js, t) \<and> list_all2 R xs js"
  using assms
proof (induction xs arbitrary: n rule: induct_list012)
  case (2 x)
  obtain m where n: "n = Suc m" "4 \<le> m" using 2(3) by (cases n) auto
  obtain j where "p_value m (enc x @ CHR '']'' # t) = Some (j, CHR '']'' # t)" "R x j"
    using reads_as_value [of enc R x m] 2(2) n(2) by auto
  then show ?case using n(1) p_elems_last by fastforce
next
  case (3 x y zs)
  obtain m where n: "n = Suc m" "4 \<le> m" "length (y # zs) + 4 \<le> m" using 3(5) by (cases n) auto
  let ?u = "join '','' (map enc (y # zs)) @ CHR '']'' # t"
  obtain j where j: "p_value m (enc x @ CHR '','' # ?u) = Some (j, CHR '','' # ?u)" "R x j"
    using reads_as_value [of enc R x m] 3(4) n(2) by auto
  obtain js where js: "p_elems m ?u = Some (js, t)" "list_all2 R (y # zs) js"
    using 3(2) [of m] 3(4) n(3) by auto
  have eq: "join '','' (map enc (x # y # zs)) @ CHR '']'' # t = enc x @ CHR '','' # ?u" by simp
  show ?case unfolding eq n(1) using p_elems_more [OF j(1) js(1)] j(2) js(2) by blast
qed simp

lemma join_length: "\<forall>x \<in> set xs. enc x \<noteq> [] \<Longrightarrow> length xs \<le> length (join sep (map enc xs))"
proof (induction xs rule: induct_list012)
  case (2 x)
  then show ?case by (cases "enc x") auto
next
  case (3 x y zs)
  then show ?case by (cases "enc x") auto
qed simp

lemma parse_slice:
  assumes "\<forall>x \<in> set xs. reads_as enc R x"
  shows "\<exists>js. json_parse (enc_slice enc (Some xs)) = Some (JArr js) \<and> list_all2 R xs js"
proof (cases xs)
  case Nil
  then show ?thesis by (simp add: json_parse_def skip_ws_def json_space_def eval_nat_numeral p_value.simps)
next
  case (Cons x ys)
  let ?s = "enc_slice enc (Some xs)" and ?w = "join '','' (map enc xs) @ CHR '']'' # []"
  obtain h w where h: "?w = h # w" "\<not> json_space h" "h \<noteq> CHR '']''"
    using assms Cons unfolding reads_as_def by (cases ys) auto
  have "length xs \<le> length (join '','' (map enc xs))"
    using assms by (intro join_length) (auto simp: reads_as_def)
  then have "length xs + 4 \<le> 2 * length ?s + 1" by simp
  then obtain js where js: "p_elems (2 * length ?s + 1) ?w = Some (js, [])" "list_all2 R xs js"
    using p_elems_join [of xs enc R _ "[]"] assms Cons by blast
  have "p_value (Suc (2 * length ?s + 1)) (CHR ''['' # ?w) = Some (JArr js, [])"
    using js(1) h by (simp only: p_value.simps) (simp add: skip_ws_id json_space_marks)
  then show ?thesis using js(2) by (simp add: json_parse_def skip_ws_def)
qed

lemma reads_as_string: "reads_as enc_string (\<lambda>s j. \<exists>raw. j = JStr raw (to_valid s)) s"
proof -
  have "\<exists>j. p_value n (enc_string s @ t) = Some (j, t) \<and> (\<exists>raw. j = JStr raw (to_valid s))" if "4 \<le> n" for n t
    using that p_value_string [of "n - 1" s t] by (cases n) auto
  moreover have "\<exists>h w. enc_string s = h # w \<and> \<not> json_space h \<and> h \<noteq> CHR '']''"
    by (simp add: enc_string_def json_space_marks quote_marks)
  ultimately show ?thesis unfolding reads_as_def by blast
qed

lemma strings_come_back: "parseStrings (marshal_strings (Some xs)) = map to_valid xs"
proof -
  obtain js where js: "json_parse (marshal_strings (Some xs)) = Some (JArr js)"
      "list_all2 (\<lambda>s j. \<exists>raw. j = JStr raw (to_valid s)) xs js"
    using parse_slice [of xs enc_string] reads_as_string unfolding marshal_strings_def by blast
  have "map (\<lambda>j. case dec_string j [] of None \<Rightarrow> [] | Some t \<Rightarrow> t) js = map to_valid xs"
    using js(2) by (induction rule: list_all2_induct) auto
  then show ?thesis using js(1) by (simp add: parseStrings_def marshal_strings_def)
qed

section \<open>Numbers and fields come back\<close>

declare enc_nat.simps [simp del]

lemma of_char_digit: "d < 10 \<Longrightarrow> (of_char (char_of (48 + d) :: char) :: nat) = 48 + d"
  by simp

lemma is_digit_char: "(d :: nat) < 10 \<Longrightarrow> is_digit (char_of (48 + d))"
  by (simp add: is_digit_def char_in_def of_char_digit)

lemma digits_val_snoc:
  assumes "d < 10"
  shows "digits_val (s @ [char_of (48 + d)]) = 10 * digits_val s + int d"
proof -
  have "(of_char (char_of (48 + d) :: char) :: int) = int (of_char (char_of (48 + d) :: char))"
    by (simp only: of_nat_of_char)
  then show ?thesis using assms by (simp add: digits_val_def digit_val_def)
qed

lemma enc_nat_digits: "list_all is_digit (enc_nat n) \<and> enc_nat n \<noteq> [] \<and> digits_val (enc_nat n) = int n"
proof (induction n rule: enc_nat.induct)
  case (1 n)
  show ?case
  proof (cases "n < 10")
    case True
    then show ?thesis using digits_val_snoc [of n "[]"]
      by (subst (1 2 3) enc_nat.simps) (simp add: is_digit_char digits_val_def)
  next
    case False
    have "10 * int (n div 10) + int (n mod 10) = int n"
      by (metis mult_div_mod_eq of_nat_add of_nat_mult of_nat_numeral)
    moreover have "enc_nat n = enc_nat (n div 10) @ [char_of (48 + n mod 10)]"
      using False by (subst enc_nat.simps) simp
    ultimately show ?thesis using 1 [OF False] digits_val_snoc [of "n mod 10" "enc_nat (n div 10)"]
      by (simp add: is_digit_char)
  qed
qed

lemma enc_nat_zero: "hd (enc_nat n) = CHR ''0'' \<longleftrightarrow> n = 0"
proof (induction n rule: enc_nat.induct)
  case (1 n)
  show ?case
  proof (cases "n < 10")
    case True
    have "(char_of (48 + n) = CHR ''0'') \<longleftrightarrow> n = 0"
      using of_char_eq_iff [where 'a = nat, of "char_of (48 + n)" "CHR ''0''"] of_char_digit [OF True]
      by (simp only:) simp
    then show ?thesis using True by (subst enc_nat.simps) simp
  next
    case False
    then show ?thesis using 1 [OF False] enc_nat_digits [of "n div 10"] by (subst enc_nat.simps) auto
  qed
qed

lemma enc_int_not_sign: "c \<in> set (enc_nat n) \<Longrightarrow> is_digit c"
  using enc_nat_digits [of n] by (simp add: list_all_iff)

lemma atoi_enc_int:
  assumes "- (2 ^ 63) \<le> i" "i < 2 ^ 63"
  shows "atoi (enc_int i) = Some i"
proof -
  obtain c s where cs: "enc_nat (nat \<bar>i\<bar>) = c # s" using enc_nat_digits by (metis list.exhaust)
  then have d: "is_digit c" using enc_int_not_sign [of c "nat \<bar>i\<bar>"] by simp
  then have "c \<noteq> CHR ''-''" "c \<noteq> CHR ''+''" by (auto simp: is_digit_def char_in_def)
  then show ?thesis
    using enc_nat_digits [of "nat \<bar>i\<bar>"] cs assms by (auto simp: atoi_def enc_int_def Let_def split: if_splits)
qed

lemma takeWhile_all: "list_all P xs \<Longrightarrow> \<not> P y \<Longrightarrow> takeWhile P (xs @ y # ys) = xs \<and> dropWhile P (xs @ y # ys) = y # ys"
  by (induction xs) auto

lemma lex_enc_int: "lex_num (enc_int i @ CHR ''}'' # t) = Some (enc_int i, CHR ''}'' # t)"
proof -
  obtain c s where cs: "enc_nat (nat \<bar>i\<bar>) = c # s" using enc_nat_digits by (metis list.exhaust)
  then have d: "is_digit c" using enc_int_not_sign [of c "nat \<bar>i\<bar>"] by simp
  then have m: "c \<noteq> CHR ''-''" by (auto simp: is_digit_def char_in_def)
  have sp: "span_digits (c # s @ CHR ''}'' # t) = (c # s, CHR ''}'' # t)"
    using takeWhile_all [of is_digit "c # s" "CHR ''}''" t] enc_nat_digits [of "nat \<bar>i\<bar>"] cs
    by (simp add: span_digits_def is_digit_def char_in_def)
  have z: "s = []" if "c = CHR ''0''"
  proof -
    have "nat \<bar>i\<bar> = 0" using that cs enc_nat_zero [of "nat \<bar>i\<bar>"] by simp
    then show ?thesis using cs by (simp add: enc_nat.simps)
  qed
  have "lex_num (c # s @ CHR ''}'' # t) = Some (c # s, CHR ''}'' # t)"
    "lex_num (CHR ''-'' # c # s @ CHR ''}'' # t) = Some (CHR ''-'' # c # s, CHR ''}'' # t)"
    using m sp z by (simp_all add: lex_num_def Let_def)
  then show ?thesis using cs by (cases "i < 0") (simp_all add: enc_int_def)
qed

lemma p_value_int: "p_value (Suc n) (enc_int i @ CHR ''}'' # t) = Some (JNum (enc_int i), CHR ''}'' # t)"
proof -
  obtain d s where ds: "enc_nat (nat \<bar>i\<bar>) = d # s" using enc_nat_digits by (metis list.exhaust)
  then have "is_digit d" using enc_int_not_sign [of d "nat \<bar>i\<bar>"] by simp
  then obtain c r where c: "enc_int i = c # r" "is_digit c \<or> c = CHR ''-''"
    using ds by (cases "i < 0") (auto simp: enc_int_def)
  have "\<not> json_space c" "c \<noteq> CHR ''{''" "c \<noteq> CHR ''[''" "c \<noteq> quote"
    "c \<noteq> CHR ''t''" "c \<noteq> CHR ''f''" "c \<noteq> CHR ''n''"
    using c(2) by (auto simp: is_digit_def char_in_def json_space_def quote_def)
  then show ?thesis using lex_enc_int [of i t] c(1) by (simp add: p_value.simps skip_ws_id)
qed

lemma p_members_last:
  assumes "p_value n u = Some (j, CHR ''}'' # x)"
  shows "p_members (Suc n) (enc_string k @ CHR '':'' # u) = Some ([(to_valid k, j)], x)"
proof -
  obtain us where "lex_str (escape k @ quote # CHR '':'' # u) = Some (us, CHR '':'' # u)" "units_text us = to_valid k"
    using lex_enc_string by blast
  then show ?thesis using assms by (simp add: enc_string_def p_members.simps skip_ws_id json_space_marks)
qed

lemma p_members_more:
  assumes "p_value n u = Some (j, CHR '','' # x)" "p_members n x = Some (kvs, y)"
  shows "p_members (Suc n) (enc_string k @ CHR '':'' # u) = Some ((to_valid k, j) # kvs, y)"
proof -
  obtain us where "lex_str (escape k @ quote # CHR '':'' # u) = Some (us, CHR '':'' # u)" "units_text us = to_valid k"
    using lex_enc_string by blast
  then show ?thesis using assms by (simp add: enc_string_def p_members.simps skip_ws_id json_space_marks)
qed

definition field_json :: "field_count \<Rightarrow> json \<Rightarrow> bool" where
  "field_json f j \<longleftrightarrow> (\<exists>raw. j = JObj [(''field'', JStr raw (to_valid (fc_field f))), (''count'', JNum (enc_int (fc_count f)))])"

lemma p_value_field: "\<exists>j. p_value (Suc (Suc (Suc (Suc n)))) (enc_field f @ t) = Some (j, t) \<and> field_json f j"
proof -
  let ?c = "enc_string ''count'' @ CHR '':'' # enc_int (fc_count f) @ CHR ''}'' # t"
  obtain raw where raw: "p_value (Suc (Suc n)) (enc_string (fc_field f) @ CHR '','' # ?c)
      = Some (JStr raw (to_valid (fc_field f)), CHR '','' # ?c)"
    using p_value_string by blast
  have "p_members (Suc (Suc n)) ?c = Some ([(to_valid ''count'', JNum (enc_int (fc_count f)))], t)"
    by (rule p_members_last [OF p_value_int])
  from p_members_more [OF raw this, of "''field''"]
  have "p_members (Suc (Suc (Suc n))) (quote # escape ''field'' @ quote # CHR '':'' # enc_string (fc_field f) @ CHR '','' # ?c)
      = Some ([(''field'', JStr raw (to_valid (fc_field f))), (''count'', JNum (enc_int (fc_count f)))], t)"
    by (simp add: enc_string_def)
  then have "p_value (Suc (Suc (Suc (Suc n)))) (enc_field f @ t)
      = Some (JObj [(''field'', JStr raw (to_valid (fc_field f))), (''count'', JNum (enc_int (fc_count f)))], t)"
    by (simp add: enc_field_def enc_string_def p_value.simps(2) skip_ws_id json_space_marks quote_marks)
  then show ?thesis unfolding field_json_def by blast
qed

lemma reads_as_field: "reads_as enc_field field_json f"
proof -
  have "\<exists>j. p_value n (enc_field f @ t) = Some (j, t) \<and> field_json f j" if "4 \<le> n" for n t
  proof -
    have "n = Suc (Suc (Suc (Suc (n - 4))))" using that by simp
    then show ?thesis using p_value_field [of "n - 4" f t] by metis
  qed
  then show ?thesis unfolding reads_as_def by (simp add: enc_field_def json_space_marks)
qed

lemma fields_come_back:
  assumes "\<forall>f \<in> set fs. - (2 ^ 63) \<le> fc_count f \<and> fc_count f < 2 ^ 63"
  shows "parseFields (marshal_fields (Some fs)) = map (\<lambda>f. f\<lparr>fc_field := to_valid (fc_field f)\<rparr>) fs"
proof -
  let ?d = "\<lambda>j. case j of JObj kvs \<Rightarrow> lenient_field kvs \<lparr>fc_field = [], fc_count = 0\<rparr>
            | _ \<Rightarrow> \<lparr>fc_field = [], fc_count = 0\<rparr>"
  obtain js where js: "json_parse (marshal_fields (Some fs)) = Some (JArr js)" "list_all2 field_json fs js"
    using parse_slice [of fs enc_field] reads_as_field unfolding marshal_fields_def by blast
  have one: "?d j = f\<lparr>fc_field := to_valid (fc_field f)\<rparr>"
    if "field_json f j" "- (2 ^ 63) \<le> fc_count f \<and> fc_count f < 2 ^ 63" for f j
    using that by (auto simp: field_json_def equal_fold_def to_lower_def lower_char_def is_upper_def char_in_def
        atoi_enc_int)
  have "map ?d js = map (\<lambda>f. f\<lparr>fc_field := to_valid (fc_field f)\<rparr>) fs"
    using js(2) assms one by (induction rule: list_all2_induct) auto
  then show ?thesis using js(1) by (simp add: parseFields_def marshal_fields_def)
qed

section \<open>The fuel of the parser is enough\<close>

lemma skip_ws_length: "skip_ws s = c # r \<Longrightarrow> length r < length s"
  using length_dropWhile_le [of json_space s] by (simp add: skip_ws_def)

lemma lex_str_length: "lex_str s = Some (us, t) \<Longrightarrow> length t < length s"
proof (induction "length s" arbitrary: s us rule: less_induct)
  case less
  have IH: "length t < length s" if "lex_str s' = Some (us', t)" "length s' < length s" for s' us'
    using less(1) [OF that(2,1)] that(2) by simp
  show ?case
  proof (cases s)
    case Nil
    then show ?thesis using less(2) by (simp add: lex_str.simps)
  next
    case (Cons c r)
    then show ?thesis
      using less(2) IH by (auto simp: lex_str.simps split: if_splits list.splits option.splits)
  qed
qed

lemma span_digits_length: "span_digits s = (d, t) \<Longrightarrow> length t \<le> length s"
  by (auto simp: span_digits_def length_dropWhile_le)

lemma lex_num_length: "lex_num s = Some (x, t) \<Longrightarrow> length t \<le> length s"
  by (auto simp: lex_num_def Let_def split: list.splits if_splits prod.splits option.splits
      dest!: span_digits_length)

lemma p_lengths:
  "(p_value n s = Some (j, t) \<longrightarrow> length t \<le> length s) \<and> (p_elems n s = Some (js, t) \<longrightarrow> length t \<le> length s)
   \<and> (p_members n s = Some (kvs, t) \<longrightarrow> length t \<le> length s)"
proof (induction n arbitrary: s t j js kvs)
  case 0
  show ?case by (simp add: p_value.simps p_elems.simps p_members.simps)
next
  case (Suc n)
  have V: "length t \<le> length s" if "p_value n s = Some (j, t)" for s j t using Suc that by blast
  have E: "length t \<le> length s" if "p_elems n s = Some (js, t)" for s js t using Suc that by blast
  have M: "length t \<le> length s" if "p_members n s = Some (kvs, t)" for s kvs t using Suc that by blast
  have 1: "p_value (Suc n) s = Some (j, t) \<longrightarrow> length t \<le> length s"
  proof
    assume p: "p_value (Suc n) s = Some (j, t)"
    then obtain c r where sk: "skip_ws s = c # r" by (auto simp: p_value.simps split: list.splits)
    note L = skip_ws_length [OF sk]
    note q = p [unfolded p_value.simps sk list.case]
    consider "c = CHR ''{''" | "c = CHR ''[''" | "c = quote" | "c \<notin> {CHR ''{'', CHR ''['', quote}" by blast
    then show "length t \<le> length s"
    proof cases
      case 1
      then show ?thesis using q L by (cases "skip_ws r") (auto split: if_splits dest!: skip_ws_length M)
    next
      case 2
      then show ?thesis using q L by (cases "skip_ws r") (auto split: if_splits dest!: skip_ws_length E)
    next
      case 3
      then show ?thesis using q L quote_marks by (auto split: option.splits dest!: lex_str_length)
    next
      case 4
      then have "t = drop 4 (c # r) \<or> t = drop 5 (c # r) \<or> (\<exists>x. lex_num (c # r) = Some (x, t))"
        using q by (simp only: if_False insert_iff empty_iff simp_thms) (auto split: if_splits)
      then show ?thesis using L by (auto dest!: lex_num_length)
    qed
  qed
  have 2: "p_elems (Suc n) s = Some (js, t) \<longrightarrow> length t \<le> length s"
    unfolding p_elems.simps
    by (auto split: list.splits if_splits option.splits dest!: skip_ws_length E V)
  have 3: "p_members (Suc n) s = Some (kvs, t) \<longrightarrow> length t \<le> length s"
    unfolding p_members.simps
    by (auto split: list.splits if_splits option.splits dest!: skip_ws_length lex_str_length M V)
  show ?case using 1 2 3 by blast
qed

lemma p_fuel:
  "(2 * length s + 1 \<le> n \<and> 2 * length s + 1 \<le> m \<longrightarrow> p_value n s = p_value m s)
   \<and> (2 * length s + 2 \<le> n \<and> 2 * length s + 2 \<le> m \<longrightarrow> p_elems n s = p_elems m s \<and> p_members n s = p_members m s)"
proof (induction n arbitrary: s m)
  case (Suc n)
  have V: "p_value n s' = p_value m' s'" if "2 * length s' + 1 \<le> n" "2 * length s' + 1 \<le> m'" for s' m'
    using Suc that by blast
  have E: "p_elems n s' = p_elems m' s'" "p_members n s' = p_members m' s'"
    if "2 * length s' + 2 \<le> n" "2 * length s' + 2 \<le> m'" for s' m' using Suc that by blast+
  have 1: "p_value (Suc n) s = p_value (Suc m') s" if "2 * length s \<le> n" "2 * length s \<le> m'" for m'
  proof (cases "skip_ws s")
    case (Cons c r)
    note L = skip_ws_length [OF Cons]
    have "p_elems n (d # u) = p_elems m' (d # u) \<and> p_members n (d # u) = p_members m' (d # u)" if "skip_ws r = d # u" for d u
      using skip_ws_length [OF that] L \<open>2 * length s \<le> n\<close> \<open>2 * length s \<le> m'\<close> E [of "d # u" m'] by simp
    then show ?thesis unfolding p_value.simps Cons by (cases "skip_ws r") auto
  qed (simp add: p_value.simps)
  have 2: "p_elems (Suc n) s = p_elems (Suc m') s" if m: "2 * length s + 1 \<le> n" "2 * length s + 1 \<le> m'" for m'
  proof (cases "p_value n s")
    case (Some jt)
    obtain j t where jt: "jt = (j, t)" by fastforce
    have "p_elems n u = p_elems m' u" if "skip_ws t = c # u" for c u
      using skip_ws_length [OF that] p_lengths [of n s j t, THEN conjunct1] Some m by (intro E(1)) (simp_all add: jt)
    then show ?thesis using Some V [OF m] jt by (cases "skip_ws t") (simp_all add: p_elems.simps)
  qed (use V [OF m] in \<open>simp add: p_elems.simps\<close>)
  have 3: "p_members (Suc n) s = p_members (Suc m') s" if m: "2 * length s + 1 \<le> n" "2 * length s + 1 \<le> m'" for m'
  proof (cases "skip_ws s")
    case (Cons q r)
    have "p_value n u = p_value m' u \<and> (\<forall>j v d x. p_value n u = Some (j, v) \<and> skip_ws v = d # x \<longrightarrow> p_members n x = p_members m' x)"
      if "lex_str r = Some (us, t)" "skip_ws t = c # u" for us t c u
    proof -
      have u: "length u + 2 \<le> length s" using lex_str_length [OF that(1)] skip_ws_length [OF that(2)] skip_ws_length [OF Cons] by simp
      then have "p_value n u = p_value m' u" using m by (intro V) simp_all
      moreover have "p_members n x = p_members m' x" if "p_value n u = Some (j, v)" "skip_ws v = d # x" for j v d x
        using p_lengths [of n u j v, THEN conjunct1] skip_ws_length [OF that(2)] that(1) u m by (intro E) simp_all
      ultimately show ?thesis by blast
    qed
    then show ?thesis unfolding p_members.simps Cons
      by (auto split: list.split option.split)
  qed (simp add: p_members.simps)
  show ?case using 1 2 3 by (cases m) auto
qed simp

lemma json_fuel_enough:
  assumes "2 * length s + 2 \<le> n"
  shows "json_first s = map_option fst (p_value n s)"
    "json_parse s = (case p_value n s of None \<Rightarrow> None | Some (j, t) \<Rightarrow> if skip_ws t = [] then Some j else None)"
  using p_fuel [of s n "2 * length s + 2"] assms by (simp_all add: json_first_def json_parse_def)

section \<open>The text columns\<close>

text \<open>
  What the store writes into a text column is what it reads from it: the keywords of a
  document and an archive and the broad fields of an archive, encoded by \<open>marshalJSON\<close>, come back
  from \<open>parseStrings\<close> and \<open>parseFields\<close> as they were, whatever characters they hold that JSON
  escapes, when they are well-formed UTF-8 and the counts are 64-bit integers. Any other keyword
  comes back with its malformed bytes replaced by U+FFFD, and a nil slice as an empty one.
\<close>

theorem text_columns_roundtrip:
  assumes "\<forall>x \<in> set xs. valid_utf8 x"
    and "\<forall>f \<in> set fs. valid_utf8 (fc_field f) \<and> - (2 ^ 63) \<le> fc_count f \<and> fc_count f < 2 ^ 63"
  shows "parseStrings (marshal_strings (Some xs)) = xs \<and> parseFields (marshal_fields (Some fs)) = fs
    \<and> (\<forall>ys. parseStrings (marshal_strings (Some ys)) = map to_valid ys)
    \<and> parseStrings (marshal_strings None) = [] \<and> parseFields (marshal_fields None) = []"
proof -
  have "map to_valid xs = xs" using assms(1) by (simp add: map_idI to_valid_id)
  moreover have "map (\<lambda>f. f\<lparr>fc_field := to_valid (fc_field f)\<rparr>) fs = fs"
    using assms(2) by (simp add: map_idI to_valid_id)
  moreover have "json_parse ''null'' = Some JNull"
    by (simp add: json_parse_def p_value.simps skip_ws_def json_space_def quote_def eval_nat_numeral)
  ultimately show ?thesis
    using assms(2) by (simp add: strings_come_back fields_come_back parseStrings_def [of "''null''"]
        parseFields_def [of "''null''"] marshal_strings_def [of None] marshal_fields_def [of None])
qed

theorem text_columns_roundtrip_witness:
  "parseStrings (marshal_strings (Some [[quote, backslash, CHR ''<''], utf8 233])) = [[quote, backslash, CHR ''<''], utf8 233]"
proof -
  have v: "\<forall>x \<in> set [[quote, backslash, CHR ''<''], utf8 233]. valid_utf8 x"
    by (simp add: quote_def backslash_def utf8_def rune_size_def continuation_def)
  have w: "\<forall>f \<in> set [\<lparr>fc_field = ''Biology'', fc_count = 3\<rparr>].
      valid_utf8 (fc_field f) \<and> - (2 ^ 63) \<le> fc_count f \<and> fc_count f < 2 ^ 63" by simp
  show ?thesis by (rule text_columns_roundtrip [OF v w, THEN conjunct1])
qed

end
