(* ===== verification/Spec2Isabelle.thy ===== *)
theory Spec2Isabelle
  imports Store_Properties Search_Properties Indexer_Properties Pipeline_Properties Crawl_Properties
    Server_Properties System_Properties Race_Properties Job_Runs Json_Text
begin

text \<open>
  A model of the IPFS document indexer, a Go program that crawls archives on IPFS for PDF documents,
  has a language model extract keywords from each, and serves a search over them.

  \<^bold>\<open>How the program works.\<close> A visitor submits a CID to the HTTP server (\<open>server.go\<close>). The server asks the crawler
  (\<open>crawl.go\<close>) whether it is a directory or a PDF and puts a job in the queue of the background indexer
  (\<open>indexer.go\<close>), or, in review mode, a submission in the review queue of the store
  (\<open>store_admin.go\<close>). The goroutine of the indexer takes the jobs one at a time. For an archive it crawls
  the directory, records the members, and gives the pending documents to a pool of workers until none is
  pending; for documents it does one round. A worker runs the pipeline (\<open>pipeline.go\<close>): fetch
  through Kubo (\<open>ipfs_api.go\<close>) or a gateway, convert to text, ask the model for keywords, under two shared
  limiters and with retries; the store (\<open>store*.go\<close>) records the entry, the failure or the skip in
  SQLite. A document that fails three times is given up. On a restart the unfinished archives are queued again
  (\<open>main.go\<close>).

  \<^bold>\<open>What models what.\<close>

  \<^item> \<open>Prelude\<close>: Go's \<open>strings\<close>, \<open>strconv\<close> and \<open>time\<close> as far as the program uses them; a Go string is a list of bytes.
  \<open>Tables\<close>: the fragment of SQL, over a table as its list of rows; the locale \<open>pk_table\<close> is the contract of
  a table with a primary key, interpreted on every keyed table.

  \<^item> \<open>Store_Schema\<close>, \<open>Ranking\<close> (\<open>store.go\<close>): the row types of \<open>initSchema\<close>, the record \<open>store\<close> (the database, the
  in-memory fields, and a script \<open>drv\<close> that says which of the following driver calls fail), \<open>store_write\<close> for \<open>Store.write\<close>
  with its begin, body, commit and rollback, and the pure helpers. \<open>Store_Docs\<close>, \<open>Store_Archives\<close>, \<open>Store_Admin\<close>
  hold one definition per method of \<open>store_docs.go\<close>, \<open>store_archives.go\<close> and \<open>store_admin.go\<close>, under the name of the
  method. An operation takes the store, and the time if it reads the clock, and returns its result and the store after it;
  errors the code ignores are branches here as there. \<open>drv s = []\<close> means that no driver call fails.

  \<^item> \<open>Store_Invariant\<close>, \<open>Store_Steps\<close>: the consistency of the tables (\<open>store_ok\<close>), that every operation keeps it, the store
  as a state machine, the failure budget of a document, and the interpretation of \<open>settling_store\<close>.

  \<^item> \<open>Interfaces\<close>: two locales, what the indexer needs of the pipeline (\<open>processor\<close>) and of the store
  (\<open>settling_store\<close>). \<open>Indexer\<close> (\<open>process\<close>, \<open>indexArchive\<close>, \<open>indexPending\<close>), \<open>Worker_Pool\<close> (the goroutines of
  \<open>indexPending\<close> as a transition system) and \<open>Job_Queue\<close> (the channel, the counter, the flag and the goroutine of
  \<open>run\<close>, one atomic operation per step) model \<open>indexer.go\<close>.

  \<^item> \<open>Go_Net\<close> (requests and replies; \<open>'w net\<close> is the outside world), \<open>Json\<close> (\<open>encoding/json\<close>), \<open>Retry\<close>
  (back-off and the two retry loops), \<open>Limiter\<close> (\<open>rateLimiter\<close> with the workers that share it) and \<open>Pipeline\<close> (\<open>Process\<close> and
  its stages) model \<open>pipeline.go\<close>; \<open>Kubo\<close> models \<open>ipfs_api.go\<close>; \<open>Crawl\<close> and \<open>Crawl_Correct\<close> model \<open>crawl.go\<close>.

  \<^item> \<open>Api_Key\<close> (the key file of \<open>main.go\<close>, over a file system in which every call may fail), \<open>Service\<close>
  (the flags, \<open>PipelineConfig\<close> and what is built from it), \<open>Web\<close> (\<open>renderPage\<close> of \<open>web.go\<close>), \<open>Sessions\<close> and \<open>Server\<close> (each
  handler of \<open>server.go\<close> as a function of a request and the state of the process, \<open>serve\<close> for the routes, \<open>startup\<close> and
  \<open>boot\<close> for the start in \<open>main.go\<close>).

  \<^item> \<open>Interference\<close>, \<open>Handlers\<close>, \<open>Job_Steps\<close>, \<open>Rest\<close>, \<open>System\<close>: the whole process. \<open>guarantee\<close> is what every request keeps of
  the store and the queue. \<open>Handlers\<close> takes the handlers that make several calls on the shared state (submit, retry,
  approve) apart into one step per call, \<open>Job_Steps\<close> the jobs of the indexer, with the invariant (\<open>job_inv\<close>) that holds while
  others interfere; \<open>rest_measure\<close> in \<open>Rest\<close> bounds the steps of the queue, the job and the pool. A state of \<open>System\<close> is the
  server, the stage of the running job and the list of handlers under way; its steps are a request that comes in, one call of a
  handler, one operation of the queue, of the job or of a worker, and a restart, which keeps the database and the files.

  \<^item> \<open>Json_Text\<close>: the text of the JSON columns (\<open>marshalJSON\<close>, \<open>parseStrings\<close>, \<open>parseFields\<close>), the encoder of
  \<open>encoding/json\<close> with its escapes, and that the fuel of the parser suffices.

  \<^bold>\<open>What the lemmas show.\<close>

  \<^item> \<open>Store_Properties\<close>: the tables stay consistent in every reachable store; the store implements an abstract ledger of entries
  and failure counts; a write is atomic whatever driver calls fail; failing, retrying, finalising and deleting do what they
  promise. \<open>Search_Properties\<close>: search expressions, pages, suggestions, recent searches, ranking.

  \<^item> \<open>Indexer_Properties\<close>: an archive job completes with every member settled, provided each call of the pipeline returns; the pool
  settles each document once and never deadlocks; the job queue counts exactly and drains in order.

  \<^item> \<open>Pipeline_Properties\<close>: what an entry looks like, independence of the text around the answer of the model, the retry policy, bounds on
  waits and sizes, the limiters under every interleaving. \<open>Crawl_Properties\<close>: soundness and completeness of the crawl, the
  gap where completeness fails, the directory page.

  \<^item> \<open>Server_Properties\<close>: the administrative routes need a session, a session comes from a login with the key, a denied or unreviewed
  submission queues nothing, unknown CIDs are not fetched, the key file.

  \<^item> \<open>System_Properties\<close>: run without interruption the handlers of \<open>Handlers\<close> are those of \<open>Server\<close>; whatever interleaves and
  whenever the process restarts, the tables of documents stay consistent and no archive is forgotten; after the last request
  everything comes to rest with each archive done or failed; what a deletion during a job leaves behind.
  \<open>Race_Properties\<close>: of concurrent approvals exactly one queues the submission, a denial can come too late, and what goes wrong
  when a document is deleted in the middle of a retry. \<open>Job_Runs\<close>: the job of \<open>Indexer\<close>, one function, and that of
  \<open>Job_Steps\<close>, a sequence of steps, agree. \<open>Json_Text\<close>: the text columns come back as they were written.

  \<^bold>\<open>Fuel and bounds.\<close> The JSON parser runs on fuel twice the length of the input plus two; more changes no result
  (\<open>json_fuel_enough\<close>). The retry loops and the rounds of \<open>indexArchive\<close> are partial functions that
  return \<open>None\<close> for running for ever; that they return is proved: a round lowers the budget of every pending document, a
  budget is at most three, so three rounds are enough (\<open>indexing_terminates\<close>), and a retry loop ends on every sequence of answers
  with a deciding answer (\<open>retry_policy\<close>). A server that answers 429 for ever makes the code loop for ever, which is why termination of a
  call of the pipeline is a hypothesis of the properties of the indexer. The walk of the crawler ends by the depth limit. A limiter
  has at most its burst of tokens, the job channel holds 4096 jobs.

  \<^bold>\<open>Parameters.\<close> SQLite's FTS5 (which expressions it accepts, which rows match, their rank), the peers of HTTP requests, clocks and
  random bytes, the operating system's answers to file operations, the embedded files and the template parser, \<open>http.DetectContentType\<close>, \<open>url.Parse\<close> and
  \<open>httputil.ReverseProxy\<close>. Nothing is assumed of them except where a property says so.

  \<^bold>\<open>Not modelled.\<close> What the templates in \<open>web/\<close> write and the browser code; how the \<open>flag\<close> package reads the command line; the DSN, pragmas and
  SQL text of the schema; log lines and the length of sleeps; reply headers, server time-outs and the shutdown on a signal
  (its \<open>SaveAll\<close> is a checkpoint that changes no data). Of a handler that makes one call that changes the store or the queue, the reads
  and that call are one step of the process. Driver errors are considered for single operations, not in \<open>System\<close>. Letter case and white space are those of ASCII. Values of the 64-bit \<open>int\<close> are mathematical integers, except for
  durations, where the wrap-around is written out.

  \<^bold>\<open>Open.\<close> Replies as JSON text; driver errors in the middle of interleaved runs.
\<close>

end
